(* ===== verification/Prelude.thy ===== *)
theory Prelude
  imports Main "HOL-Library.Word" "HOL-Library.Sublist"
begin

text \<open>
  Shared vocabulary of the development: the outcome type by which every operation of the
  library reports a failed assertion or an access outside an object, the arithmetic of the
  64-bit \<open>size_t\<close>, byte arrays with checked loads and stores, and the few functions of the C
  library (\<open>isspace\<close>, \<open>tolower\<close>, \<open>memcmp\<close>, \<open>strlen\<close>) that the sources call.

  The model is of the build that \<open>CMakeLists.txt\<close> selects by default (Debug): \<open>assert\<close> is
  active, and a failed assertion stops the program, which is the value \<open>Inl Assertion\<close>.
\<close>

named_theorems outcome_iff \<open>inversion of operations that return an outcome\<close>
named_theorems size_simps \<open>evaluation of size_t arithmetic that does not wrap\<close>

subsection \<open>Outcomes\<close>

datatype fault =
    Assertion       \<comment> \<open>a failed \<open>assert\<close>\<close>
  | Out_of_bounds   \<comment> \<open>a load or store outside the object\<close>
  | Length_error    \<comment> \<open>\<open>std::length_error\<close> of a container\<close>
  | Null_pointer    \<comment> \<open>a null pointer used as an object\<close>
  | Empty_function  \<comment> \<open>\<open>std::bad_function_call\<close>\<close>
  | Div_by_zero     \<comment> \<open>an integer division by zero\<close>
  | Uninitialised   \<comment> \<open>a read of memory that was never written\<close>
  | Dangling        \<comment> \<open>an object used after its lifetime\<close>
  | Terminate       \<comment> \<open>\<open>std::terminate\<close>, also for an exception nobody catches\<close>
  | Exit            \<comment> \<open>\<open>exit(1)\<close> after a fatal error\<close>
  | Out_of_fuel     \<comment> \<open>the bound on the rounds of a loop that may not end was reached\<close>

type_synonym 'a outcome = "fault + 'a"

text \<open>The error numbers the library tells apart; on Linux \<open>EWOULDBLOCK\<close> is \<open>EAGAIN\<close>.\<close>

datatype errno =
    EAGAIN | EINTR | EPIPE | ECONNRESET | ESHUTDOWN | EINPROGRESS | EISCONN | EADDRINUSE
  | EADDRNOTAVAIL | ECONNREFUSED | ENETUNREACH | EMFILE | EBADF | ECONNABORTED | EPROTO | EPERM | EOTHER nat

definition obind :: "'a outcome \<Rightarrow> ('a \<Rightarrow> 'b outcome) \<Rightarrow> 'b outcome" where
  "obind m f = (case m of Inl e \<Rightarrow> Inl e | Inr x \<Rightarrow> f x)"

definition assertC :: "bool \<Rightarrow> 'a outcome \<Rightarrow> 'a outcome" where
  "assertC p r = (if p then r else Inl Assertion)"

fun ofold :: "('x \<Rightarrow> 's \<Rightarrow> 's outcome) \<Rightarrow> 'x list \<Rightarrow> 's \<Rightarrow> 's outcome" where
  "ofold f [] s = Inr s"
| "ofold f (x # xs) s = obind (f x s) (ofold f xs)"

lemma obind_simps [simp]:
  "obind (Inl e) f = Inl e"
  "obind (Inr x) f = f x"
  by (simp_all add: obind_def)

lemma assertC_simps [simp]:
  "p \<Longrightarrow> assertC p r = r"
  "\<not> p \<Longrightarrow> assertC p r = Inl Assertion"
  by (simp_all add: assertC_def)

lemma obind_eq_Inr [outcome_iff]: "obind m f = Inr y \<longleftrightarrow> (\<exists>x. m = Inr x \<and> f x = Inr y)"
  by (simp add: obind_def split: sum.split)

lemma assertC_eq_Inr [outcome_iff]: "assertC p r = Inr y \<longleftrightarrow> p \<and> r = Inr y"
  by (simp add: assertC_def)

lemma obind_Inr_right [simp]: "obind m Inr = m"
  by (simp add: obind_def split: sum.split)

lemma obind_assoc: "obind (obind m f) g = obind m (\<lambda>x. obind (f x) g)"
  by (simp add: obind_def split: sum.split)

lemma obind_cong [cong]:
  "m = m' \<Longrightarrow> (\<And>x. m' = Inr x \<Longrightarrow> f x = f' x) \<Longrightarrow> obind m f = obind m' f'"
  by (simp add: obind_def split: sum.split)

lemma ofold_append: "ofold f (xs @ ys) s = obind (ofold f xs s) (ofold f ys)"
  by (induction xs arbitrary: s) (simp_all add: obind_assoc)

text \<open>An invariant that one step keeps is kept by a run of steps that succeeds.\<close>

lemma ofold_invariant:
  assumes "\<And>x s s'. x \<in> set xs \<Longrightarrow> I s \<Longrightarrow> f x s = Inr s' \<Longrightarrow> I s'"
    and "I s" and "ofold f xs s = Inr s'"
  shows "I s'"
  using assms
proof (induction xs arbitrary: s)
  case Nil
  then show ?case by simp
next
  case (Cons x xs)
  from Cons.prems(3) obtain t where t: "f x s = Inr t" "ofold f xs t = Inr s'"
    by (auto simp: outcome_iff)
  have "I t" using Cons.prems(1) [of x s t] Cons.prems(2) t(1) by simp
  moreover have "\<And>y s s'. y \<in> set xs \<Longrightarrow> I s \<Longrightarrow> f y s = Inr s' \<Longrightarrow> I s'"
    using Cons.prems(1) by (meson list.set_intros(2))
  ultimately show ?case using t(2) Cons.IH by blast
qed

subsection \<open>The unsigned 64-bit \<open>size_t\<close>\<close>

text \<open>
  Sizes and indices are natural numbers below \<open>2 ^ 64\<close>; sums and differences are taken
  modulo \<open>2 ^ 64\<close>, as the C++ standard says of unsigned integers.
\<close>

abbreviation size_max :: nat where "size_max \<equiv> 2 ^ 64"

definition usub :: "nat \<Rightarrow> nat \<Rightarrow> nat" where
  "usub a b = (if b \<le> a then a - b else a + size_max - b)"

definition uadd :: "nat \<Rightarrow> nat \<Rightarrow> nat" where
  "uadd a b = (a + b) mod size_max"

text \<open>The largest size \<open>std::vector<char>\<close> and \<open>std::string\<close> admit (\<open>PTRDIFF_MAX\<close>).\<close>

definition vector_max :: nat where
  "vector_max = 2 ^ 63 - 1"

lemma usub_le [simp, size_simps]: "b \<le> a \<Longrightarrow> usub a b = a - b"
  by (simp add: usub_def)

lemma usub_self [simp]: "usub a a = 0"
  by simp

lemma uadd_small [size_simps]: "a + b < size_max \<Longrightarrow> uadd a b = a + b"
  by (simp add: uadd_def)

lemma vector_max_bound: "vector_max + vector_max < size_max" "0 < vector_max"
  by (simp_all add: vector_max_def)

lemma uadd_vector [size_simps]: "a \<le> vector_max \<Longrightarrow> b \<le> vector_max \<Longrightarrow> uadd a b = a + b"
  using vector_max_bound by (intro uadd_small) linarith

text \<open>\<open>usub\<close> and \<open>uadd\<close> are the operations of the 64-bit machine word.\<close>

lemma usub_word:
  assumes "a < size_max" "b < size_max"
  shows "usub a b = unat (of_nat a - of_nat b :: 64 word)"
proof -
  have "unat (of_nat a :: 64 word) = a" "unat (of_nat b :: 64 word) = b"
    using assms by (simp_all add: unat_of_nat)
  then show ?thesis
    using assms by (auto simp: usub_def unat_sub_if' word_le_nat_alt)
qed

lemma uadd_word: "uadd a b = unat (of_nat a + of_nat b :: 64 word)"
  by (simp add: uadd_def unat_of_nat flip: of_nat_add)

text \<open>\<open>static_cast<int>\<close> of a wider integer keeps the low 32 bits.\<close>

definition to_int32 :: "int \<Rightarrow> int" where
  "to_int32 n = (n + 2 ^ 31) mod 2 ^ 32 - 2 ^ 31"

lemma to_int32_small [simp]: "- (2 ^ 31) \<le> n \<Longrightarrow> n < 2 ^ 31 \<Longrightarrow> to_int32 n = n"
  by (simp add: to_int32_def)

lemma to_int32_signed: "to_int32 n = sint (word_of_int n :: 32 word)"
  by (simp add: to_int32_def sint_sbintrunc' signed_take_bit_eq_take_bit_shift take_bit_eq_mod)

subsection \<open>Byte arrays\<close>

definition segment :: "nat \<Rightarrow> nat \<Rightarrow> 'a list \<Rightarrow> 'a list" where
  "segment off n xs = take n (drop off xs)"

definition overwrite :: "nat \<Rightarrow> 'a list \<Rightarrow> 'a list \<Rightarrow> 'a list" where
  "overwrite off ys xs = take off xs @ ys @ drop (off + length ys) xs"

definition load :: "nat \<Rightarrow> nat \<Rightarrow> 'a list \<Rightarrow> 'a list outcome" where
  "load off n xs = (if off + n \<le> length xs then Inr (segment off n xs) else Inl Out_of_bounds)"

definition store :: "nat \<Rightarrow> 'a list \<Rightarrow> 'a list \<Rightarrow> 'a list outcome" where
  "store off ys xs =
     (if off + length ys \<le> length xs then Inr (overwrite off ys xs) else Inl Out_of_bounds)"

abbreviation NUL :: char where "NUL \<equiv> CHR 0x00"

text \<open>\<open>std::vector<char>::resize\<close>: new elements are zero, \<open>length_error\<close> beyond the maximum.\<close>

definition vresize :: "nat \<Rightarrow> char list \<Rightarrow> char list outcome" where
  "vresize n xs =
     (if n \<le> vector_max then Inr (take n xs @ replicate (n - length xs) NUL)
      else Inl Length_error)"

lemma length_segment [simp]: "length (segment off n xs) = min n (length xs - off)"
  by (simp add: segment_def)

lemma length_overwrite [simp]:
  "off + length ys \<le> length xs \<Longrightarrow> length (overwrite off ys xs) = length xs"
  by (simp add: overwrite_def)

lemma segment_0 [simp]: "segment off 0 xs = []"
  by (simp add: segment_def)

lemma segment_Suc: "i < length xs \<Longrightarrow> segment i (Suc n) xs = xs ! i # segment (Suc i) n xs"
  by (simp add: segment_def Cons_nth_drop_Suc [symmetric])

lemma nth_segment [simp]: "i < n \<Longrightarrow> off + i < length xs \<Longrightarrow> segment off n xs ! i = xs ! (off + i)"
  by (simp add: segment_def)

lemma segment_append_split: "segment off (m + n) xs = segment off m xs @ segment (off + m) n xs"
  by (simp add: segment_def take_add add.commute)

lemma take_segment: "take k (segment off n xs) = segment off (min k n) xs"
  by (simp add: segment_def)

lemma drop_segment: "drop k (segment off n xs) = segment (off + k) (n - k) xs"
  by (simp add: segment_def drop_take add.commute)

lemma segment_all: "segment 0 (length xs) xs = xs"
  by (simp add: segment_def)

lemma segment_overwrite_same:
  "off + length ys \<le> length xs \<Longrightarrow> segment off (length ys) (overwrite off ys xs) = ys"
  by (simp add: segment_def overwrite_def)

lemma segment_overwrite_before:
  "a + n \<le> off \<Longrightarrow> off + length ys \<le> length xs \<Longrightarrow> segment a n (overwrite off ys xs) = segment a n xs"
  by (simp add: segment_def overwrite_def drop_take min_absorb1)

lemma segment_overwrite_join:
  "a \<le> off \<Longrightarrow> off + length ys \<le> length xs \<Longrightarrow>
   segment a (off - a + length ys) (overwrite off ys xs) = segment a (off - a) xs @ ys"
  by (simp add: segment_def overwrite_def drop_take)

lemma segment_append_left: "off + n \<le> length xs \<Longrightarrow> segment off n (xs @ ys) = segment off n xs"
  by (simp add: segment_def)

lemma load_eq_Inr [outcome_iff]:
  "load off n xs = Inr ys \<longleftrightarrow> off + n \<le> length xs \<and> ys = segment off n xs"
  by (auto simp: load_def)

lemma store_eq_Inr [outcome_iff]:
  "store off ys xs = Inr zs \<longleftrightarrow> off + length ys \<le> length xs \<and> zs = overwrite off ys xs"
  by (auto simp: store_def)

lemma vresize_eq_Inr [outcome_iff]:
  "vresize n xs = Inr ys \<longleftrightarrow>
     n \<le> vector_max \<and> ys = take n xs @ replicate (n - length xs) NUL"
  by (auto simp: vresize_def)

lemma load_ok [simp]: "off + n \<le> length xs \<Longrightarrow> load off n xs = Inr (segment off n xs)"
  by (simp add: load_def)

lemma store_ok [simp]: "off + length ys \<le> length xs \<Longrightarrow> store off ys xs = Inr (overwrite off ys xs)"
  by (simp add: store_def)

subsection \<open>Functions of the C library\<close>

definition isspace :: "char \<Rightarrow> bool" where
  "isspace c \<longleftrightarrow> c \<in> {CHR '' '', CHR 0x09, CHR 0x0A, CHR 0x0B, CHR 0x0C, CHR 0x0D}"

definition tolower :: "char \<Rightarrow> char" where
  "tolower c = (if (65::nat) \<le> of_char c \<and> of_char c \<le> (90::nat)
                then char_of (of_char c + 32 :: nat) else c)"

text \<open>\<open>memcmp\<close> promises a sign only; the sign is returned as -1, 0 or 1.\<close>

fun memcmp :: "char list \<Rightarrow> char list \<Rightarrow> nat \<Rightarrow> int" where
  "memcmp (x # xs) (y # ys) (Suc n) =
     (if x = y then memcmp xs ys n
      else if (of_char x :: nat) < of_char y then -1 else 1)"
| "memcmp xs ys n = 0"

definition strlen :: "char list \<Rightarrow> nat" where
  "strlen s = length (takeWhile (\<lambda>c. c \<noteq> NUL) s)"

text \<open>
  The pointer loop \<open>while (b < e && p( *b)) b++\<close> over an array \<open>m\<close>, the shape of every scan in
  the library.
\<close>

function skip_while :: "(char \<Rightarrow> bool) \<Rightarrow> char list \<Rightarrow> nat \<Rightarrow> nat \<Rightarrow> nat" where
  "skip_while p m b e = (if b < e \<and> p (m ! b) then skip_while p m (Suc b) e else b)"
  by pat_completeness auto
termination by (relation "measure (\<lambda>(p, m, b, e). e - b)") auto

declare skip_while.simps [simp del]

lemma skip_while_takeWhile:
  assumes "b \<le> e" "e \<le> length m"
  shows "skip_while p m b e = b + length (takeWhile p (segment b (e - b) m))"
  using assms
proof (induction p m b e rule: skip_while.induct)
  case (1 p m b e)
  show ?case
  proof (cases "b < e")
    case True
    then have "segment b (e - b) m = m ! b # segment (Suc b) (e - Suc b) m"
      using "1.prems" segment_Suc [of b m "e - Suc b"] by (simp add: Suc_diff_Suc)
    with True "1.IH" "1.prems" show ?thesis
      by (simp add: skip_while.simps [of p m b e])
  next
    case False
    with "1.prems" have "b = e" by simp
    then show ?thesis by (simp add: skip_while.simps [of p m e e])
  qed
qed

lemma skip_while_bounds: "b \<le> e \<Longrightarrow> e \<le> length m \<Longrightarrow> b \<le> skip_while p m b e \<and> skip_while p m b e \<le> e"
  using length_takeWhile_le [of p "segment b (e - b) m"] by (simp add: skip_while_takeWhile)

lemma segment_skip_while:
  assumes "b \<le> e" "e \<le> length m"
  shows "segment b (skip_while p m b e - b) m = takeWhile p (segment b (e - b) m)"
    and "segment (skip_while p m b e) (e - skip_while p m b e) m = dropWhile p (segment b (e - b) m)"
proof -
  let ?c = "segment b (e - b) m" and ?k = "length (takeWhile p (segment b (e - b) m))"
  have k: "skip_while p m b e = b + ?k" using assms by (rule skip_while_takeWhile)
  have le: "?k \<le> e - b" using length_takeWhile_le [of p ?c] by simp
  show "segment b (skip_while p m b e - b) m = takeWhile p ?c"
    using k le takeWhile_eq_take [of p ?c] by (simp add: take_segment min_absorb1)
  show "segment (skip_while p m b e) (e - skip_while p m b e) m = dropWhile p ?c"
    using k le dropWhile_eq_drop [of p ?c] by (simp add: drop_segment)
qed

definition strip :: "('a \<Rightarrow> bool) \<Rightarrow> 'a list \<Rightarrow> 'a list" where
  "strip p xs = rev (dropWhile p (rev (dropWhile p xs)))"

lemma strip_split:
  "\<exists>u v. set u \<subseteq> Collect p \<and> set v \<subseteq> Collect p \<and> xs = u @ strip p xs @ v"
proof (intro exI conjI)
  let ?d = "dropWhile p xs"
  show "set (takeWhile p xs) \<subseteq> Collect p" "set (rev (takeWhile p (rev ?d))) \<subseteq> Collect p"
    by (auto dest: set_takeWhileD)
  have "strip p xs @ rev (takeWhile p (rev ?d)) = ?d"
    by (simp add: strip_def flip: rev_append)
  then show "xs = takeWhile p xs @ strip p xs @ rev (takeWhile p (rev ?d))"
    by simp
qed

lemma strip_ends:
  "strip p xs \<noteq> [] \<longrightarrow> \<not> p (hd (strip p xs)) \<and> \<not> p (last (strip p xs))"
proof
  assume ne: "strip p xs \<noteq> []"
  let ?d = "dropWhile p xs"
  have d: "?d = strip p xs @ rev (takeWhile p (rev ?d))"
    by (simp add: strip_def flip: rev_append)
  with ne have "?d \<noteq> []" "hd (strip p xs) = hd ?d"
    by (metis append_is_Nil_conv, metis hd_append2)
  then have "\<not> p (hd (strip p xs))" using hd_dropWhile [of p xs] by metis
  moreover have "\<not> p (last (strip p xs))"
    using ne hd_dropWhile [of p "rev ?d"] by (simp add: strip_def last_rev)
  ultimately show "\<not> p (hd (strip p xs)) \<and> \<not> p (last (strip p xs))" ..
qed

lemma memcmp_zero:
  "n \<le> length xs \<Longrightarrow> n \<le> length ys \<Longrightarrow> memcmp xs ys n = 0 \<longleftrightarrow> take n xs = take n ys"
  by (induction xs ys n rule: memcmp.induct) auto

end
