(* ===== verification/String_Piece.thy ===== *)
theory String_Piece
  imports Prelude "HOL-Library.Char_ord" "HOL-Library.List_Lexorder"
begin

text \<open>
  \<open>Common/stringPiece.h\<close>: the non-owning string view. A piece is a pair of pointers into an
  array it does not own; the array is the field \<open>mem\<close>, the pointers are offsets into it. The
  scanning operations are the pointer loops of the source; the lemmas relate them to list
  functions on the bytes the piece denotes (\<open>toString\<close>).
\<close>

named_theorems piece_defs \<open>definitions of the string view\<close>

record string_piece =
  mem :: "char list"
  pb :: nat
  pe :: nat

subsection \<open>Construction and access\<close>

definition sp_empty :: string_piece where
  "sp_empty = \<lparr>mem = [], pb = 0, pe = 0\<rparr>"

definition sp_range :: "char list \<Rightarrow> nat \<Rightarrow> nat \<Rightarrow> string_piece" where
  "sp_range m b e = \<lparr>mem = m, pb = b, pe = e\<rparr>"

definition sp_at :: "char list \<Rightarrow> nat \<Rightarrow> nat \<Rightarrow> string_piece" where
  "sp_at m d n = \<lparr>mem = m, pb = d, pe = d + n\<rparr>"

definition sp_of_string :: "string \<Rightarrow> string_piece" where
  "sp_of_string s = \<lparr>mem = s, pb = 0, pe = length s\<rparr>"

definition sp_of_cstr :: "char list \<Rightarrow> string_piece" where
  "sp_of_cstr s = \<lparr>mem = s, pb = 0, pe = strlen s\<rparr>"

definition sp_assign :: "string_piece \<Rightarrow> string \<Rightarrow> string_piece" where
  "sp_assign sp s = sp\<lparr>mem := s, pb := 0, pe := length s\<rparr>"

definition sp_front :: "string_piece \<Rightarrow> char outcome" where
  "sp_front sp = (if pb sp < length (mem sp) then Inr (mem sp ! pb sp) else Inl Out_of_bounds)"

definition sp_back :: "string_piece \<Rightarrow> char outcome" where
  "sp_back sp = (if 0 < pe sp \<and> pe sp \<le> length (mem sp) then Inr (mem sp ! (pe sp - 1))
                 else Inl Out_of_bounds)"

definition sp_size :: "string_piece \<Rightarrow> nat" where
  "sp_size sp = usub (pe sp) (pb sp)"

definition sp_resize :: "string_piece \<Rightarrow> nat \<Rightarrow> string_piece" where
  "sp_resize sp sz = sp\<lparr>pe := pb sp + sz\<rparr>"

definition sp_is_empty :: "string_piece \<Rightarrow> bool" where
  "sp_is_empty sp \<longleftrightarrow> pe sp = pb sp"

definition sp_clear :: "string_piece \<Rightarrow> string_piece" where
  "sp_clear sp = sp\<lparr>mem := [], pe := 0, pb := 0\<rparr>"

definition sp_index :: "string_piece \<Rightarrow> nat \<Rightarrow> char outcome" where
  "sp_index sp n = (if pb sp + n < length (mem sp) then Inr (mem sp ! (pb sp + n))
                    else Inl Out_of_bounds)"

definition toString :: "string_piece \<Rightarrow> string" where
  "toString sp = segment (pb sp) (pe sp - pb sp) (mem sp)"

subsection \<open>Scanning\<close>

definition eatWord :: "string_piece \<Rightarrow> string_piece \<times> string_piece" where
  "eatWord sp =
     (let b = skip_while isspace (mem sp) (pb sp) (pe sp);
          e = skip_while (\<lambda>c. \<not> isspace c) (mem sp) b (pe sp)
      in (sp_at (mem sp) b (e - b), sp\<lparr>pb := e\<rparr>))"

definition eatLine :: "string_piece \<Rightarrow> string_piece \<times> string_piece" where
  "eatLine sp =
     (let p = pb sp;
          b = skip_while (\<lambda>c. c \<noteq> CHR 0x0A \<and> c \<noteq> CHR 0x0D) (mem sp) p (pe sp)
      in (sp_at (mem sp) p (b - p), sp\<lparr>pb := b\<rparr>))"

text \<open>
  \<open>eat\<close> moves the begin pointer without looking at the end pointer. Its argument is an \<open>int\<close>
  that is never negative (the library calls it with 2).
\<close>

definition eat :: "string_piece \<Rightarrow> nat \<Rightarrow> string_piece \<times> string_piece" where
  "eat sp sz = (sp_at (mem sp) (pb sp) sz, sp\<lparr>pb := pb sp + sz\<rparr>)"

definition sp_sub :: "string_piece \<Rightarrow> int \<Rightarrow> int \<Rightarrow> string_piece" where
  "sp_sub sp boff eoff = sp\<lparr>pb := nat (int (pb sp) + boff), pe := nat (int (pe sp) + eoff)\<rparr>"

text \<open>The second loop of \<open>trimSpace\<close> runs backwards from the end pointer.\<close>

function skip_back :: "(char \<Rightarrow> bool) \<Rightarrow> char list \<Rightarrow> nat \<Rightarrow> nat \<Rightarrow> nat" where
  "skip_back p m b e = (if b < e \<and> p (m ! (e - 1)) then skip_back p m b (e - 1) else e)"
  by pat_completeness auto
termination by (relation "measure (\<lambda>(p, m, b, e). e)") auto

declare skip_back.simps [simp del]

definition trimSpace :: "string_piece \<Rightarrow> string_piece" where
  "trimSpace sp =
     (let b = skip_while isspace (mem sp) (pb sp) (pe sp);
          e = skip_back isspace (mem sp) b (pe sp)
      in sp\<lparr>pb := b, pe := e\<rparr>)"

subsection \<open>Comparison and splitting\<close>

definition starts_with :: "string_piece \<Rightarrow> string_piece \<Rightarrow> bool" where
  "starts_with sp x \<longleftrightarrow> sp_size sp \<ge> sp_size x \<and>
     memcmp (drop (pb sp) (mem sp)) (drop (pb x) (mem x)) (sp_size x) = 0"

definition end_with :: "string_piece \<Rightarrow> string_piece \<Rightarrow> bool" where
  "end_with sp x \<longleftrightarrow> sp_size sp \<ge> sp_size x \<and>
     memcmp (drop (pe sp - sp_size x) (mem sp)) (drop (pb x) (mem x)) (sp_size x) = 0"

definition compare :: "string_piece \<Rightarrow> string_piece \<Rightarrow> int" where
  "compare sp b =
     (let sz = sp_size sp; bsz = sp_size b;
          min_len = (if sz < bsz then sz else bsz);
          r = memcmp (drop (pb sp) (mem sp)) (drop (pb b) (mem b)) min_len
      in if r = 0 then (if sz < bsz then -1 else if sz > bsz then 1 else r) else r)"

definition sp_less :: "string_piece \<Rightarrow> string_piece \<Rightarrow> bool" where
  "sp_less x y \<longleftrightarrow> compare x y < 0"

definition sp_eq :: "string_piece \<Rightarrow> string_piece \<Rightarrow> bool" where
  "sp_eq x y \<longleftrightarrow> sp_size x = sp_size y \<and>
     memcmp (drop (pb x) (mem x)) (drop (pb y) (mem y)) (sp_size x) = 0"

definition sp_neq :: "string_piece \<Rightarrow> string_piece \<Rightarrow> bool" where
  "sp_neq x y \<longleftrightarrow> \<not> sp_eq x y"

text \<open>
  The loop of \<open>split\<close>: \<open>p\<close> walks to the end pointer, \<open>start\<close> is the local \<open>pb\<close>, and \<open>r\<close> the
  result vector.
\<close>

function split_loop ::
  "char \<Rightarrow> char list \<Rightarrow> nat \<Rightarrow> nat \<Rightarrow> nat \<Rightarrow> string_piece list \<Rightarrow> nat \<times> string_piece list" where
  "split_loop ch m p e start r =
     (if p < e then
        (if m ! p = ch then split_loop ch m (Suc p) e (Suc p) (r @ [sp_range m start p])
         else split_loop ch m (Suc p) e start r)
      else (start, r))"
  by pat_completeness auto
termination by (relation "measure (\<lambda>(ch, m, p, e, start, r). e - p)") auto

declare split_loop.simps [simp del]

definition split :: "string_piece \<Rightarrow> char \<Rightarrow> string_piece list" where
  "split sp ch =
     (let (start, r) = split_loop ch (mem sp) (pb sp) (pe sp) (pb sp) []
      in if pe sp \<noteq> pb sp then r @ [sp_range (mem sp) start (pe sp)] else r)"

lemmas [piece_defs] =
  sp_empty_def sp_range_def sp_at_def sp_of_string_def sp_of_cstr_def sp_assign_def
  sp_size_def sp_resize_def sp_is_empty_def sp_clear_def toString_def eat_def sp_sub_def

subsection \<open>Well-formed pieces\<close>

definition wf_piece :: "string_piece \<Rightarrow> bool" where
  "wf_piece sp \<longleftrightarrow> pb sp \<le> pe sp \<and> pe sp \<le> length (mem sp)"

lemma wf_pieceD: "wf_piece sp \<Longrightarrow> pb sp \<le> pe sp" "wf_piece sp \<Longrightarrow> pe sp \<le> length (mem sp)"
  by (simp_all add: wf_piece_def)

lemma sp_size_wf [simp]: "wf_piece sp \<Longrightarrow> sp_size sp = length (toString sp)"
  by (auto simp: piece_defs wf_piece_def)

lemma sp_is_empty_wf [simp]: "wf_piece sp \<Longrightarrow> sp_is_empty sp \<longleftrightarrow> toString sp = []"
  by (auto simp: piece_defs wf_piece_def simp flip: length_0_conv)

lemma sp_of_string_wf [simp]: "wf_piece (sp_of_string s)" "toString (sp_of_string s) = s"
  by (simp_all add: piece_defs wf_piece_def segment_def)

lemma toString_drop: "wf_piece sp \<Longrightarrow> drop (pb sp) (mem sp) = toString sp @ drop (pe sp) (mem sp)"
  using append_take_drop_id [of "pe sp - pb sp" "drop (pb sp) (mem sp)"]
  by (simp add: piece_defs wf_piece_def segment_def)

lemma eatWord_wf:
  assumes "wf_piece sp" "eatWord sp = (w, r)"
  shows "wf_piece w" "wf_piece r" "mem w = mem sp" "mem r = mem sp" "pe r = pe sp"
    "toString w = takeWhile (\<lambda>c. \<not> isspace c) (dropWhile isspace (toString sp))"
    "toString r = dropWhile (\<lambda>c. \<not> isspace c) (dropWhile isspace (toString sp))"
proof -
  define b where "b = skip_while isspace (mem sp) (pb sp) (pe sp)"
  define e where "e = skip_while (\<lambda>c. \<not> isspace c) (mem sp) b (pe sp)"
  have w: "w = sp_at (mem sp) b (e - b)" and r: "r = sp\<lparr>pb := e\<rparr>"
    using assms(2) by (auto simp: eatWord_def Let_def b_def e_def)
  have b: "b \<le> pe sp" and drop: "segment b (pe sp - b) (mem sp) = dropWhile isspace (toString sp)"
    using skip_while_bounds [of "pb sp" "pe sp" "mem sp" isspace]
      segment_skip_while(2) [of "pb sp" "pe sp" "mem sp" isspace] wf_pieceD [OF assms(1)]
    by (simp_all add: b_def toString_def)
  note e_bounds = skip_while_bounds [OF b wf_pieceD(2) [OF assms(1)], of "\<lambda>c. \<not> isspace c"]
  note parts = segment_skip_while [OF b wf_pieceD(2) [OF assms(1)], of "\<lambda>c. \<not> isspace c"]
  show "wf_piece w" "wf_piece r" "mem w = mem sp" "mem r = mem sp" "pe r = pe sp"
    using e_bounds wf_pieceD [OF assms(1)]
    by (simp_all add: w r e_def piece_defs wf_piece_def)
  show "toString w = takeWhile (\<lambda>c. \<not> isspace c) (dropWhile isspace (toString sp))"
    using parts(1) drop by (simp add: w e_def sp_at_def toString_def)
  show "toString r = dropWhile (\<lambda>c. \<not> isspace c) (dropWhile isspace (toString sp))"
    using parts(2) drop by (simp add: r e_def toString_def)
qed

lemma eatLine_wf:
  assumes "wf_piece sp" "eatLine sp = (l, r)"
  shows "wf_piece l" "wf_piece r" "mem l = mem sp" "mem r = mem sp" "pe r = pe sp" "pb l = pb sp"
    "toString l = takeWhile (\<lambda>c. c \<noteq> CHR 0x0A \<and> c \<noteq> CHR 0x0D) (toString sp)"
    "toString r = dropWhile (\<lambda>c. c \<noteq> CHR 0x0A \<and> c \<noteq> CHR 0x0D) (toString sp)"
proof -
  let ?p = "\<lambda>c. c \<noteq> CHR 0x0A \<and> c \<noteq> CHR 0x0D"
  define b where "b = skip_while ?p (mem sp) (pb sp) (pe sp)"
  have l: "l = sp_at (mem sp) (pb sp) (b - pb sp)" and r: "r = sp\<lparr>pb := b\<rparr>"
    using assms(2) by (auto simp: eatLine_def Let_def b_def)
  note bounds = skip_while_bounds [OF wf_pieceD [OF assms(1)], of ?p]
  note parts = segment_skip_while [OF wf_pieceD [OF assms(1)], of ?p]
  show "wf_piece l" "wf_piece r" "mem l = mem sp" "mem r = mem sp" "pe r = pe sp" "pb l = pb sp"
    using bounds wf_pieceD [OF assms(1)]
    by (simp_all add: l r b_def piece_defs wf_piece_def)
  show "toString l = takeWhile ?p (toString sp)" "toString r = dropWhile ?p (toString sp)"
    using parts by (simp_all add: l r b_def sp_at_def toString_def)
qed

lemma skip_back_takeWhile:
  assumes "b \<le> e" "e \<le> length m"
  shows "b \<le> skip_back p m b e \<and> skip_back p m b e \<le> e \<and>
         segment b (skip_back p m b e - b) m = rev (dropWhile p (rev (segment b (e - b) m)))"
  using assms
proof (induction p m b e rule: skip_back.induct)
  case (1 p m b e)
  show ?case
  proof (cases "b < e")
    case True
    then have "segment b (e - b) m = segment b (e - 1 - b) m @ [m ! (e - 1)]"
      using segment_append_split [of b "e - 1 - b" 1 m] segment_Suc [of "e - 1" m 0] "1.prems"
      by (simp add: Suc_diff_Suc)
    moreover have "b \<le> e - 1" "e - 1 \<le> length m" using True "1.prems" by simp_all
    ultimately show ?thesis
      using "1.IH" "1.prems" True by (fastforce simp: skip_back.simps [of p m b e])
  next
    case False
    with "1.prems" have "b = e" by simp
    then show ?thesis by (simp add: skip_back.simps [of p m e e])
  qed
qed

lemma trimSpace_wf:
  assumes "wf_piece sp"
  shows "wf_piece (trimSpace sp)" "mem (trimSpace sp) = mem sp"
    "toString (trimSpace sp) = strip isspace (toString sp)"
proof -
  define b where "b = skip_while isspace (mem sp) (pb sp) (pe sp)"
  define e where "e = skip_back isspace (mem sp) b (pe sp)"
  have t: "trimSpace sp = sp\<lparr>pb := b, pe := e\<rparr>"
    by (simp add: trimSpace_def Let_def b_def e_def)
  have b: "b \<le> pe sp" and drop: "segment b (pe sp - b) (mem sp) = dropWhile isspace (toString sp)"
    using skip_while_bounds [of "pb sp" "pe sp" "mem sp" isspace]
      segment_skip_while(2) [of "pb sp" "pe sp" "mem sp" isspace] wf_pieceD [OF assms]
    by (simp_all add: b_def toString_def)
  note tail = skip_back_takeWhile [OF b wf_pieceD(2) [OF assms], of isspace]
  show "wf_piece (trimSpace sp)" "mem (trimSpace sp) = mem sp"
    using tail wf_pieceD [OF assms] by (simp_all add: t e_def wf_piece_def)
  show "toString (trimSpace sp) = strip isspace (toString sp)"
    using tail drop by (simp add: t e_def toString_def strip_def)
qed

subsection \<open>Comparison is the lexicographic order of the bytes\<close>

lemma memcmp_prefix:
  "n \<le> length xs \<Longrightarrow> n \<le> length ys \<Longrightarrow> memcmp (xs @ us) (ys @ vs) n = memcmp xs ys n"
  by (induction xs ys n rule: memcmp.induct) (auto simp: neq_Nil_conv)

lemma memcmp_piece:
  "wf_piece x \<Longrightarrow> wf_piece y \<Longrightarrow> n \<le> sp_size x \<Longrightarrow> n \<le> sp_size y \<Longrightarrow>
   memcmp (drop (pb x) (mem x)) (drop (pb y) (mem y)) n = memcmp (toString x) (toString y) n"
  by (simp add: toString_drop memcmp_prefix)

definition lex_sign :: "string \<Rightarrow> string \<Rightarrow> int" where
  "lex_sign xs ys =
     (let r = memcmp xs ys (min (length xs) (length ys))
      in if r \<noteq> 0 then r
         else if length xs < length ys then -1 else if length ys < length xs then 1 else 0)"

lemma lex_sign_Cons:
  "lex_sign (x # xs) (y # ys) =
     (if x = y then lex_sign xs ys else if (of_char x :: nat) < of_char y then -1 else 1)"
  by (simp add: lex_sign_def Let_def)

lemma lex_sign_order:
  "lex_sign xs ys = (if xs = ys then 0 else if xs < ys then -1 else 1)"
proof (induction xs arbitrary: ys)
  case Nil
  then show ?case by (cases ys) (auto simp: lex_sign_def)
next
  case (Cons x xs)
  show ?case
  proof (cases ys)
    case Nil
    then show ?thesis by (simp add: lex_sign_def)
  next
    case (Cons y zs)
    then show ?thesis
      using Cons.IH [of zs] by (auto simp: lex_sign_Cons less_char_def)
  qed
qed

lemma compare_lex_sign:
  "wf_piece x \<Longrightarrow> wf_piece y \<Longrightarrow> compare x y = lex_sign (toString x) (toString y)"
  by (auto simp: compare_def lex_sign_def Let_def memcmp_piece min_def)

lemma sp_eq_toString: "wf_piece x \<Longrightarrow> wf_piece y \<Longrightarrow> sp_eq x y \<longleftrightarrow> toString x = toString y"
  by (auto simp: sp_eq_def memcmp_piece memcmp_zero)

subsection \<open>Splitting\<close>

fun intercalate :: "char \<Rightarrow> string list \<Rightarrow> string" where
  "intercalate ch [] = []"
| "intercalate ch [x] = x"
| "intercalate ch (x # xs) = x @ ch # intercalate ch xs"

lemma intercalate_snoc: "intercalate ch (xs @ [y]) = (if xs = [] then y else intercalate ch xs @ ch # y)"
  by (induction ch xs rule: intercalate.induct) auto

lemma intercalate_snoc2: "intercalate ch (xs @ [y, z]) = intercalate ch (xs @ [y]) @ ch # z"
  using intercalate_snoc [of ch "xs @ [y]" z] by simp

text \<open>
  The loop invariant: the pieces emitted so far contain no separator and, joined and followed
  by the pending bytes, give back the bytes already scanned.
\<close>

definition split_inv :: "char \<Rightarrow> char list \<Rightarrow> nat \<Rightarrow> nat \<Rightarrow> nat \<Rightarrow> string_piece list \<Rightarrow> bool" where
  "split_inv ch m b p start r \<longleftrightarrow>
     b \<le> start \<and> start \<le> p \<and> (\<forall>x \<in> set r. wf_piece x \<and> mem x = m \<and> ch \<notin> set (toString x)) \<and>
     ch \<notin> set (segment start (p - start) m) \<and>
     intercalate ch (map toString r @ [segment start (p - start) m]) = segment b (p - b) m"

lemma split_inv_step:
  assumes "split_inv ch m b p start r" "p < e" "e \<le> length m"
  shows "m ! p = ch \<Longrightarrow> split_inv ch m b (Suc p) (Suc p) (r @ [sp_range m start p])"
    and "m ! p \<noteq> ch \<Longrightarrow> split_inv ch m b (Suc p) start r"
proof -
  have ext: "segment a (Suc p - a) m = segment a (p - a) m @ [m ! p]" if "a \<le> p" for a
    using segment_append_split [of a "p - a" 1 m] segment_Suc [of p m 0] assms(2,3) that
    by (simp add: Suc_diff_le)
  have b: "b \<le> start" "start \<le> p" using assms(1) by (simp_all add: split_inv_def)
  have piece: "toString (sp_range m start p) = segment start (p - start) m"
    by (simp add: toString_def sp_range_def)
  show "split_inv ch m b (Suc p) (Suc p) (r @ [sp_range m start p])" if "m ! p = ch"
  proof -
    have "wf_piece (sp_range m start p)" using b assms(2,3) by (simp add: wf_piece_def sp_range_def)
    then show ?thesis
      using assms(1) that b ext [of b] piece
      by (auto simp: split_inv_def sp_range_def intercalate_snoc2)
  qed
  show "split_inv ch m b (Suc p) start r" if "m ! p \<noteq> ch"
    using assms(1) that b ext [of b] ext [of start]
    by (auto simp: split_inv_def intercalate_snoc split: if_splits)
qed

lemma split_loop_inv:
  assumes "split_inv ch m b p start r" "p \<le> e" "e \<le> length m"
    and "split_loop ch m p e start r = (start', r')"
  shows "split_inv ch m b e start' r'"
  using assms
proof (induction ch m p e start r rule: split_loop.induct)
  case (1 ch m p e start r)
  show ?case
  proof (cases "p < e")
    case True
    then show ?thesis
      using "1.IH" "1.prems" split_inv_step [OF "1.prems"(1) True "1.prems"(3)]
      by (cases "m ! p = ch") (simp_all add: split_loop.simps [of ch m p e])
  next
    case False
    with "1.prems" have "p = e" by simp
    with "1.prems" show ?thesis by (simp add: split_loop.simps [of ch m e e])
  qed
qed

lemma split_pieces:
  assumes "wf_piece sp"
  shows "intercalate ch (map toString (split sp ch)) = toString sp"
    and "\<forall>x \<in> set (split sp ch). wf_piece x \<and> mem x = mem sp \<and> ch \<notin> set (toString x)"
proof -
  obtain start r where loop: "split_loop ch (mem sp) (pb sp) (pe sp) (pb sp) [] = (start, r)"
    by fastforce
  have "split_inv ch (mem sp) (pb sp) (pb sp) (pb sp) []" by (simp add: split_inv_def)
  from split_loop_inv [OF this wf_pieceD [OF assms] loop]
  have inv: "split_inv ch (mem sp) (pb sp) (pe sp) start r" .
  have last: "toString (sp_range (mem sp) start (pe sp)) = segment start (pe sp - start) (mem sp)"
    by (simp add: toString_def sp_range_def)
  show "intercalate ch (map toString (split sp ch)) = toString sp"
  proof (cases "pe sp = pb sp")
    case True
    have "split_loop ch (mem sp) (pb sp) (pe sp) (pb sp) [] = (pb sp, [])"
      by (simp add: split_loop.simps True)
    then show ?thesis by (simp add: split_def True toString_def)
  next
    case False
    then show ?thesis using inv last by (simp add: split_def loop split_inv_def toString_def)
  qed
  have "wf_piece (sp_range (mem sp) start (pe sp))"
    using inv wf_pieceD [OF assms] by (simp add: wf_piece_def sp_range_def split_inv_def)
  then show "\<forall>x \<in> set (split sp ch). wf_piece x \<and> mem x = mem sp \<and> ch \<notin> set (toString x)"
    using inv last by (auto simp: split_def loop split_inv_def sp_range_def)
qed

subsection \<open>Properties\<close>

text \<open>Tokenising with \<open>eatWord\<close> and then \<open>trimSpace\<close>, as the header parser does: the word is
  the first maximal run of non-space bytes, the rest is what follows it, and trimming strips
  exactly the white space at both ends; every piece stays inside the same array.\<close>

theorem eatWord_trimSpace_tokens:
  assumes "wf_piece sp" "eatWord sp = (w, r)"
  shows "wf_piece w \<and> wf_piece r \<and> wf_piece (trimSpace r) \<and> mem (trimSpace r) = mem sp \<and>
    (\<exists>pre. set pre \<subseteq> Collect isspace \<and> toString sp = pre @ toString w @ toString r) \<and>
    (\<forall>c \<in> set (toString w). \<not> isspace c) \<and>
    (toString r \<noteq> [] \<longrightarrow> isspace (hd (toString r))) \<and>
    (\<exists>u v. set u \<subseteq> Collect isspace \<and> set v \<subseteq> Collect isspace \<and>
       toString r = u @ toString (trimSpace r) @ v) \<and>
    (toString (trimSpace r) \<noteq> [] \<longrightarrow>
       \<not> isspace (hd (toString (trimSpace r))) \<and> \<not> isspace (last (toString (trimSpace r))))"
proof -
  note ew = eatWord_wf [OF assms]
  note ts = trimSpace_wf [OF ew(2)]
  let ?s = "toString sp" and ?r = "toString r"
  have "?s = takeWhile isspace ?s @ toString w @ ?r"
    by (simp add: ew(6,7))
  then have "\<exists>pre. set pre \<subseteq> Collect isspace \<and> ?s = pre @ toString w @ ?r"
    by (intro exI [of _ "takeWhile isspace ?s"]) (auto dest: set_takeWhileD)
  moreover have "\<forall>c \<in> set (toString w). \<not> isspace c"
    by (auto simp: ew(6) dest: set_takeWhileD)
  moreover have "?r \<noteq> [] \<longrightarrow> isspace (hd ?r)"
    using hd_dropWhile [of "\<lambda>c. \<not> isspace c" "dropWhile isspace ?s"] by (simp add: ew(7))
  moreover have "mem (trimSpace r) = mem sp" using ts(2) ew(4) by simp
  ultimately show ?thesis
    using ew(1,2) ts(1) strip_split [of isspace ?r] strip_ends [of isspace ?r]
    unfolding ts(3) by blast
qed

theorem eatWord_trimSpace_tokens_witness:
  "toString (fst (eatWord (sp_of_string '' Host:  a b ''))) = ''Host:'' \<and>
   toString (trimSpace (snd (eatWord (sp_of_string '' Host:  a b '')))) = ''a b'' \<and>
   wf_piece (trimSpace (snd (eatWord (sp_of_string '' Host:  a b ''))))"
proof -
  obtain w r where wr: "eatWord (sp_of_string '' Host:  a b '') = (w, r)" by fastforce
  note t = eatWord_trimSpace_tokens [OF sp_of_string_wf(1) wr]
  have "toString w = ''Host:''" "toString (trimSpace r) = ''a b''"
    using eatWord_wf [OF sp_of_string_wf(1) wr] trimSpace_wf [of r] by (simp_all add: isspace_def strip_def)
  with t wr show ?thesis by simp
qed

text \<open>\<open>split\<close> cuts a piece at every separator and loses nothing: joined again by the
  separator its parts give the original bytes, no part holds the separator, and every part is
  a view of the same array.\<close>

theorem split_joins_back:
  assumes "wf_piece sp"
  shows "intercalate ch (map toString (split sp ch)) = toString sp \<and>
    (\<forall>x \<in> set (split sp ch). wf_piece x \<and> mem x = mem sp \<and> ch \<notin> set (toString x))"
  using split_pieces [OF assms] by blast

theorem split_joins_back_witness:
  "intercalate (CHR '','') (map toString (split (sp_of_string ''a,b,'') (CHR '',''))) = ''a,b,'' \<and>
   length (split (sp_of_string ''a,b,'') (CHR '','')) = 3"
proof -
  have "length (split (sp_of_string ''a,b,'') (CHR '','')) = 3"
    by (simp add: split_def sp_of_string_def split_loop.simps numeral_3_eq_3)
  then show ?thesis using split_joins_back [OF sp_of_string_wf(1), of "CHR '',''" "''a,b,''"] by simp
qed

text \<open>\<open>compare\<close> orders pieces as their bytes are ordered lexicographically (bytes taken as
  unsigned), with 0 exactly for equal bytes; the comparison operators agree with it.\<close>

theorem compare_lexicographic:
  assumes "wf_piece x" "wf_piece y"
  shows "(compare x y = 0 \<longleftrightarrow> toString x = toString y) \<and>
    (sp_less x y \<longleftrightarrow> toString x < toString y) \<and> (sp_eq x y \<longleftrightarrow> compare x y = 0) \<and>
    compare y x = - compare x y"
  using assms by (auto simp: compare_lex_sign lex_sign_order sp_less_def sp_eq_toString)

theorem compare_lexicographic_witness:
  "sp_less (sp_of_string ''GET'') (sp_of_string ''GETX'') \<and>
   \<not> sp_eq (sp_of_string ''GET'') (sp_of_string ''PUT'')"
  using compare_lexicographic [OF sp_of_string_wf(1) [of "''GET''"] sp_of_string_wf(1) [of "''GETX''"]]
    compare_lexicographic [OF sp_of_string_wf(1) [of "''GET''"] sp_of_string_wf(1) [of "''PUT''"]]
  by simp

end
