(* ===== verification/Tcp_Buffer.thy ===== *)
theory Tcp_Buffer
  imports String_Piece
begin

text \<open>
  \<open>Net/include/TcpBuffer.h\<close> and \<open>Net/src/TcpBuffer.cpp\<close>: the byte buffer of a connection, a
  vector with a reserved prefix, a read index and a write index. Pointers that the class hands
  out are offsets into the vector. The second half states the contract of a bounded byte queue
  as a locale and interprets it on these operations.
\<close>

named_theorems tb_defs \<open>definitions of the buffer operations\<close>

record tcp_buffer =
  buffer :: "char list"
  prepend_size :: nat
  read_index :: nat
  write_index :: nat

subsection \<open>Construction, sizes, pointers\<close>

definition tb_new :: "nat \<Rightarrow> nat \<Rightarrow> tcp_buffer outcome" where
  "tb_new initial_size prepend_sz =
     obind (vresize (uadd prepend_sz initial_size) [])
       (\<lambda>v. Inr \<lparr>buffer = v, prepend_size = prepend_sz,
                 read_index = prepend_sz, write_index = prepend_sz\<rparr>)"

definition tb_reset :: "tcp_buffer \<Rightarrow> tcp_buffer" where
  "tb_reset b = b\<lparr>read_index := 8, write_index := 8\<rparr>"

definition tb_clear :: "tcp_buffer \<Rightarrow> tcp_buffer" where
  "tb_clear b = b\<lparr>read_index := 8, write_index := 8\<rparr>"

definition tb_swap :: "tcp_buffer \<Rightarrow> tcp_buffer \<Rightarrow> tcp_buffer \<times> tcp_buffer" where
  "tb_swap a b =
     (a\<lparr>buffer := buffer b, read_index := read_index b, write_index := write_index b\<rparr>,
      b\<lparr>buffer := buffer a, read_index := read_index a, write_index := write_index a\<rparr>)"

definition readable_size :: "tcp_buffer \<Rightarrow> nat" where
  "readable_size b = usub (write_index b) (read_index b)"

definition writable_size :: "tcp_buffer \<Rightarrow> nat" where
  "writable_size b = usub (length (buffer b)) (write_index b)"

definition prependable_size :: "tcp_buffer \<Rightarrow> nat" where
  "prependable_size b = read_index b"

definition tb_peek :: "tcp_buffer \<Rightarrow> nat" where
  "tb_peek b = read_index b"

definition tb_readView :: "tcp_buffer \<Rightarrow> string_piece" where
  "tb_readView b = sp_at (buffer b) (tb_peek b) (uadd (readable_size b) 1)"

definition tb_ModifyData :: "tcp_buffer \<Rightarrow> nat" where
  "tb_ModifyData b = read_index b"

definition tb_BeginWrite :: "tcp_buffer \<Rightarrow> nat" where
  "tb_BeginWrite b = write_index b"

subsection \<open>Index management\<close>

definition check_index_validity :: "tcp_buffer \<Rightarrow> tcp_buffer outcome" where
  "check_index_validity b =
     assertC (read_index b \<ge> prepend_size b) (assertC (write_index b \<ge> read_index b) (Inr b))"

definition move_write_index :: "nat \<Rightarrow> tcp_buffer \<Rightarrow> tcp_buffer outcome" where
  "move_write_index sz b =
     assertC (sz \<le> writable_size b) (Inr (b\<lparr>write_index := uadd (write_index b) sz\<rparr>))"

definition move_read_index :: "nat \<Rightarrow> tcp_buffer \<Rightarrow> tcp_buffer outcome" where
  "move_read_index sz b =
     assertC (sz \<le> readable_size b)
       (if sz < readable_size b
        then check_index_validity (b\<lparr>read_index := uadd (read_index b) sz\<rparr>)
        else obind (check_index_validity b) (\<lambda>b.
             check_index_validity
               (b\<lparr>read_index := prepend_size b, write_index := prepend_size b\<rparr>)))"

text \<open>\<open>std::copy\<close> of the readable bytes down to the end of the reserved prefix.\<close>

definition reuse_prependable_space :: "tcp_buffer \<Rightarrow> tcp_buffer outcome" where
  "reuse_prependable_space b =
     (let readable = readable_size b in
      obind (load (read_index b) (usub (write_index b) (read_index b)) (buffer b)) (\<lambda>bytes.
      obind (store (prepend_size b) bytes (buffer b)) (\<lambda>v.
      check_index_validity
        (b\<lparr>buffer := v, read_index := prepend_size b,
           write_index := uadd (prepend_size b) readable\<rparr>))))"

definition expend :: "nat \<Rightarrow> tcp_buffer \<Rightarrow> tcp_buffer outcome" where
  "expend sz b =
     obind (check_index_validity b) (\<lambda>b.
     if uadd (writable_size b) (prependable_size b) > uadd sz (prepend_size b)
     then reuse_prependable_space b
     else obind (reuse_prependable_space b) (\<lambda>b.
          obind (vresize (uadd (write_index b) sz) (buffer b)) (\<lambda>v.
          check_index_validity (b\<lparr>buffer := v\<rparr>))))"

definition ensure_appendable :: "nat \<Rightarrow> tcp_buffer \<Rightarrow> tcp_buffer outcome" where
  "ensure_appendable sz b =
     obind (if writable_size b < sz then expend sz b else Inr b) (\<lambda>b.
     assertC (writable_size b \<ge> sz) (check_index_validity b))"

definition ensureWritableBytes :: "nat \<Rightarrow> tcp_buffer \<Rightarrow> tcp_buffer outcome" where
  "ensureWritableBytes len b =
     obind (if writable_size b < len then expend len b else Inr b) (\<lambda>b.
     assertC (writable_size b \<ge> len) (check_index_validity b))"

definition hasWritten :: "nat \<Rightarrow> tcp_buffer \<Rightarrow> tcp_buffer outcome" where
  "hasWritten len b =
     assertC (len \<le> writable_size b)
       (check_index_validity (b\<lparr>write_index := uadd (write_index b) len\<rparr>))"

definition unwrite :: "nat \<Rightarrow> tcp_buffer \<Rightarrow> tcp_buffer outcome" where
  "unwrite len b =
     assertC (len \<le> readable_size b)
       (check_index_validity (b\<lparr>write_index := usub (write_index b) len\<rparr>))"

subsection \<open>Appending, reading, consuming\<close>

definition appendImp :: "char list \<Rightarrow> tcp_buffer \<Rightarrow> tcp_buffer outcome" where
  "appendImp data b =
     obind (ensure_appendable (length data) b) (\<lambda>b.
     obind (store (write_index b) data (buffer b)) (\<lambda>v.
     move_write_index (length data) (b\<lparr>buffer := v\<rparr>)))"

definition tb_append :: "char list \<Rightarrow> tcp_buffer \<Rightarrow> tcp_buffer outcome" where
  "tb_append data b = appendImp data b"

definition tb_FluentAppend :: "char list \<Rightarrow> tcp_buffer \<Rightarrow> tcp_buffer outcome" where
  "tb_FluentAppend data b = appendImp data b"

text \<open>The overloads without a length refuse to run; the template takes a view or the object
  representation of a value.\<close>

definition tb_append_cstr :: "char list \<Rightarrow> tcp_buffer \<Rightarrow> tcp_buffer outcome" where
  "tb_append_cstr data b = assertC False (Inr b)"

definition tb_FluentAppend_cstr :: "char list \<Rightarrow> tcp_buffer \<Rightarrow> tcp_buffer outcome" where
  "tb_FluentAppend_cstr data b = assertC False (Inr b)"

datatype append_value = Piece string_piece | Object "char list"

definition tb_append_value :: "append_value \<Rightarrow> tcp_buffer \<Rightarrow> tcp_buffer outcome" where
  "tb_append_value v b =
     (case v of Piece sp \<Rightarrow> obind (load (pb sp) (sp_size sp) (mem sp)) (\<lambda>d. appendImp d b)
              | Object bytes \<Rightarrow> appendImp bytes b)"

definition tb_FluentAppend_value :: "append_value \<Rightarrow> tcp_buffer \<Rightarrow> tcp_buffer outcome" where
  "tb_FluentAppend_value v b = tb_append_value v b"

text \<open>
  \<open>readv\<close> is the kernel's: given the lengths of the buffers it returns an error or the bytes it
  has placed, filling the first buffer before the second. The first buffer is the writable tail
  of the vector, the second a local array of 65536 bytes, passed only when the tail is shorter.
\<close>

definition extrabuf_size :: nat where "extrabuf_size = 65536"

definition read_iov :: "tcp_buffer \<Rightarrow> nat list" where
  "read_iov b = (if writable_size b < extrabuf_size then [writable_size b, extrabuf_size]
                 else [writable_size b])"

definition appendFormFd ::
  "(nat list \<Rightarrow> errno + char list) \<Rightarrow> tcp_buffer \<Rightarrow> (tcp_buffer \<times> (errno + nat)) outcome" where
  "appendFormFd readv b =
     (let writable = writable_size b in
      case readv (read_iov b) of
        Inl e \<Rightarrow> Inr (b, Inl e)
      | Inr d \<Rightarrow>
          obind (store (write_index b) (take writable d) (buffer b)) (\<lambda>v.
          let b = b\<lparr>buffer := v\<rparr>; n = length d in
          if n > 0 then
            (if n \<le> writable_size b
             then obind (move_write_index n b) (\<lambda>b. Inr (b, Inr n))
             else obind (tb_append (drop writable d) (b\<lparr>write_index := length (buffer b)\<rparr>))
                    (\<lambda>b. Inr (b, Inr n)))
          else Inr (b, Inr 0)))"

definition consume :: "nat \<Rightarrow> tcp_buffer \<Rightarrow> tcp_buffer outcome" where
  "consume sz b = move_read_index sz b"

definition retrieve :: "nat \<Rightarrow> tcp_buffer \<Rightarrow> (nat option \<times> tcp_buffer) outcome" where
  "retrieve sz b =
     (if sz \<le> readable_size b
      then let r = read_index b in obind (move_read_index sz b) (\<lambda>b. Inr (Some r, b))
      else Inr (None, b))"

definition retrieveAll :: "tcp_buffer \<Rightarrow> (nat option \<times> tcp_buffer) outcome" where
  "retrieveAll b = (let sz = readable_size b in retrieve sz b)"

text \<open>\<open>std::string(char* )\<close>: the bytes up to the next NUL.\<close>

definition cstring_at :: "nat \<Rightarrow> char list \<Rightarrow> string outcome" where
  "cstring_at off v =
     (let s = drop off v; t = takeWhile (\<lambda>c. c \<noteq> NUL) s
      in if length t < length s then Inr t else Inl Out_of_bounds)"

definition retrieveAllToString :: "tcp_buffer \<Rightarrow> (string \<times> tcp_buffer) outcome" where
  "retrieveAllToString b =
     obind (retrieveAll b) (\<lambda>(p, b).
     case p of None \<Rightarrow> Inl Null_pointer
             | Some r \<Rightarrow> obind (cstring_at r (buffer b)) (\<lambda>s. Inr (s, b)))"

definition shrink :: "nat \<Rightarrow> tcp_buffer \<Rightarrow> tcp_buffer outcome" where
  "shrink reserve b =
     obind (vresize (uadd (uadd (readable_size b) reserve) (prepend_size b)) (buffer b))
       (\<lambda>v. Inr (b\<lparr>buffer := v\<rparr>))"

definition tb_prepend :: "char list \<Rightarrow> tcp_buffer \<Rightarrow> tcp_buffer outcome" where
  "tb_prepend data b =
     assertC (length data \<le> prependable_size b)
       (let r = usub (read_index b) (length data)
        in obind (store r data (buffer b)) (\<lambda>v. Inr (b\<lparr>buffer := v, read_index := r\<rparr>)))"

subsection \<open>Searching\<close>

text \<open>\<open>std::search\<close> on \<open>[i, e)\<close>: the first position of the pattern, or \<open>e\<close>.\<close>

function std_search :: "char list \<Rightarrow> char list \<Rightarrow> nat \<Rightarrow> nat \<Rightarrow> nat" where
  "std_search pat m i e =
     (if i + length pat \<le> e
      then (if segment i (length pat) m = pat then i else std_search pat m (Suc i) e)
      else e)"
  by pat_completeness auto
termination by (relation "measure (\<lambda>(pat, m, i, e). Suc e - i)") auto

declare std_search.simps [simp del]

definition findBorder :: "char list \<Rightarrow> tcp_buffer \<Rightarrow> nat" where
  "findBorder border b = std_search border (buffer b) (read_index b) (write_index b)"

definition findBorder_cstr :: "char list \<Rightarrow> tcp_buffer \<Rightarrow> nat" where
  "findBorder_cstr border b =
     std_search (take (strlen border) border) (buffer b) (read_index b) (write_index b)"

definition findBorder_len :: "char list \<Rightarrow> tcp_buffer \<Rightarrow> nat \<times> nat" where
  "findBorder_len border b = (let last = findBorder border b in (last, last - read_index b))"

lemmas [tb_defs] =
  readable_size_def writable_size_def prependable_size_def tb_peek_def check_index_validity_def
  move_write_index_def move_read_index_def consume_def hasWritten_def unwrite_def

subsection \<open>The invariant and the bytes held\<close>

definition tb_inv :: "tcp_buffer \<Rightarrow> bool" where
  "tb_inv b \<longleftrightarrow> prepend_size b \<le> read_index b \<and> read_index b \<le> write_index b \<and>
     write_index b \<le> length (buffer b) \<and> length (buffer b) \<le> vector_max"

definition content :: "tcp_buffer \<Rightarrow> char list" where
  "content b = segment (read_index b) (write_index b - read_index b) (buffer b)"

text \<open>The number of bytes a buffer can hold before its vector reaches the largest size.\<close>

definition tb_cap :: "tcp_buffer \<Rightarrow> nat" where
  "tb_cap b = vector_max - prepend_size b"

lemma tb_invD:
  assumes "tb_inv b"
  shows "prepend_size b \<le> read_index b" "read_index b \<le> write_index b"
    "write_index b \<le> length (buffer b)" "length (buffer b) \<le> vector_max"
  using assms by (simp_all add: tb_inv_def)

lemma tb_sizes [simp]:
  assumes "tb_inv b"
  shows "readable_size b = write_index b - read_index b"
    "writable_size b = length (buffer b) - write_index b"
    "length (content b) = write_index b - read_index b"
  using assms by (auto simp: tb_defs content_def tb_inv_def)

lemma check_ok [simp]: "tb_inv b \<Longrightarrow> check_index_validity b = Inr b"
  by (simp add: check_index_validity_def tb_inv_def)

lemma check_eq_Inr [outcome_iff]:
  "check_index_validity b = Inr b' \<longleftrightarrow>
     b' = b \<and> prepend_size b \<le> read_index b \<and> read_index b \<le> write_index b"
  by (auto simp: check_index_validity_def assertC_def)

lemma reuse_ok:
  assumes "tb_inv b"
  shows "\<exists>b'. reuse_prependable_space b = Inr b' \<and> tb_inv b' \<and> content b' = content b \<and>
     prepend_size b' = prepend_size b \<and> length (buffer b') = length (buffer b) \<and>
     read_index b' = prepend_size b \<and>
     write_index b' = prepend_size b + (write_index b - read_index b)"
proof -
  note i = tb_invD [OF assms]
  let ?n = "write_index b - read_index b" and ?p = "prepend_size b"
  let ?v = "overwrite ?p (content b) (buffer b)"
  let ?b = "b\<lparr>buffer := ?v, read_index := ?p, write_index := ?p + ?n\<rparr>"
  have len: "length (content b) = ?n" using assms by simp
  have sum: "uadd ?p ?n = ?p + ?n" using i by (intro uadd_vector) auto
  have fits: "?p + ?n \<le> length (buffer b)" using i by linarith
  then have lv: "length ?v = length (buffer b)" using len by simp
  have inv: "tb_inv ?b" using i fits lv by (simp add: tb_inv_def)
  have "content ?b = content b"
    using segment_overwrite_same [of ?p "content b" "buffer b"] fits len by (simp add: content_def [of ?b])
  moreover have "reuse_prependable_space b = check_index_validity ?b"
    using i fits len assms sum by (simp add: reuse_prependable_space_def content_def [of b] Let_def)
  ultimately show ?thesis using inv lv by auto
qed

text \<open>
  \<open>expend\<close> makes room: it moves the bytes down, and grows the vector only when moving them is
  not enough.
\<close>

lemma expend_ok:
  assumes "tb_inv b" "length (content b) + n \<le> tb_cap b"
    and "length (buffer b) - write_index b < n"
  shows "\<exists>b'. expend n b = Inr b' \<and> tb_inv b' \<and> content b' = content b \<and>
     prepend_size b' = prepend_size b \<and> n \<le> writable_size b' \<and>
     length (buffer b') = max (length (buffer b)) (prepend_size b + length (content b) + n)"
proof -
  note i = tb_invD [OF assms(1)]
  let ?slack = "length (buffer b) - write_index b + read_index b"
  have len: "length (content b) = write_index b - read_index b" using assms(1) by simp
  have n: "n \<le> vector_max" "prepend_size b + (write_index b - read_index b) + n \<le> vector_max"
    using assms(2) len i by (auto simp: tb_cap_def)
  have sums: "uadd (writable_size b) (prependable_size b) = ?slack"
    "uadd n (prepend_size b) = n + prepend_size b"
    using i n(1) assms(1) by (simp_all add: prependable_size_def uadd_vector)
  obtain b1 where b1: "reuse_prependable_space b = Inr b1" "tb_inv b1" "content b1 = content b"
    "prepend_size b1 = prepend_size b" "length (buffer b1) = length (buffer b)"
    "read_index b1 = prepend_size b" "write_index b1 = prepend_size b + (write_index b - read_index b)"
    using reuse_ok [OF assms(1)] by blast
  show ?thesis
  proof (cases "?slack > n + prepend_size b")
    case True
    then have "expend n b = Inr b1" using sums assms(1) b1(1) by (simp add: expend_def)
    moreover have "n \<le> writable_size b1" "prepend_size b + length (content b) + n \<le> length (buffer b)"
      using True b1 i len by simp_all
    ultimately show ?thesis using b1 by (simp add: max_absorb1)
  next
    case False
    let ?m = "write_index b1 + n"
    let ?b = "b1\<lparr>buffer := take ?m (buffer b1) @ replicate (?m - length (buffer b1)) NUL\<rparr>"
    have m: "?m \<le> vector_max" "uadd (write_index b1) n = ?m" "length (buffer b1) \<le> ?m"
      using n b1 False i by (simp_all add: uadd_vector)
    then have inv: "tb_inv ?b" using b1(2) by (simp add: tb_inv_def)
    have "expend n b = Inr ?b"
      using False sums assms(1) b1(1) m inv by (simp add: expend_def vresize_def)
    moreover have "content ?b = content b"
      using b1(2,3) m(3) tb_invD [OF b1(2)]
      by (simp add: content_def segment_append_left)
    moreover have "length (buffer ?b) = ?m" using m(3) by simp
    ultimately show ?thesis using inv b1 m(3) len by (auto simp: max_absorb2)
  qed
qed

lemma ensure_ok:
  assumes "tb_inv b" "length (content b) + n \<le> tb_cap b"
  shows "\<exists>b'. ensure_appendable n b = Inr b' \<and> ensureWritableBytes n b = Inr b' \<and> tb_inv b' \<and>
     content b' = content b \<and> prepend_size b' = prepend_size b \<and> n \<le> writable_size b'"
proof (cases "writable_size b < n")
  case True
  then have "length (buffer b) - write_index b < n" using assms(1) by simp
  from expend_ok [OF assms this] True show ?thesis
    by (fastforce simp: ensure_appendable_def ensureWritableBytes_def)
next
  case False
  then show ?thesis using assms(1)
    by (intro exI [of _ b]) (simp add: ensure_appendable_def ensureWritableBytes_def)
qed

lemma append_ok:
  assumes "tb_inv b" "length (content b) + length d \<le> tb_cap b"
  shows "\<exists>b'. appendImp d b = Inr b' \<and> tb_inv b' \<and> content b' = content b @ d \<and>
     prepend_size b' = prepend_size b"
proof -
  obtain c where c: "ensure_appendable (length d) b = Inr c" "tb_inv c" "content c = content b"
    "prepend_size c = prepend_size b" "length d \<le> writable_size c"
    using ensure_ok [OF assms] by blast
  note i = tb_invD [OF c(2)]
  let ?w = "write_index c + length d"
  let ?b = "c\<lparr>buffer := overwrite (write_index c) d (buffer c), write_index := ?w\<rparr>"
  have w: "?w \<le> length (buffer c)" using c(2,5) i by simp
  then have "uadd (write_index c) (length d) = ?w" using i by (intro uadd_vector) auto
  then have "appendImp d b = Inr ?b"
    using c(1,2,5) w i
    by (simp add: appendImp_def move_write_index_def writable_size_def)
  moreover have "content ?b = content c @ d"
    using segment_overwrite_join [of "read_index c" "write_index c" d "buffer c"] i w
    by (simp add: content_def)
  moreover have "tb_inv ?b" using i w by (simp add: tb_inv_def)
  ultimately show ?thesis using c by simp
qed

lemma consume_ok:
  assumes "tb_inv b" "n \<le> length (content b)"
  shows "\<exists>b'. consume n b = Inr b' \<and> tb_inv b' \<and> content b' = drop n (content b) \<and>
     prepend_size b' = prepend_size b"
proof -
  note i = tb_invD [OF assms(1)]
  have n: "n \<le> write_index b - read_index b" using assms by simp
  show ?thesis
  proof (cases "n < write_index b - read_index b")
    case True
    let ?b = "b\<lparr>read_index := read_index b + n\<rparr>"
    have "uadd (read_index b) n = read_index b + n" using i n by (intro uadd_vector) auto
    moreover have "tb_inv ?b" using i True by (simp add: tb_inv_def)
    moreover have "content ?b = drop n (content b)"
      by (simp add: content_def drop_segment add.commute)
    ultimately show ?thesis
      using True assms(1) n by (auto simp: consume_def move_read_index_def)
  next
    case False
    let ?b = "b\<lparr>read_index := prepend_size b, write_index := prepend_size b\<rparr>"
    have "tb_inv ?b" using i by (simp add: tb_inv_def)
    moreover have "content ?b = drop n (content b)" using False assms(1) by (simp add: content_def)
    ultimately show ?thesis
      using False assms(1) n by (auto simp: consume_def move_read_index_def)
  qed
qed

lemma consume_too_much: "tb_inv b \<Longrightarrow> length (content b) < n \<Longrightarrow> consume n b = Inl Assertion"
  by (simp add: consume_def move_read_index_def)

subsection \<open>The contract: a bounded queue of bytes\<close>

text \<open>
  Sequences of appends and consumes, on any buffer and on the list of bytes that specifies it.
  The specification fails on a request for more bytes than are held, as the assertion does.
\<close>

datatype fifo_op = Put "char list" | Take nat

definition fifo_step ::
  "(char list \<Rightarrow> 'b \<Rightarrow> 'b outcome) \<Rightarrow> (nat \<Rightarrow> 'b \<Rightarrow> 'b outcome) \<Rightarrow> fifo_op \<Rightarrow> 'b \<Rightarrow> 'b outcome" where
  "fifo_step put take_n oper b = (case oper of Put d \<Rightarrow> put d b | Take n \<Rightarrow> take_n n b)"

definition abs_step :: "fifo_op \<Rightarrow> char list \<Rightarrow> char list outcome" where
  "abs_step oper q = (case oper of Put d \<Rightarrow> Inr (q @ d)
     | Take n \<Rightarrow> assertC (n \<le> length q) (Inr (drop n q)))"

definition fifo_run ::
  "(char list \<Rightarrow> 'b \<Rightarrow> 'b outcome) \<Rightarrow> (nat \<Rightarrow> 'b \<Rightarrow> 'b outcome) \<Rightarrow>
   fifo_op list \<Rightarrow> 'b \<Rightarrow> 'b outcome" where
  "fifo_run put take_n = ofold (fifo_step put take_n)"

definition abs_run :: "fifo_op list \<Rightarrow> char list \<Rightarrow> char list outcome" where
  "abs_run = ofold abs_step"

fun bytes_put :: "fifo_op list \<Rightarrow> nat" where
  "bytes_put [] = 0"
| "bytes_put (Put d # xs) = length d + bytes_put xs"
| "bytes_put (Take n # xs) = bytes_put xs"

locale byte_fifo =
  fixes inv :: "'b \<Rightarrow> bool" and bytes :: "'b \<Rightarrow> char list" and cap :: "'b \<Rightarrow> nat"
    and put :: "char list \<Rightarrow> 'b \<Rightarrow> 'b outcome" and take_n :: "nat \<Rightarrow> 'b \<Rightarrow> 'b outcome"
  assumes put_law: "inv b \<Longrightarrow> length (bytes b) + length d \<le> cap b \<Longrightarrow>
      \<exists>b'. put d b = Inr b' \<and> inv b' \<and> bytes b' = bytes b @ d \<and> cap b' = cap b"
    and take_law: "inv b \<Longrightarrow> n \<le> length (bytes b) \<Longrightarrow>
      \<exists>b'. take_n n b = Inr b' \<and> inv b' \<and> bytes b' = drop n (bytes b) \<and> cap b' = cap b"
    and take_fault: "inv b \<Longrightarrow> length (bytes b) < n \<Longrightarrow> take_n n b = Inl Assertion"
begin

lemma step_refines:
  assumes "inv b" "length (bytes b) + bytes_put (x # xs) \<le> cap b"
  shows "case abs_step x (bytes b) of
      Inl e \<Rightarrow> fifo_step put take_n x b = Inl e
    | Inr q \<Rightarrow> \<exists>b'. fifo_step put take_n x b = Inr b' \<and> inv b' \<and> bytes b' = q \<and> cap b' = cap b \<and>
        length q + bytes_put xs \<le> cap b"
proof (cases x)
  case (Put d)
  then show ?thesis using assms put_law [of b d] by (auto simp: fifo_step_def abs_step_def)
next
  case (Take n)
  then show ?thesis
    using assms take_law [of b n] take_fault [of b n]
    by (cases "n \<le> length (bytes b)") (auto simp: fifo_step_def abs_step_def)
qed

lemma run_refines:
  "inv b \<Longrightarrow> length (bytes b) + bytes_put xs \<le> cap b \<Longrightarrow>
   case abs_run xs (bytes b) of
     Inl e \<Rightarrow> fifo_run put take_n xs b = Inl e
   | Inr q \<Rightarrow> \<exists>b'. fifo_run put take_n xs b = Inr b' \<and> inv b' \<and> bytes b' = q"
proof (induction xs arbitrary: b)
  case Nil
  then show ?case by (simp add: abs_run_def fifo_run_def)
next
  case (Cons x xs)
  show ?case
  proof (cases "abs_step x (bytes b)")
    case (Inl e)
    then show ?thesis using step_refines [OF Cons.prems] by (simp add: abs_run_def fifo_run_def)
  next
    case (Inr q)
    then obtain b' where b': "fifo_step put take_n x b = Inr b'" "inv b'" "bytes b' = q"
      "cap b' = cap b" "length q + bytes_put xs \<le> cap b"
      using step_refines [OF Cons.prems] by auto
    then show ?thesis
      using Cons.IH [of b'] Inr by (auto simp: abs_run_def fifo_run_def split: sum.splits)
  qed
qed

end

interpretation tbuf: byte_fifo tb_inv content tb_cap tb_append consume
proof unfold_locales
  fix b and d :: "char list" assume a: "tb_inv b" "length (content b) + length d \<le> tb_cap b"
  show "\<exists>b'. tb_append d b = Inr b' \<and> tb_inv b' \<and> content b' = content b @ d \<and> tb_cap b' = tb_cap b"
    using append_ok [OF a] by (auto simp: tb_append_def tb_cap_def)
next
  fix b n assume a: "tb_inv b" "n \<le> length (content b)"
  show "\<exists>b'. consume n b = Inr b' \<and> tb_inv b' \<and> content b' = drop n (content b) \<and> tb_cap b' = tb_cap b"
    using consume_ok [OF a] by (auto simp: tb_cap_def)
qed (rule consume_too_much)

subsection \<open>Construction, socket reads, searching\<close>

lemma tb_new_ok:
  assumes "initial + prep \<le> vector_max"
  shows "\<exists>b. tb_new initial prep = Inr b \<and> tb_inv b \<and> content b = [] \<and> prepend_size b = prep \<and>
     read_index b = prep"
proof -
  have "uadd prep initial = prep + initial" using assms by (intro uadd_vector) auto
  then show ?thesis
    using assms by (simp add: tb_new_def vresize_def tb_inv_def content_def)
qed

lemma appendFormFd_ok:
  assumes inv: "tb_inv b" and rd: "readv (read_iov b) = Inr d"
    and len: "length d \<le> sum_list (read_iov b)" and cap: "length (content b) + length d \<le> tb_cap b"
  shows "\<exists>b'. appendFormFd readv b = Inr (b', Inr (length d)) \<and> tb_inv b' \<and>
    content b' = content b @ d \<and> prepend_size b' = prepend_size b"
proof -
  note i = tb_invD [OF inv]
  let ?w = "length (buffer b) - write_index b"
  let ?v = "overwrite (write_index b) (take ?w d) (buffer b)"
  have st: "store (write_index b) (take ?w d) (buffer b) = Inr ?v" "length ?v = length (buffer b)"
    using i by simp_all
  have join: "segment (read_index b) (write_index b - read_index b + length (take ?w d)) ?v =
      content b @ take ?w d"
    using segment_overwrite_join [of "read_index b" "write_index b" "take ?w d" "buffer b"] i
    by (simp add: content_def)
  show ?thesis
  proof (cases "length d \<le> ?w")
    case True
    let ?b = "b\<lparr>buffer := ?v, write_index := write_index b + length d\<rparr>"
    have sum: "uadd (write_index b) (length d) = write_index b + length d"
      using True i by (intro uadd_vector) auto
    have "tb_inv ?b" using i True by (simp add: tb_inv_def)
    moreover have "content ?b = content b @ d" using join True i by (simp add: content_def)
    moreover have "appendFormFd readv b = Inr (?b, Inr (length d))"
    proof (cases "d = []")
      case True
      then show ?thesis using rd inv st i by (simp add: appendFormFd_def Let_def overwrite_def)
    next
      case False
      then show ?thesis
        using rd inv st i sum True
        by (simp add: appendFormFd_def Let_def move_write_index_def writable_size_def)
    qed
    ultimately show ?thesis by simp
  next
    case False
    let ?b = "b\<lparr>buffer := ?v, write_index := length (buffer b)\<rparr>"
    have bi: "tb_inv ?b" using i by (simp add: tb_inv_def)
    have bc: "content ?b = content b @ take ?w d"
      using join False i by (simp add: content_def)
    have "length (content ?b) + length (drop ?w d) \<le> tb_cap ?b"
      using cap False by (simp add: bc tb_cap_def)
    from append_ok [OF bi this] obtain b' where
      "tb_append (drop ?w d) ?b = Inr b'" "tb_inv b'" "content b' = content ?b @ drop ?w d"
      "prepend_size b' = prepend_size b"
      by (auto simp: tb_append_def)
    moreover have "appendFormFd readv b = obind (tb_append (drop ?w d) ?b) (\<lambda>b. Inr (b, Inr (length d)))"
      using rd inv st i False
      by (auto simp: appendFormFd_def Let_def writable_size_def)
    ultimately show ?thesis by (simp add: bc)
  qed
qed

lemma std_search_spec:
  assumes "i \<le> e" "e \<le> length m"
  shows "i \<le> std_search pat m i e \<and> std_search pat m i e \<le> e \<and>
    (\<forall>j. i \<le> j \<longrightarrow> j < std_search pat m i e \<longrightarrow> j + length pat \<le> e \<longrightarrow> segment j (length pat) m \<noteq> pat) \<and>
    (std_search pat m i e < e \<longrightarrow> segment (std_search pat m i e) (length pat) m = pat \<and>
       std_search pat m i e + length pat \<le> e)"
  using assms
proof (induction pat m i e rule: std_search.induct)
  case (1 pat m i e)
  show ?case
  proof (cases "i + length pat \<le> e \<and> segment i (length pat) m \<noteq> pat")
    case True
    then have "pat \<noteq> []" by auto
    then have "Suc i \<le> e" using True by (cases pat) auto
    with True "1.IH" "1.prems" have *: "Suc i \<le> std_search pat m (Suc i) e \<and>
      std_search pat m (Suc i) e \<le> e \<and>
      (\<forall>j. Suc i \<le> j \<longrightarrow> j < std_search pat m (Suc i) e \<longrightarrow> j + length pat \<le> e \<longrightarrow>
         segment j (length pat) m \<noteq> pat) \<and>
      (std_search pat m (Suc i) e < e \<longrightarrow> segment (std_search pat m (Suc i) e) (length pat) m = pat \<and>
         std_search pat m (Suc i) e + length pat \<le> e)"
      by blast
    have "std_search pat m i e = std_search pat m (Suc i) e"
      using True by (simp add: std_search.simps [of pat m i e])
    with * True show ?thesis by (metis Suc_leI Suc_leD le_neq_implies_less)
  next
    case False
    with "1.prems" show ?thesis by (auto simp: std_search.simps [of pat m i e])
  qed
qed

subsection \<open>Operations that leave the invariant\<close>

lemma shrink_result:
  assumes "tb_inv b" "length (content b) + reserve \<le> tb_cap b"
  shows "\<exists>b'. shrink reserve b = Inr b' \<and>
    length (buffer b') = length (content b) + reserve + prepend_size b \<and>
    read_index b' = read_index b \<and> write_index b' = write_index b \<and> prepend_size b' = prepend_size b"
proof -
  note i = tb_invD [OF assms(1)]
  have len: "length (content b) = write_index b - read_index b" using assms(1) by simp
  have "reserve \<le> vector_max" using assms(2) by (simp add: tb_cap_def)
  then have u1: "uadd (readable_size b) reserve = length (content b) + reserve"
    using i assms(1) len by (simp add: uadd_vector)
  have tot: "length (content b) + reserve + prepend_size b \<le> vector_max"
    using assms(2) i by (simp add: tb_cap_def)
  then have "uadd (length (content b) + reserve) (prepend_size b) =
      length (content b) + reserve + prepend_size b"
    by (intro uadd_vector) auto
  with u1 tot show ?thesis by (simp add: shrink_def vresize_def)
qed

lemma prepend_result:
  assumes "tb_inv b" "length d \<le> read_index b"
  shows "\<exists>b'. tb_prepend d b = Inr b' \<and> content b' = d @ content b \<and>
    read_index b' = read_index b - length d \<and> write_index b' = write_index b \<and>
    prepend_size b' = prepend_size b \<and> length (buffer b') = length (buffer b)"
proof -
  note i = tb_invD [OF assms(1)]
  let ?r = "read_index b - length d"
  let ?v = "overwrite ?r d (buffer b)"
  have st: "store ?r d (buffer b) = Inr ?v" "length ?v = length (buffer b)"
    using i assms(2) by simp_all
  have eq: "segment ?r (length d + (write_index b - read_index b)) ?v = d @ content b"
  proof -
    have "segment (?r + length d) (write_index b - read_index b) ?v = content b"
      using assms(2) i by (simp add: content_def segment_def overwrite_def)
    then show ?thesis
      using segment_append_split [of ?r "length d" "write_index b - read_index b" ?v]
        segment_overwrite_same [of ?r d "buffer b"] assms(2) i by simp
  qed
  have "write_index b - ?r = length d + (write_index b - read_index b)" using assms(2) i by simp
  with st eq assms(2) show ?thesis by (simp add: tb_prepend_def prependable_size_def content_def Let_def)
qed

lemma check_fails: "read_index b < prepend_size b \<Longrightarrow> check_index_validity b = Inl Assertion"
  by (simp add: check_index_validity_def assertC_def)

lemma append_below_prefix_aborts:
  assumes "read_index b < prepend_size b"
  shows "appendImp d b = Inl Assertion"
proof (cases "writable_size b < length d")
  case True
  then show ?thesis using check_fails [OF assms] by (simp add: appendImp_def ensure_appendable_def expend_def)
next
  case False
  then show ?thesis using check_fails [OF assms] by (simp add: appendImp_def ensure_appendable_def)
qed

lemma consume_below_prefix_aborts:
  assumes "read_index b < prepend_size b" "read_index b + n < prepend_size b \<or> readable_size b \<le> n"
    and "prepend_size b \<le> vector_max"
  shows "consume n b = Inl Assertion"
proof -
  have "check_index_validity (b\<lparr>read_index := uadd (read_index b) n\<rparr>) = Inl Assertion"
    if "n < readable_size b"
    using assms that by (intro check_fails) (auto simp: uadd_vector)
  then show ?thesis
    using check_fails [OF assms(1)] by (auto simp: consume_def move_read_index_def assertC_def)
qed

subsection \<open>Properties\<close>

text \<open>C1. The buffer is a byte queue: every sequence of \<open>append\<close> and \<open>consume\<close> calls from a buffer
  that satisfies the invariant, whatever compactions and reallocations it causes, ends with
  exactly the bytes the same sequence leaves in a list, and stops with a failed assertion at
  exactly the calls that ask for more bytes than the list holds.\<close>

theorem tb_refines_byte_queue:
  assumes "tb_inv b" "length (content b) + bytes_put ops \<le> tb_cap b"
  shows "case abs_run ops (content b) of
      Inl e \<Rightarrow> fifo_run tb_append consume ops b = Inl e
    | Inr q \<Rightarrow> \<exists>b'. fifo_run tb_append consume ops b = Inr b' \<and> tb_inv b' \<and> content b' = q"
  by (rule tbuf.run_refines [OF assms])

theorem tb_refines_byte_queue_witness:
  "\<exists>b b'. tb_new 1 2 = Inr b \<and>
     fifo_run tb_append consume [Put ''abc'', Take 2, Put ''d'', Take 1] b = Inr b' \<and>
     tb_inv b' \<and> content b' = ''d''"
proof -
  have fresh: "1 + 2 \<le> vector_max" by (simp add: vector_max_def)
  obtain b where b: "tb_new 1 2 = Inr b" "tb_inv b" "content b = []" "prepend_size b = 2"
    using tb_new_ok [OF fresh] by blast
  have "length (content b) + bytes_put [Put ''abc'', Take 2, Put ''d'', Take 1] \<le> tb_cap b"
    using b by (simp add: tb_cap_def vector_max_def)
  from tb_refines_byte_queue [OF b(2) this] b(1,3) show ?thesis
    by (simp add: abs_run_def abs_step_def)
qed

text \<open>C16. Reading from a socket loses nothing: whatever \<open>readv\<close> delivers into the tail of the
  vector and the 65536-byte overflow array is appended in order to the bytes already held.\<close>

theorem appendFormFd_appends:
  assumes "tb_inv b" "readv (read_iov b) = Inr d" "length d \<le> sum_list (read_iov b)"
    and "length (content b) + length d \<le> tb_cap b"
  shows "\<exists>b'. appendFormFd readv b = Inr (b', Inr (length d)) \<and> tb_inv b' \<and>
    content b' = content b @ d"
  using appendFormFd_ok [where readv = readv and b = b and d = d] assms by blast

theorem appendFormFd_appends_witness:
  "\<exists>b b'. tb_new 1 2 = Inr b \<and> appendFormFd (\<lambda>iov. Inr ''xyz'') b = Inr (b', Inr 3) \<and>
     content b' = ''xyz''"
proof -
  have fresh: "1 + 2 \<le> vector_max" by (simp add: vector_max_def)
  obtain b where b: "tb_new 1 2 = Inr b" "tb_inv b" "content b = []" "prepend_size b = 2"
    using tb_new_ok [OF fresh] by blast
  have "length (buffer b) = 3" using b(1) by (auto simp: tb_new_def outcome_iff uadd_def)
  then have "length ''xyz'' \<le> sum_list (read_iov b)"
    by (simp add: read_iov_def extrabuf_size_def)
  moreover have "length (content b) + length ''xyz'' \<le> tb_cap b"
    using b by (simp add: tb_cap_def vector_max_def)
  ultimately show ?thesis
    using appendFormFd_appends [OF b(2), of "\<lambda>iov. Inr ''xyz''" "''xyz''"] b by auto
qed

text \<open>Room for an append is made by moving the bytes down to the reserved prefix whenever
  the vector is long enough for it; only otherwise is the vector grown, and then to exactly the
  length that the prefix, the bytes held and the new bytes need.\<close>

theorem expend_grows_only_when_needed:
  assumes "tb_inv b" "length (content b) + n \<le> tb_cap b" "writable_size b < n"
  shows "\<exists>b'. expend n b = Inr b' \<and> tb_inv b' \<and> content b' = content b \<and> n \<le> writable_size b' \<and>
    length (buffer b') = max (length (buffer b)) (prepend_size b + length (content b) + n)"
proof -
  have "length (buffer b) - write_index b < n" using assms(1,3) by simp
  from expend_ok [OF assms(1,2) this] show ?thesis by blast
qed

theorem expend_grows_only_when_needed_witness:
  "\<exists>b b'. tb_new 1 2 = Inr b \<and> expend 5 b = Inr b' \<and> length (buffer b') = 7"
proof -
  have fresh: "1 + 2 \<le> vector_max" by (simp add: vector_max_def)
  obtain b where b: "tb_new 1 2 = Inr b" "tb_inv b" "content b = []" "prepend_size b = 2"
      "read_index b = 2"
    using tb_new_ok [OF fresh] by blast
  have "length (buffer b) = 3" "write_index b = 2"
    using b(1) by (auto simp: tb_new_def outcome_iff uadd_def)
  then have "length (content b) + 5 \<le> tb_cap b" "writable_size b < 5"
    using b by (simp_all add: tb_cap_def vector_max_def)
  from expend_grows_only_when_needed [OF b(2) this] show ?thesis
    using b \<open>length (buffer b) = 3\<close> by auto
qed

text \<open>\<open>findBorder\<close> returns the first occurrence of the border in the readable bytes, or the
  write position when there is none.\<close>

theorem findBorder_first:
  assumes "tb_inv b" "border \<noteq> []" "findBorder border b = p"
  shows "read_index b \<le> p \<and> p \<le> write_index b \<and>
    (\<forall>j < p - read_index b. \<not> prefix border (drop j (content b))) \<and>
    (p < write_index b \<longrightarrow> prefix border (drop (p - read_index b) (content b))) \<and>
    (p = write_index b \<longrightarrow> \<not> sublist border (content b))"
proof -
  note i = tb_invD [OF assms(1)]
  let ?r = "read_index b" and ?w = "write_index b" and ?n = "length border"
  note s = std_search_spec [OF i(2) i(3), of border, folded findBorder_def, unfolded assms(3)]
  have pre: "prefix border (drop j (content b)) \<longleftrightarrow>
      ?r + j + ?n \<le> ?w \<and> segment (?r + j) ?n (buffer b) = border" for j
  proof -
    have len: "length (drop j (content b)) = ?w - ?r - j" using assms(1) by simp
    have "prefix border (drop j (content b)) \<longleftrightarrow> take ?n (drop j (content b)) = border"
      by (metis append_eq_conv_conj append_take_drop_id prefix_def)
    also have "\<dots> \<longleftrightarrow> ?n \<le> ?w - ?r - j \<and> segment (?r + j) (min ?n (?w - ?r - j)) (buffer b) = border"
      using len by (auto simp: content_def drop_segment take_segment min_def dest: arg_cong [of _ _ length])
    also have "\<dots> \<longleftrightarrow> ?r + j + ?n \<le> ?w \<and> segment (?r + j) ?n (buffer b) = border"
      using assms(2) by (cases border) (auto simp: min_def)
    finally show ?thesis .
  qed
  have no: "\<not> prefix border (drop j (content b))" if "j < p - ?r" for j
    using s pre [of j] that by simp
  have "\<not> sublist border (content b)" if "p = ?w"
  proof
    assume "sublist border (content b)"
    then obtain j where "prefix border (drop j (content b))"
      by (metis append_eq_conv_conj prefix_def sublist_def)
    then have "j < p - ?r" using pre [of j] assms(2) that by (cases border) auto
    with no \<open>prefix border (drop j (content b))\<close> show False by blast
  qed
  moreover have "p < ?w \<longrightarrow> prefix border (drop (p - ?r) (content b))"
    using s pre [of "p - ?r"] by simp
  ultimately show ?thesis using s no by simp
qed

theorem findBorder_first_witness:
  "findBorder ''ab'' \<lparr>buffer = ''xaab.'', prepend_size = 1, read_index = 1, write_index = 4\<rparr> = 2 \<and>
   prefix ''ab'' (drop 1 (content \<lparr>buffer = ''xaab.'', prepend_size = 1, read_index = 1, write_index = 4\<rparr>))"
proof -
  let ?b = "\<lparr>buffer = ''xaab.'', prepend_size = 1, read_index = 1, write_index = 4\<rparr>"
  have inv: "tb_inv ?b" by (simp add: tb_inv_def vector_max_def)
  have p: "findBorder ''ab'' ?b = 2"
    by (simp add: findBorder_def std_search.simps segment_def)
  from findBorder_first [OF inv _ p] p show ?thesis by simp
qed

text \<open>\<open>shrink\<close> resizes the vector without moving the readable bytes, so it keeps the invariant
  exactly when the bytes already consumed in front of them are no more than the reserve; beyond
  that the indices point past the end of the vector.\<close>

theorem shrink_keeps_inv_iff:
  assumes "tb_inv b" "length (content b) + reserve \<le> tb_cap b"
  shows "\<exists>b'. shrink reserve b = Inr b' \<and>
    (tb_inv b' \<longleftrightarrow> read_index b - prepend_size b \<le> reserve) \<and>
    (write_index b' \<le> length (buffer b') \<longleftrightarrow> read_index b - prepend_size b \<le> reserve)"
proof -
  note i = tb_invD [OF assms(1)]
  obtain b' where b': "shrink reserve b = Inr b'"
    "length (buffer b') = length (content b) + reserve + prepend_size b"
    "read_index b' = read_index b" "write_index b' = write_index b" "prepend_size b' = prepend_size b"
    using shrink_result [OF assms] by blast
  have "length (buffer b') \<le> vector_max" using b'(2) assms(2) i by (simp add: tb_cap_def)
  then show ?thesis
    using b' i assms(1) by (intro exI [of _ b']) (auto simp: tb_inv_def)
qed

theorem shrink_keeps_inv_iff_witness:
  "\<exists>b'. shrink 0 \<lparr>buffer = ''........abcd'', prepend_size = 8, read_index = 11, write_index = 12\<rparr> = Inr b' \<and>
     \<not> tb_inv b' \<and> length (buffer b') < write_index b'"
proof -
  let ?b = "\<lparr>buffer = ''........abcd'', prepend_size = 8, read_index = 11, write_index = 12\<rparr>"
  have "tb_inv ?b" "length (content ?b) + 0 \<le> tb_cap ?b"
    by (simp_all add: tb_inv_def tb_cap_def content_def vector_max_def)
  from shrink_keeps_inv_iff [OF this] show ?thesis by (auto simp: not_le)
qed

text \<open>\<open>prepend\<close> puts the bytes in front of the readable ones, but when they go into the
  reserved prefix, which is the room meant for them, the read index ends below the prefix size and
  every later \<open>append\<close> stops at the index check.\<close>

theorem prepend_into_prefix_disables_buffer:
  assumes "tb_inv b" "length d \<le> read_index b"
  shows "\<exists>b'. tb_prepend d b = Inr b' \<and> content b' = d @ content b \<and>
    (tb_inv b' \<longleftrightarrow> prepend_size b + length d \<le> read_index b) \<and>
    (read_index b < prepend_size b + length d \<longrightarrow>
       (\<forall>x. tb_append x b' = Inl Assertion) \<and> consume 0 b' = Inl Assertion)"
proof -
  note i = tb_invD [OF assms(1)]
  obtain b' where b': "tb_prepend d b = Inr b'" "content b' = d @ content b"
    "read_index b' = read_index b - length d" "write_index b' = write_index b"
    "prepend_size b' = prepend_size b" "length (buffer b') = length (buffer b)"
    using prepend_result [OF assms] by blast
  have inv: "tb_inv b' \<longleftrightarrow> prepend_size b + length d \<le> read_index b"
    using b' i assms(2) by (auto simp: tb_inv_def)
  show ?thesis
  proof (intro exI conjI impI)
    assume low: "read_index b < prepend_size b + length d"
    then have below: "read_index b' < prepend_size b'" using b' assms(2) by simp
    then show "\<forall>x. tb_append x b' = Inl Assertion"
      by (simp add: tb_append_def append_below_prefix_aborts)
    have "prepend_size b' \<le> vector_max" using b' i by simp
    with below show "consume 0 b' = Inl Assertion"
      by (intro consume_below_prefix_aborts) auto
  qed (use b' inv in simp_all)
qed

theorem prepend_into_prefix_disables_buffer_witness:
  "\<exists>b b'. tb_new 16 8 = Inr b \<and> tb_prepend ''len4'' b = Inr b' \<and> content b' = ''len4'' \<and>
     tb_append ''x'' b' = Inl Assertion"
proof -
  have fresh: "16 + 8 \<le> vector_max" by (simp add: vector_max_def)
  obtain b where b: "tb_new 16 8 = Inr b" "tb_inv b" "content b = []" "prepend_size b = 8"
      "read_index b = 8"
    using tb_new_ok [OF fresh] by blast
  have "length ''len4'' \<le> read_index b" using b by simp
  from prepend_into_prefix_disables_buffer [OF b(2) this] b show ?thesis by auto
qed

text \<open>The view that \<open>readView\<close> returns is one byte longer than the readable bytes: it ends with
  the stale byte at the write position, or lies outside the vector when the vector is full.\<close>

theorem readView_one_byte_too_long:
  assumes "tb_inv b"
  shows "sp_size (tb_readView b) = length (content b) + 1 \<and>
    (wf_piece (tb_readView b) \<longleftrightarrow> write_index b < length (buffer b)) \<and>
    (write_index b < length (buffer b) \<longrightarrow>
       toString (tb_readView b) = content b @ [buffer b ! write_index b])"
proof -
  note i = tb_invD [OF assms]
  have u: "uadd (readable_size b) 1 = write_index b - read_index b + 1"
    using i assms vector_max_bound by (simp add: uadd_vector)
  have "segment (read_index b) (write_index b - read_index b + 1) (buffer b) =
      content b @ [buffer b ! write_index b]" if "write_index b < length (buffer b)"
    using segment_append_split [of "read_index b" "write_index b - read_index b" 1 "buffer b"]
      segment_Suc [of "write_index b" "buffer b" 0] i that by (simp add: content_def)
  then show ?thesis
    using u i assms by (auto simp: tb_readView_def tb_peek_def sp_at_def sp_size_def wf_piece_def toString_def
          Suc_diff_le)
qed

theorem readView_one_byte_too_long_witness:
  "toString (tb_readView \<lparr>buffer = ''abc?'', prepend_size = 0, read_index = 0, write_index = 3\<rparr>) = ''abc?''"
proof -
  let ?b = "\<lparr>buffer = ''abc?'', prepend_size = 0, read_index = 0, write_index = 3\<rparr>"
  have "tb_inv ?b" by (simp add: tb_inv_def vector_max_def)
  from readView_one_byte_too_long [OF this] show ?thesis
    by (simp add: content_def segment_def numeral_3_eq_3)
qed

end
