(* ===== verification/Codec.thy ===== *)
theory Codec
  imports Tcp_Buffer
begin

text \<open>
  \<open>Net/include/Codec.h\<close> and \<open>Net/src/Codec.cpp\<close>: the line codec and the length-prefixed codec.
  \<open>tryDecode\<close> returns the number of bytes of a complete frame, 0 for an incomplete one and a
  negative number for a malformed one, and writes the message through its reference argument;
  \<open>encode\<close> appends to a buffer. What both promise to a receive loop is the locale \<open>frame_codec\<close>.
\<close>

subsection \<open>The line codec\<close>





subsection \<open>The length codec\<close>

text \<open>Four bytes in network order, as \<open>ntohl\<close> reads them and \<open>htonl\<close> lays them out.\<close>

definition be32 :: "nat \<Rightarrow> char list" where
  "be32 n = map (\<lambda>k. char_of (n div 256 ^ k mod 256)) [3, 2, 1, 0]"

fun ntohl :: "char list \<Rightarrow> nat" where
  "ntohl [a, b, c, d] = of_char a * 256 ^ 3 + of_char b * 256 ^ 2 + of_char c * 256 + of_char d"
| "ntohl _ = 0"

definition max_frame :: nat where "max_frame = 1024 * 1024"

definition length_tryDecode :: "string_piece \<Rightarrow> string_piece \<Rightarrow> int \<times> string_piece" where
  "length_tryDecode data msg =
     (if sp_size data < 8 then (0, msg)
      else let len = ntohl (segment (pb data + 4) 4 (mem data)) in
        if len > max_frame \<or> memcmp (drop (pb data) (mem data)) ''mBdT'' 4 \<noteq> 0 then (-1, msg)
        else if sp_size data \<ge> len + 8
             then (to_int32 (int (len + 8)), sp_at (mem data) (pb data + 8) len)
             else (0, msg))"

definition length_encode :: "string_piece \<Rightarrow> tcp_buffer \<Rightarrow> tcp_buffer outcome" where
  "length_encode msg buf =
     obind (tb_FluentAppend ''mBdT'' buf) (\<lambda>buf.
     obind (tb_FluentAppend_value (Object (be32 (sp_size msg mod 2 ^ 32))) buf)
       (tb_append_value (Piece msg)))"

subsection \<open>The bytes on the wire\<close>


definition length_frame :: "string \<Rightarrow> string" where
  "length_frame m = ''mBdT'' @ be32 (length m mod 2 ^ 32) @ m"



lemma length_be32 [simp]: "length (be32 n) = 4"
  by (simp add: be32_def)

lemma ntohl_be32:
  assumes "n < 2 ^ 32"
  shows "ntohl (be32 n) = n"
proof -
  define q1 q2 q3 where "q1 = n div 256" and "q2 = q1 div 256" and "q3 = q2 div 256"
  have "n = q1 * 256 + n mod 256" "q1 = q2 * 256 + q1 mod 256" "q2 = q3 * 256 + q2 mod 256"
    by (simp_all add: q1_def q2_def q3_def)
  then have "n = q3 * 16777216 + (q2 mod 256) * 65536 + (q1 mod 256) * 256 + n mod 256"
    by linarith
  moreover have "q3 mod 256 = q3"
    using assms by (simp add: q1_def q2_def q3_def div_mult2_eq [symmetric] div_less_iff_less_mult)
  moreover have "n div 256 ^ 3 = q3" "n div 256 ^ 2 = q2"
    by (simp_all add: q1_def q2_def q3_def div_mult2_eq [symmetric])
  ultimately show ?thesis by (simp add: be32_def q1_def)
qed


lemma piece_segment:
  assumes "wf_piece sp" "i + n \<le> length (toString sp)"
  shows "segment (pb sp + i) n (mem sp) = segment i n (toString sp)"
proof -
  have "n \<le> pe sp - (pb sp + i)" using assms by (auto simp: toString_def wf_piece_def)
  then show ?thesis by (simp add: toString_def segment_def drop_take min_absorb1 add.commute)
qed

lemma sp_at_wf:
  assumes "wf_piece sp" "i + n \<le> length (toString sp)"
  shows "wf_piece (sp_at (mem sp) (pb sp + i) n)"
    "toString (sp_at (mem sp) (pb sp + i) n) = segment i n (toString sp)"
proof -
  show "wf_piece (sp_at (mem sp) (pb sp + i) n)"
    using assms by (auto simp: wf_piece_def sp_at_def toString_def)
  show "toString (sp_at (mem sp) (pb sp + i) n) = segment i n (toString sp)"
    using piece_segment [OF assms] by (simp add: sp_at_def toString_def)
qed


subsection \<open>What a receive loop relies on\<close>


text \<open>
  The receive loop of a message callback: decode the readable bytes, hand over the message,
  consume its frame, until nothing is complete. The first argument bounds the rounds.
\<close>

definition readable_piece :: "tcp_buffer \<Rightarrow> string_piece" where
  "readable_piece b = sp_at (buffer b) (tb_peek b) (readable_size b)"


lemma readable_piece_wf:
  "tb_inv b \<Longrightarrow> wf_piece (readable_piece b)" "tb_inv b \<Longrightarrow> toString (readable_piece b) = content b"
  by (auto simp: readable_piece_def tb_peek_def sp_at_def wf_piece_def tb_inv_def toString_def content_def
      readable_size_def)


subsection \<open>The line codec keeps the contract\<close>




lemma append_piece_ok:
  assumes "tb_inv b" "wf_piece sp" "length (content b) + length (toString sp) \<le> tb_cap b"
  shows "\<exists>b'. tb_append_value (Piece sp) b = Inr b' \<and> tb_inv b' \<and>
    content b' = content b @ toString sp \<and> prepend_size b' = prepend_size b"
proof -
  have "load (pb sp) (sp_size sp) (mem sp) = Inr (toString sp)"
    using assms(2) by (auto simp: load_def toString_def wf_piece_def sp_size_def)
  then show ?thesis using append_ok [OF assms(1,3)] by (simp add: tb_append_value_def)
qed



subsection \<open>The length codec keeps the contract\<close>

lemma length_frame_parts:
  "length (length_frame m) = length m + 8"
  "take 4 (length_frame m @ rest) = ''mBdT''"
  "segment 4 4 (length_frame m @ rest) = be32 (length m mod 2 ^ 32)"
  "segment 8 (length m) (length_frame m @ rest) = m"
  by (simp_all add: length_frame_def segment_def)

lemma length_decode_bytes:
  assumes "wf_piece data" "8 \<le> length (toString data)"
    and "ntohl (segment 4 4 (toString data)) = n" "n \<le> max_frame" "take 4 (toString data) = ''mBdT''"
  shows "length_tryDecode data x =
    (if n + 8 \<le> length (toString data) then (int (n + 8), sp_at (mem data) (pb data + 8) n) else (0, x))"
proof -
  have "memcmp (drop (pb data) (mem data)) ''mBdT'' 4 = memcmp (toString data) ''mBdT'' 4"
    using assms(1,2) memcmp_prefix [of 4 "toString data" "''mBdT''" "drop (pe data) (mem data)" "[]"]
    by (simp add: toString_drop)
  also have "\<dots> = 0" using assms(2,5) by (simp add: memcmp_zero)
  finally have magic: "memcmp (drop (pb data) (mem data)) ''mBdT'' 4 = 0" .
  have "segment (pb data + 4) 4 (mem data) = segment 4 4 (toString data)"
    using piece_segment [OF assms(1), of 4 4] assms(2) by simp
  moreover have "to_int32 (int (n + 8)) = int (n + 8)"
    using assms(4) by (intro to_int32_small) (simp_all add: max_frame_def)
  ultimately show ?thesis
    using magic assms by (simp add: length_tryDecode_def Let_def)
qed



lemma length_encode_frame:
  assumes "tb_inv b" "wf_piece sp" "length (content b) + length (length_frame (toString sp)) \<le> tb_cap b"
  shows "\<exists>b'. length_encode sp b = Inr b' \<and> tb_inv b' \<and>
    content b' = content b @ length_frame (toString sp) \<and> prepend_size b' = prepend_size b"
proof -
  let ?n = "be32 (sp_size sp mod 2 ^ 32)"
  have room: "length (content b) + 8 + length (toString sp) \<le> tb_cap b"
    using assms(3) length_frame_parts(1) [of "toString sp"] by simp
  obtain b1 where b1: "appendImp ''mBdT'' b = Inr b1" "tb_inv b1" "content b1 = content b @ ''mBdT''"
    "prepend_size b1 = prepend_size b"
    using append_ok [OF assms(1), of "''mBdT''"] room by auto
  obtain b2 where b2: "appendImp ?n b1 = Inr b2" "tb_inv b2" "content b2 = content b1 @ ?n"
    "prepend_size b2 = prepend_size b"
    using append_ok [OF b1(2), of ?n] b1 room by (auto simp: tb_cap_def)
  have "length (content b2) + length (toString sp) \<le> tb_cap b2"
    using b1 b2 room by (simp add: tb_cap_def)
  from append_piece_ok [OF b2(2) assms(2) this] show ?thesis
    using b1 b2 assms(2)
    by (auto simp: length_encode_def tb_FluentAppend_def tb_FluentAppend_value_def tb_append_value_def
        length_frame_def)
qed


subsection \<open>Properties\<close>





text \<open>\<open>LengthCodec::tryDecode\<close> on any bytes at all, hostile ones included: a negative result
  means a wrong magic number or a declared length over one mebibyte; a positive one never exceeds
  the bytes at hand and the message is the slice after the header; otherwise nothing is written.\<close>

theorem length_tryDecode_any_bytes:
  assumes "wf_piece data" and "length_tryDecode data x = (p, msg)"
  defines "s \<equiv> toString data"
  shows "(p < 0 \<longleftrightarrow> 8 \<le> length s \<and> (take 4 s \<noteq> ''mBdT'' \<or> max_frame < ntohl (segment 4 4 s))) \<and>
    (0 < p \<longrightarrow> p \<le> int (length s) \<and> wf_piece msg \<and> mem msg = mem data \<and>
       toString msg = segment 8 (nat p - 8) s \<and> int (ntohl (segment 4 4 s)) = p - 8) \<and>
    (p \<le> 0 \<longrightarrow> msg = x)"
proof (cases "8 \<le> length s \<and> take 4 s = ''mBdT'' \<and> ntohl (segment 4 4 s) \<le> max_frame")
  case True
  then have "length_tryDecode data x =
    (if ntohl (segment 4 4 s) + 8 \<le> length s
     then (int (ntohl (segment 4 4 s) + 8), sp_at (mem data) (pb data + 8) (ntohl (segment 4 4 s))) else (0, x))"
    unfolding s_def by (intro length_decode_bytes) (use assms(1) in simp_all)
  then show ?thesis
    using True assms(2) sp_at_wf [OF assms(1), of 8 "ntohl (segment 4 4 s)"]
    by (auto simp: s_def sp_at_def nat_add_distrib split: if_splits)
next
  case False
  have rej: "p = (if 8 \<le> length s then -1 else 0) \<and> msg = x"
  proof (cases "8 \<le> length s")
    case True
    have "memcmp (drop (pb data) (mem data)) ''mBdT'' 4 = memcmp s ''mBdT'' 4"
      using assms(1) True memcmp_prefix [of 4 s "''mBdT''" "drop (pe data) (mem data)" "[]"]
      by (simp add: toString_drop s_def)
    moreover have "memcmp s ''mBdT'' 4 = 0 \<longleftrightarrow> take 4 s = ''mBdT''"
      using True by (simp add: memcmp_zero)
    moreover have "segment (pb data + 4) 4 (mem data) = segment 4 4 s"
      using piece_segment [OF assms(1), of 4 4] True by (simp add: s_def)
    ultimately show ?thesis
      using assms(1,2) True False by (auto simp: length_tryDecode_def Let_def s_def split: if_splits)
  qed (use assms(1,2) in \<open>simp add: length_tryDecode_def s_def\<close>)
  with False show ?thesis by auto
qed

theorem length_tryDecode_any_bytes_witness:
  "fst (length_tryDecode (sp_of_string (''mBdT'' @ be32 2 @ ''hi!'')) sp_empty) = 10 \<and>
   toString (snd (length_tryDecode (sp_of_string (''mBdT'' @ be32 2 @ ''hi!'')) sp_empty)) = ''hi''"
proof -
  let ?d = "sp_of_string (''mBdT'' @ be32 2 @ ''hi!'')"
  have wf: "wf_piece ?d" by (simp add: wf_piece_def sp_of_string_def)
  have p: "fst (length_tryDecode ?d sp_empty) = 10"
    by (simp add: length_tryDecode_def sp_of_string_def segment_def be32_def max_frame_def Let_def
        sp_size_def memcmp_zero)
  have "length_tryDecode ?d sp_empty = (10, snd (length_tryDecode ?d sp_empty))"
    using p by (simp add: prod_eq_iff)
  from length_tryDecode_any_bytes [OF wf this]
  have "toString (snd (length_tryDecode ?d sp_empty)) = segment 8 (nat 10 - 8) (toString ?d)" by simp
  then show ?thesis using p by (simp add: sp_of_string_def toString_def segment_def be32_def)
qed

text \<open>The encoder has no size check: a message over one mebibyte (whose length fits the
  prefix) is written out, and the peer's decoder answers it with an error, whatever follows.\<close>

theorem length_encode_oversize_rejected:
  assumes "tb_inv b" "content b = []" "wf_piece sp" "length (toString sp) + 8 \<le> tb_cap b"
    and "max_frame < length (toString sp)" "length (toString sp) < 2 ^ 32"
  shows "\<exists>b'. length_encode sp b = Inr b' \<and> tb_inv b' \<and>
    length_tryDecode (readable_piece b') x = (-1, x)"
proof -
  let ?m = "toString sp"
  obtain b' where b': "length_encode sp b = Inr b'" "tb_inv b'" "content b' = length_frame ?m"
    using length_encode_frame [OF assms(1,3)] assms(2,4) length_frame_parts(1) [of ?m] by auto
  let ?d = "readable_piece b'"
  have d: "wf_piece ?d" "toString ?d = length_frame ?m" using readable_piece_wf b' by simp_all
  have "segment (pb ?d + 4) 4 (mem ?d) = be32 (length ?m)"
    using piece_segment [OF d(1), of 4 4] d length_frame_parts(1) [of ?m]
      length_frame_parts(3) [of ?m "[]"] assms(6) by simp
  then have "ntohl (segment (pb ?d + 4) 4 (mem ?d)) = length ?m"
    using ntohl_be32 [OF assms(6)] by simp
  then have "length_tryDecode ?d x = (-1, x)"
    using assms(5) d length_frame_parts(1) [of ?m] by (simp add: length_tryDecode_def)
  with b' show ?thesis by blast
qed

theorem length_encode_oversize_rejected_witness:
  "\<exists>b b' sp. tb_new 16 8 = Inr b \<and> length (toString sp) = max_frame + 1 \<and>
     length_encode sp b = Inr b' \<and> length_tryDecode (readable_piece b') sp_empty = (-1, sp_empty)"
proof -
  let ?sp = "sp_of_string (replicate (max_frame + 1) CHR ''x'')"
  have fresh: "16 + 8 \<le> vector_max" by (simp add: vector_max_def)
  obtain b where b: "tb_new 16 8 = Inr b" "tb_inv b" "content b = []" "prepend_size b = 8"
    using tb_new_ok [OF fresh] by blast
  have sp: "wf_piece ?sp" "length (toString ?sp) = max_frame + 1"
    by (simp_all add: wf_piece_def sp_of_string_def toString_def)
  have "max_frame + 1 + 8 \<le> tb_cap b" "max_frame + 1 < 2 ^ 32"
    using b(4) by (simp_all add: tb_cap_def vector_max_def max_frame_def)
  with length_encode_oversize_rejected [OF b(2,3) sp(1), of sp_empty] sp b(1) show ?thesis
    by (metis less_add_one)
qed

end
