(* ===== verification/Event_Mask.thy ===== *)
theory Event_Mask
  imports Prelude "HOL-Library.Word"
begin

text \<open>
  \<open>Net/include/Event.h\<close>: the event bits a handler asks for and receives. \<open>LogicEvent\<close> is an
  enumeration over \<open>uint32_t\<close>, here a 32-bit word; the class \<open>Event\<close> wraps one and checks, in a
  debug build, that no undefined bit is set.
\<close>

unbundle bit_operations_syntax

named_theorems event_defs \<open>definitions of the event class\<close>

subsection \<open>The enumeration\<close>

type_synonym logic_event = "32 word"

definition ev_none :: logic_event where "ev_none = 0"
definition ev_read :: logic_event where "ev_read = push_bit 0 1"
definition ev_except :: logic_event where "ev_except = push_bit 1 1"
definition ev_write :: logic_event where "ev_write = push_bit 2 1"
definition ev_error :: logic_event where "ev_error = push_bit 3 1"
definition ev_hup :: logic_event where "ev_hup = push_bit 4 1"
definition ev_nval :: logic_event where "ev_nval = push_bit 5 1"
definition ev_rdhup :: logic_event where "ev_rdhup = push_bit 6 1"
definition ev_edge :: logic_event where "ev_edge = push_bit 7 1"
definition ev_oneshot :: logic_event where "ev_oneshot = push_bit 8 1"

definition le_or :: "logic_event \<Rightarrow> logic_event \<Rightarrow> logic_event" where
  "le_or lhs rhs = lhs OR rhs"

definition le_and :: "logic_event \<Rightarrow> logic_event \<Rightarrow> logic_event" where
  "le_and lhs rhs = lhs AND rhs"

definition le_not :: "logic_event \<Rightarrow> logic_event" where
  "le_not lhs = NOT lhs"

definition le_eq :: "logic_event \<Rightarrow> 32 word \<Rightarrow> bool" where
  "le_eq lhs rhs \<longleftrightarrow> lhs = rhs"

definition has_event :: "logic_event \<Rightarrow> logic_event \<Rightarrow> bool" where
  "has_event lhs rhs \<longleftrightarrow> lhs AND rhs \<noteq> 0"

definition ev_readwrite :: logic_event where "ev_readwrite = ev_read OR ev_write"

definition ev_all :: logic_event where
  "ev_all = ev_read OR ev_write OR ev_except OR ev_error OR ev_hup OR ev_nval OR ev_rdhup"

subsection \<open>The class\<close>

record event = ev_bits :: logic_event

definition ev_validate :: "logic_event \<Rightarrow> bool" where
  "ev_validate e \<longleftrightarrow> e AND NOT (le_or (le_or ev_all ev_edge) ev_oneshot) = 0"

definition ev_default :: event where "ev_default = \<lparr>ev_bits = ev_none\<rparr>"

definition ev_of :: "logic_event \<Rightarrow> event outcome" where
  "ev_of e = assertC (ev_validate e) (Inr \<lparr>ev_bits = e\<rparr>)"

definition ev_get :: "event \<Rightarrow> logic_event" where "ev_get e = ev_bits e"

definition ev_value :: "event \<Rightarrow> 32 word" where "ev_value e = ev_bits e"

definition ev_add :: "logic_event \<Rightarrow> event \<Rightarrow> event outcome" where
  "ev_add x e = assertC (ev_validate x) (Inr (e\<lparr>ev_bits := le_or (ev_bits e) x\<rparr>))"

definition ev_remove :: "logic_event \<Rightarrow> event \<Rightarrow> event outcome" where
  "ev_remove x e = assertC (ev_validate x) (Inr (e\<lparr>ev_bits := ev_bits e AND NOT x\<rparr>))"

definition ev_has :: "event \<Rightarrow> logic_event \<Rightarrow> bool" where
  "ev_has e x = has_event (ev_bits e) x"

definition ev_is_none :: "event \<Rightarrow> bool" where
  "ev_is_none e \<longleftrightarrow> ev_bits e = ev_none"

definition ev_assign :: "logic_event \<Rightarrow> event \<Rightarrow> event outcome" where
  "ev_assign x e = assertC (ev_validate x) (Inr (e\<lparr>ev_bits := x\<rparr>))"

definition ev_eq :: "event \<Rightarrow> logic_event \<Rightarrow> bool" where
  "ev_eq e x \<longleftrightarrow> ev_bits e = x"

definition ev_neq :: "event \<Rightarrow> logic_event \<Rightarrow> bool" where
  "ev_neq e x \<longleftrightarrow> \<not> ev_eq e x"

definition ev_amp :: "event \<Rightarrow> logic_event \<Rightarrow> bool" where
  "ev_amp e x = ev_has e x"

definition ev_or_assign :: "logic_event \<Rightarrow> event \<Rightarrow> event outcome" where
  "ev_or_assign x e = ev_add x e"

definition ev_and_assign :: "logic_event \<Rightarrow> event \<Rightarrow> event" where
  "ev_and_assign x e = e\<lparr>ev_bits := le_and (ev_bits e) x\<rparr>"

lemmas [event_defs] =
  ev_of_def ev_get_def ev_value_def ev_add_def ev_remove_def ev_has_def ev_is_none_def ev_assign_def
  ev_eq_def ev_neq_def ev_amp_def ev_or_assign_def ev_and_assign_def le_or_def le_and_def le_not_def
  has_event_def

text \<open>The defined bits are the low nine.\<close>

lemma valid_mask: "le_or (le_or ev_all ev_edge) ev_oneshot = mask 9"
  by (simp add: le_or_def ev_all_def ev_read_def ev_except_def ev_write_def ev_error_def ev_hup_def
      ev_nval_def ev_rdhup_def ev_edge_def ev_oneshot_def mask_eq_exp_minus_1 push_bit_eq_mult)

lemma ev_validate_bits: "ev_validate e \<longleftrightarrow> (\<forall>n. bit e n \<longrightarrow> n < 9)"
proof -
  have "ev_validate e \<longleftrightarrow> (\<forall>n < 32. \<not> (bit e n \<and> \<not> n < 9))"
    unfolding ev_validate_def valid_mask by (auto simp: bit_eq_iff bit_simps)
  also have "\<dots> \<longleftrightarrow> (\<forall>n. bit e n \<longrightarrow> n < 9)"
    using bit_imp_le_length [of e] by auto
  finally show ?thesis .
qed

lemma has_event_bits: "has_event a b \<longleftrightarrow> (\<exists>n. bit a n \<and> bit b n)"
  using bit_imp_le_length [of a] by (auto simp: has_event_def bit_eq_iff bit_simps)

definition ev_ok :: "event \<Rightarrow> bool" where
  "ev_ok e \<longleftrightarrow> ev_validate (ev_bits e)"

subsection \<open>An event is a set of bit positions\<close>

definition ev_set :: "event \<Rightarrow> nat set" where
  "ev_set e = {n. bit (ev_bits e) n}"

definition le_set :: "logic_event \<Rightarrow> nat set" where
  "le_set x = {n. bit x n}"

lemma ev_set_of: "ev_of x = (if ev_validate x then Inr \<lparr>ev_bits = x\<rparr> else Inl Assertion)"
  by (simp add: ev_of_def assertC_def)

lemma ev_set_ops:
  assumes "ev_validate x"
  shows "\<exists>e'. ev_add x e = Inr e' \<and> ev_set e' = ev_set e \<union> le_set x"
    "\<exists>e'. ev_remove x e = Inr e' \<and> ev_set e' = ev_set e - le_set x"
    "\<exists>e'. ev_assign x e = Inr e' \<and> ev_set e' = le_set x"
  using assms bit_imp_le_length [of "ev_bits e"]
  by (auto simp: ev_add_def ev_remove_def ev_assign_def ev_set_def le_set_def assertC_def le_or_def bit_simps)

lemma ev_has_set: "ev_has e x \<longleftrightarrow> ev_set e \<inter> le_set x \<noteq> {}"
  by (auto simp: ev_has_def has_event_bits ev_set_def le_set_def)

lemma ev_ok_set: "ev_ok e \<longleftrightarrow> ev_set e \<subseteq> {..<9}"
  by (auto simp: ev_ok_def ev_validate_bits ev_set_def)

lemma ev_validate_set: "ev_validate x \<longleftrightarrow> le_set x \<subseteq> {..<9}"
  by (auto simp: ev_validate_bits le_set_def)

lemma le_set_consts [simp]:
  "le_set ev_none = {}" "le_set ev_read = {0}" "le_set ev_except = {1}" "le_set ev_write = {2}"
  "le_set ev_error = {3}" "le_set ev_hup = {4}" "le_set ev_nval = {5}" "le_set ev_rdhup = {6}"
  "le_set ev_edge = {7}" "le_set ev_oneshot = {8}"
proof -
  have *: "le_set (push_bit k 1) = {k}" if "k < 32" for k
    using that by (auto simp: le_set_def bit_simps)
  show "le_set ev_none = {}" by (simp add: le_set_def ev_none_def)
  show "le_set ev_read = {0}" unfolding ev_read_def by (rule *) simp
  show "le_set ev_except = {1}" unfolding ev_except_def by (rule *) simp
  show "le_set ev_write = {2}" unfolding ev_write_def by (rule *) simp
  show "le_set ev_error = {3}" unfolding ev_error_def by (rule *) simp
  show "le_set ev_hup = {4}" unfolding ev_hup_def by (rule *) simp
  show "le_set ev_nval = {5}" unfolding ev_nval_def by (rule *) simp
  show "le_set ev_rdhup = {6}" unfolding ev_rdhup_def by (rule *) simp
  show "le_set ev_edge = {7}" unfolding ev_edge_def by (rule *) simp
  show "le_set ev_oneshot = {8}" unfolding ev_oneshot_def by (rule *) simp
qed

lemma ev_consts_valid [simp]:
  "ev_validate ev_none" "ev_validate ev_read" "ev_validate ev_except" "ev_validate ev_write"
  "ev_validate ev_error" "ev_validate ev_hup" "ev_validate ev_nval" "ev_validate ev_rdhup"
  "ev_validate ev_edge" "ev_validate ev_oneshot"
  by (simp_all add: ev_validate_set)

subsection \<open>Properties\<close>

text \<open>C15. The class \<open>Event\<close> implements a set of the nine defined event bits: construction accepts
  exactly the words without an undefined bit, \<open>add\<close>, \<open>remove\<close> and assignment are union,
  difference and replacement on that set, \<open>has\<close> tests for a common bit, and no operation
  leaves the nine bits.\<close>

theorem event_is_bit_set:
  assumes "ev_ok e" "ev_validate x"
  shows "(\<exists>e'. ev_add x e = Inr e' \<and> ev_ok e' \<and> ev_set e' = ev_set e \<union> le_set x) \<and>
    (\<exists>e'. ev_remove x e = Inr e' \<and> ev_ok e' \<and> ev_set e' = ev_set e - le_set x) \<and>
    (\<exists>e'. ev_assign x e = Inr e' \<and> ev_ok e' \<and> ev_set e' = le_set x) \<and>
    ev_ok (ev_and_assign y e) \<and>
    (ev_has e y \<longleftrightarrow> ev_set e \<inter> le_set y \<noteq> {}) \<and>
    (ev_of y = Inl Assertion \<longleftrightarrow> \<not> le_set y \<subseteq> {..<9})"
proof -
  have "ev_set (ev_and_assign y e) \<subseteq> ev_set e"
    by (auto simp: ev_and_assign_def ev_set_def le_and_def bit_simps)
  with assms show ?thesis
    using ev_set_ops [OF assms(2), of e] by (auto simp: ev_ok_set ev_validate_set ev_has_set ev_set_of)
qed

theorem event_is_bit_set_witness:
  "\<exists>e'. ev_add ev_write \<lparr>ev_bits = ev_read\<rparr> = Inr e' \<and> ev_set e' = {0, 2}"
proof -
  have "ev_ok \<lparr>ev_bits = ev_read\<rparr>" by (simp add: ev_ok_def)
  moreover have "ev_set \<lparr>ev_bits = ev_read\<rparr> = {0}"
    using le_set_consts(2) by (simp add: ev_set_def le_set_def)
  ultimately show ?thesis
    using event_is_bit_set [of "\<lparr>ev_bits = ev_read\<rparr>" ev_write 0] by auto
qed

end
