(* ===== verification/Epoll_Poller.thy ===== *)
theory Epoll_Poller
  imports Event_Mask
begin

text \<open>
  \<open>Net/include/EventHandler.h\<close>, \<open>Net/src/EventHandler.cpp\<close>, \<open>Net/include/Poller.h\<close> and
  \<open>Net/Poller/Epoll.cpp\<close>: event handlers and the epoll poller. Handlers are shared objects, so
  they live in a heap indexed by their address; the poller keeps the map from descriptors to
  handlers and the size of its result array. The kernel (\<open>epoll_ctl\<close>, \<open>epoll_wait\<close>, the event
  descriptor) is a parameter of the operations, with a state of its own; what the library relies
  on is the predicate \<open>epoll_ctl_spec\<close>, the behaviour the manual page documents.
\<close>

named_theorems reactor_defs \<open>definitions of the handler and poller operations\<close>

subsection \<open>Event handlers\<close>

record 'cb event_handler =
  h_status :: int
  h_fd :: int
  h_events :: event
  h_revents :: event
  h_loop :: bool
  readCallback :: "'cb option"
  writeCallback :: "'cb option"
  errorCallback :: "'cb option"
  exceptCallback :: "'cb option"
  closeCallback :: "'cb option"

type_synonym hid = nat

text \<open>A handler before \<open>init\<close>: no descriptor, no loop, status New.\<close>

definition handler_new :: "event \<Rightarrow> 'cb event_handler" where
  "handler_new e = \<lparr>h_status = -1, h_fd = -1, h_events = e, h_revents = ev_default, h_loop = False,
     readCallback = None, writeCallback = None, errorCallback = None, exceptCallback = None,
     closeCallback = None\<rparr>"

definition isWriting :: "'cb event_handler \<Rightarrow> bool" where
  "isWriting h = ev_has (h_events h) ev_write"

definition isReading :: "'cb event_handler \<Rightarrow> bool" where
  "isReading h = ev_has (h_events h) ev_read"

definition isExcept :: "'cb event_handler \<Rightarrow> bool" where
  "isExcept h = ev_has (h_events h) ev_except"

definition isReadingAndExcept :: "'cb event_handler \<Rightarrow> bool" where
  "isReadingAndExcept h = ev_amp (h_events h) (le_or ev_read ev_except)"

definition set_revent :: "event \<Rightarrow> 'cb event_handler \<Rightarrow> 'cb event_handler" where
  "set_revent e h = h\<lparr>h_revents := e\<rparr>"

definition set_status :: "int \<Rightarrow> 'cb event_handler \<Rightarrow> 'cb event_handler" where
  "set_status st h = h\<lparr>h_status := st\<rparr>"

definition setReadCallBack :: "'cb \<Rightarrow> 'cb event_handler \<Rightarrow> 'cb event_handler" where
  "setReadCallBack cb h = h\<lparr>readCallback := Some cb\<rparr>"

definition setWriteCallBack :: "'cb \<Rightarrow> 'cb event_handler \<Rightarrow> 'cb event_handler" where
  "setWriteCallBack cb h = h\<lparr>writeCallback := Some cb\<rparr>"

definition setCloseCallBack :: "'cb \<Rightarrow> 'cb event_handler \<Rightarrow> 'cb event_handler" where
  "setCloseCallBack cb h = h\<lparr>closeCallback := Some cb\<rparr>"

definition setErrorCallBack :: "'cb \<Rightarrow> 'cb event_handler \<Rightarrow> 'cb event_handler" where
  "setErrorCallBack cb h = h\<lparr>errorCallback := Some cb\<rparr>"

definition setExceptCallBack :: "'cb \<Rightarrow> 'cb event_handler \<Rightarrow> 'cb event_handler" where
  "setExceptCallBack cb h = h\<lparr>exceptCallback := Some cb\<rparr>"

text \<open>
  Dispatch of the received events. Callbacks change the state \<open>'s\<close> they run in, so the handler
  is read again before each test, as the member accesses of the source do.
\<close>

definition invoke :: "('cb \<Rightarrow> 's \<Rightarrow> 's outcome) \<Rightarrow> bool \<Rightarrow> 'cb option \<Rightarrow> 's \<Rightarrow> 's outcome" where
  "invoke run c cb s = (if c then (case cb of None \<Rightarrow> Inr s | Some f \<Rightarrow> run f s) else Inr s)"

definition handler_revent ::
  "('s \<Rightarrow> 'cb event_handler) \<Rightarrow> ('cb \<Rightarrow> 's \<Rightarrow> 's outcome) \<Rightarrow> 's \<Rightarrow> 's outcome" where
  "handler_revent hdl run s =
     (let r = (\<lambda>s. h_revents (hdl s)) in
      obind (invoke run (ev_amp (r s) ev_hup \<and> \<not> ev_amp (r s) ev_read) (closeCallback (hdl s)) s) (\<lambda>s.
      obind (invoke run (ev_amp (r s) ev_nval) (errorCallback (hdl s)) s) (\<lambda>s.
      obind (invoke run (ev_amp (r s) ev_error) (errorCallback (hdl s)) s) (\<lambda>s.
      obind (invoke run (ev_amp (r s) ev_except) (exceptCallback (hdl s)) s) (\<lambda>s.
      obind (invoke run (ev_amp (r s) ev_read \<or> ev_amp (r s) ev_rdhup) (readCallback (hdl s)) s) (\<lambda>s.
      invoke run (ev_amp (r s) ev_write) (writeCallback (hdl s)) s))))))"

subsection \<open>The poller\<close>

datatype ctl_op = EPOLL_CTL_ADD | EPOLL_CTL_MOD | EPOLL_CTL_DEL

record 'k os =
  os_epoll_ctl :: "ctl_op \<Rightarrow> int \<Rightarrow> 32 word \<Rightarrow> hid \<Rightarrow> 'k \<Rightarrow> errno option \<times> 'k"
  os_epoll_wait :: "nat \<Rightarrow> int \<Rightarrow> 'k \<Rightarrow> (errno + (32 word \<times> hid) list) \<times> 'k"
  os_eventfd_write :: "int \<Rightarrow> 64 word \<Rightarrow> 'k \<Rightarrow> int \<times> 'k"
  os_eventfd_read :: "int \<Rightarrow> 'k \<Rightarrow> int \<times> 'k"

record ('cb, 'k) epoll =
  ep_heap :: "hid \<Rightarrow> 'cb event_handler"
  ep_handlers :: "int \<rightharpoonup> hid"
  ep_events_size :: nat
  ep_kernel :: 'k
  ep_errors :: "errno list"

definition st_New :: int where "st_New = -1"
definition st_Added :: int where "st_Added = 1"
definition st_Delete :: int where "st_Delete = 2"

definition epoll_new :: "(hid \<Rightarrow> 'cb event_handler) \<Rightarrow> 'k \<Rightarrow> ('cb, 'k) epoll" where
  "epoll_new heap k = \<lparr>ep_heap = heap, ep_handlers = Map.empty, ep_events_size = 1024, ep_kernel = k,
     ep_errors = []\<rparr>"

definition upd_handler ::
  "hid \<Rightarrow> ('cb event_handler \<Rightarrow> 'cb event_handler) \<Rightarrow> ('cb, 'k) epoll \<Rightarrow> ('cb, 'k) epoll" where
  "upd_handler h f r = r\<lparr>ep_heap := (ep_heap r)(h := f (ep_heap r h))\<rparr>"

text \<open>The map operations of the base class.\<close>

definition get_event_handler :: "int \<Rightarrow> ('cb, 'k) epoll \<Rightarrow> hid outcome" where
  "get_event_handler fd r =
     (case ep_handlers r fd of None \<Rightarrow> Inl Assertion
      | Some h \<Rightarrow> assertC (h_fd (ep_heap r h) = fd) (Inr h))"

definition add_handler :: "hid \<Rightarrow> ('cb, 'k) epoll \<Rightarrow> ('cb, 'k) epoll outcome" where
  "add_handler h r =
     (let fd = h_fd (ep_heap r h)
      in assertC (ep_handlers r fd = None) (Inr (r\<lparr>ep_handlers := (ep_handlers r)(fd \<mapsto> h)\<rparr>)))"

definition remove_handler :: "hid \<Rightarrow> ('cb, 'k) epoll \<Rightarrow> ('cb, 'k) epoll outcome" where
  "remove_handler h r =
     (let fd = h_fd (ep_heap r h)
      in assertC (ep_handlers r fd \<noteq> None) (Inr (r\<lparr>ep_handlers := (ep_handlers r)(fd := None)\<rparr>)))"

definition has_handler :: "hid \<Rightarrow> ('cb, 'k) epoll \<Rightarrow> bool" where
  "has_handler h r \<longleftrightarrow> ep_handlers r (h_fd (ep_heap r h)) \<noteq> None"

text \<open>\<open>LOG_ERRNO\<close> is the list of the error numbers logged.\<close>

definition log_errno :: "errno \<Rightarrow> ('cb, 'k) epoll \<Rightarrow> ('cb, 'k) epoll" where
  "log_errno e r = r\<lparr>ep_errors := ep_errors r @ [e]\<rparr>"

definition operator_epoll :: "'k os \<Rightarrow> ctl_op \<Rightarrow> hid \<Rightarrow> ('cb, 'k) epoll \<Rightarrow> ('cb, 'k) epoll" where
  "operator_epoll os oper h r =
     (let hdl = ep_heap r h;
          (err, k) = os_epoll_ctl os oper (h_fd hdl) (ev_value (h_events hdl)) h (ep_kernel r);
          r = r\<lparr>ep_kernel := k\<rparr>
      in case err of None \<Rightarrow> r | Some e \<Rightarrow> if e \<noteq> EAGAIN then log_errno e r else r)"

definition add_listen :: "'k os \<Rightarrow> hid \<Rightarrow> ('cb, 'k) epoll \<Rightarrow> ('cb, 'k) epoll outcome" where
  "add_listen os h r =
     (let hdl = ep_heap r h in
      assertC (h_status hdl = st_New \<or> h_status hdl = st_Delete)
        (assertC (ep_handlers r (h_fd hdl) = None)
          (let r = r\<lparr>ep_handlers := (ep_handlers r)(h_fd hdl \<mapsto> h)\<rparr>;
               r = upd_handler h (set_status st_Added) r
           in Inr (operator_epoll os EPOLL_CTL_ADD h r))))"

definition update_listen :: "'k os \<Rightarrow> hid \<Rightarrow> ('cb, 'k) epoll \<Rightarrow> ('cb, 'k) epoll outcome" where
  "update_listen os h r =
     assertC (h_status (ep_heap r h) = st_Added)
       (assertC (has_handler h r) (Inr (operator_epoll os EPOLL_CTL_MOD h r)))"

definition remove_listen :: "'k os \<Rightarrow> hid \<Rightarrow> ('cb, 'k) epoll \<Rightarrow> ('cb, 'k) epoll outcome" where
  "remove_listen os h r =
     assertC (h_status (ep_heap r h) = st_Added)
       (assertC (has_handler h r)
         (obind (remove_handler h (operator_epoll os EPOLL_CTL_DEL h r))
           (\<lambda>r. Inr (upd_handler h (set_status st_Delete) r))))"

fun poll_results ::
  "(32 word \<times> hid) list \<Rightarrow> hid list \<Rightarrow> ('cb, 'k) epoll \<Rightarrow> (hid list \<times> ('cb, 'k) epoll) outcome" where
  "poll_results [] hs r = Inr (hs, r)"
| "poll_results ((revents, h) # es) hs r =
     obind (ev_of revents) (\<lambda>e. poll_results es (hs @ [h]) (upd_handler h (set_revent e) r))"

definition poll ::
  "'k os \<Rightarrow> int \<Rightarrow> hid list \<Rightarrow> ('cb, 'k) epoll \<Rightarrow> (hid list \<times> ('cb, 'k) epoll) outcome" where
  "poll os timeout hs r =
     (let (res, k) = os_epoll_wait os (ep_events_size r) timeout (ep_kernel r);
          r = r\<lparr>ep_kernel := k\<rparr>
      in case res of
           Inl e \<Rightarrow> Inr (hs, if e \<noteq> EAGAIN \<and> e \<noteq> EINTR then log_errno e r else r)
         | Inr ready \<Rightarrow>
             if ready = [] then Inr (hs, r)
             else obind (poll_results ready hs r) (\<lambda>(hs, r).
                  Inr (hs, if length ready = ep_events_size r
                           then r\<lparr>ep_events_size := ep_events_size r * 2\<rparr> else r)))"

lemmas [reactor_defs] =
  add_listen_def update_listen_def remove_listen_def has_handler_def remove_handler_def
  upd_handler_def set_status_def set_revent_def log_errno_def

subsection \<open>What a loop relies on: a map from descriptors to handlers\<close>

datatype listen_op = Add hid | Update hid | Remove hid

text \<open>The specification: adding needs a free descriptor, updating and removing need the handler
  to be the one watched; anything else is a failed assertion.\<close>

definition abs_listen :: "(hid \<Rightarrow> int) \<Rightarrow> listen_op \<Rightarrow> (int \<rightharpoonup> hid) \<Rightarrow> (int \<rightharpoonup> hid) outcome" where
  "abs_listen fd oper m = (case oper of
     Add h \<Rightarrow> assertC (m (fd h) = None) (Inr (m(fd h \<mapsto> h)))
   | Update h \<Rightarrow> assertC (m (fd h) = Some h) (Inr m)
   | Remove h \<Rightarrow> assertC (m (fd h) = Some h) (Inr (m(fd h := None))))"

definition listen ::
  "(hid \<Rightarrow> 's \<Rightarrow> 's outcome) \<Rightarrow> (hid \<Rightarrow> 's \<Rightarrow> 's outcome) \<Rightarrow> (hid \<Rightarrow> 's \<Rightarrow> 's outcome) \<Rightarrow>
   listen_op \<Rightarrow> 's \<Rightarrow> 's outcome" where
  "listen add update remove oper s =
     (case oper of Add h \<Rightarrow> add h s | Update h \<Rightarrow> update h s | Remove h \<Rightarrow> remove h s)"

locale poller =
  fixes inv :: "'s \<Rightarrow> bool" and watched :: "'s \<Rightarrow> int \<rightharpoonup> hid" and fd_of :: "'s \<Rightarrow> hid \<Rightarrow> int"
    and add update remove :: "hid \<Rightarrow> 's \<Rightarrow> 's outcome"
  assumes add_ok: "inv s \<Longrightarrow> watched s (fd_of s h) = None \<Longrightarrow>
      \<exists>s'. add h s = Inr s' \<and> inv s' \<and> fd_of s' = fd_of s \<and> watched s' = (watched s)(fd_of s h \<mapsto> h)"
    and add_busy: "inv s \<Longrightarrow> watched s (fd_of s h) \<noteq> None \<Longrightarrow> add h s = Inl Assertion"
    and update_ok: "inv s \<Longrightarrow> watched s (fd_of s h) = Some h \<Longrightarrow>
      \<exists>s'. update h s = Inr s' \<and> inv s' \<and> fd_of s' = fd_of s \<and> watched s' = watched s"
    and update_other: "inv s \<Longrightarrow> watched s (fd_of s h) \<noteq> Some h \<Longrightarrow> update h s = Inl Assertion"
    and remove_ok: "inv s \<Longrightarrow> watched s (fd_of s h) = Some h \<Longrightarrow>
      \<exists>s'. remove h s = Inr s' \<and> inv s' \<and> fd_of s' = fd_of s \<and> watched s' = (watched s)(fd_of s h := None)"
    and remove_other: "inv s \<Longrightarrow> watched s (fd_of s h) \<noteq> Some h \<Longrightarrow> remove h s = Inl Assertion"

context poller
begin

lemma listen_refines:
  assumes "inv s"
  shows "(\<exists>s'. listen add update remove oper s = Inr s' \<and> inv s' \<and> fd_of s' = fd_of s \<and>
      abs_listen (fd_of s) oper (watched s) = Inr (watched s')) \<or>
    (listen add update remove oper s = Inl Assertion \<and> abs_listen (fd_of s) oper (watched s) = Inl Assertion)"
proof (cases oper)
  case (Add h)
  then show ?thesis
    using add_ok [OF assms, of h] add_busy [OF assms, of h]
    by (cases "watched s (fd_of s h) = None") (auto simp: listen_def abs_listen_def)
next
  case (Update h)
  then show ?thesis
    using update_ok [OF assms, of h] update_other [OF assms, of h]
    by (cases "watched s (fd_of s h) = Some h") (auto simp: listen_def abs_listen_def)
next
  case (Remove h)
  then show ?thesis
    using remove_ok [OF assms, of h] remove_other [OF assms, of h]
    by (cases "watched s (fd_of s h) = Some h") (auto simp: listen_def abs_listen_def)
qed

lemma listen_run_refines:
  assumes "inv s"
  shows "(\<exists>s'. ofold (listen add update remove) opers s = Inr s' \<and> inv s' \<and> fd_of s' = fd_of s \<and>
      ofold (abs_listen (fd_of s)) opers (watched s) = Inr (watched s')) \<or>
    (ofold (listen add update remove) opers s = Inl Assertion \<and> ofold (abs_listen (fd_of s)) opers (watched s) = Inl Assertion)"
  using assms
proof (induction opers arbitrary: s)
  case Nil
  then show ?case by simp
next
  case (Cons oper opers)
  from listen_refines [OF Cons.prems, of oper] show ?case
  proof (elim disjE exE conjE)
    fix t
    assume "listen add update remove oper s = Inr t" "inv t" "fd_of t = fd_of s"
      "abs_listen (fd_of s) oper (watched s) = Inr (watched t)"
    then show ?thesis using Cons.IH [of t] by simp
  qed simp
qed

end

subsection \<open>Epoll keeps the contract\<close>

definition epoll_ctl_spec :: "'k os \<Rightarrow> ('k \<Rightarrow> int \<rightharpoonup> 32 word \<times> hid) \<Rightarrow> bool" where
  "epoll_ctl_spec os look \<longleftrightarrow> (\<forall>fd m h k.
     (look k fd = None \<longrightarrow> (\<exists>k'. os_epoll_ctl os EPOLL_CTL_ADD fd m h k = (None, k') \<and> look k' = (look k)(fd \<mapsto> (m, h)))) \<and>
     (look k fd \<noteq> None \<longrightarrow> (\<exists>k'. os_epoll_ctl os EPOLL_CTL_MOD fd m h k = (None, k') \<and> look k' = (look k)(fd \<mapsto> (m, h)))) \<and>
     (look k fd \<noteq> None \<longrightarrow> (\<exists>k'. os_epoll_ctl os EPOLL_CTL_DEL fd m h k = (None, k') \<and> look k' = (look k)(fd := None))))"

lemma epoll_ctl_specD:
  assumes "epoll_ctl_spec os look"
  shows "look k fd = None \<Longrightarrow>
      \<exists>k'. os_epoll_ctl os EPOLL_CTL_ADD fd m h k = (None, k') \<and> look k' = (look k)(fd \<mapsto> (m, h))"
    "look k fd \<noteq> None \<Longrightarrow>
      \<exists>k'. os_epoll_ctl os EPOLL_CTL_MOD fd m h k = (None, k') \<and> look k' = (look k)(fd \<mapsto> (m, h))"
    "look k fd \<noteq> None \<Longrightarrow>
      \<exists>k'. os_epoll_ctl os EPOLL_CTL_DEL fd m h k = (None, k') \<and> look k' = (look k)(fd := None)"
  using assms unfolding epoll_ctl_spec_def by blast+

text \<open>
  The invariant of the poller: a handler's status is one of the three constants and is Added
  exactly for the handlers in the map, filed under their descriptor; the kernel watches the same
  descriptors for the same handlers, with defined event bits only.
\<close>

definition ep_inv :: "('k \<Rightarrow> int \<rightharpoonup> 32 word \<times> hid) \<Rightarrow> ('cb, 'k) epoll \<Rightarrow> bool" where
  "ep_inv look r \<longleftrightarrow>
     (\<forall>h. h_status (ep_heap r h) \<in> {st_New, st_Added, st_Delete} \<and> ev_ok (h_events (ep_heap r h))) \<and>
     (\<forall>h. h_status (ep_heap r h) = st_Added \<longleftrightarrow> ep_handlers r (h_fd (ep_heap r h)) = Some h) \<and>
     (\<forall>fd h. ep_handlers r fd = Some h \<longrightarrow> h_fd (ep_heap r h) = fd) \<and>
     (\<forall>fd. map_option snd (look (ep_kernel r) fd) = ep_handlers r fd) \<and>
     (\<forall>fd m h. look (ep_kernel r) fd = Some (m, h) \<longrightarrow> ev_validate m)"

lemma ep_invI:
  assumes "\<And>h. h_status (ep_heap r h) \<in> {st_New, st_Added, st_Delete}"
    and "\<And>h. ev_ok (h_events (ep_heap r h))"
    and "\<And>h. h_status (ep_heap r h) = st_Added \<longleftrightarrow> ep_handlers r (h_fd (ep_heap r h)) = Some h"
    and "\<And>fd h. ep_handlers r fd = Some h \<Longrightarrow> h_fd (ep_heap r h) = fd"
    and "\<And>fd. map_option snd (look (ep_kernel r) fd) = ep_handlers r fd"
    and "\<And>fd m h. look (ep_kernel r) fd = Some (m, h) \<Longrightarrow> ev_validate m"
  shows "ep_inv look r"
  using assms unfolding ep_inv_def by blast

lemma ep_invD:
  assumes "ep_inv look r"
  shows "h_status (ep_heap r h) \<in> {st_New, st_Added, st_Delete}" "ev_ok (h_events (ep_heap r h))"
    "h_status (ep_heap r h) = st_Added \<longleftrightarrow> ep_handlers r (h_fd (ep_heap r h)) = Some h"
    "ep_handlers r fd = Some h \<Longrightarrow> h_fd (ep_heap r h) = fd"
    "map_option snd (look (ep_kernel r) fd) = ep_handlers r fd"
    "look (ep_kernel r) fd = Some (m, h) \<Longrightarrow> ev_validate m"
  using assms unfolding ep_inv_def by blast+

lemma ep_inv_watched:
  assumes "ep_inv look r"
  shows "ep_handlers r (h_fd (ep_heap r h)) = Some h \<longleftrightarrow> h_status (ep_heap r h) = st_Added"
    "h_status (ep_heap r h) \<noteq> st_Added \<Longrightarrow> h_status (ep_heap r h) = st_New \<or> h_status (ep_heap r h) = st_Delete"
  using assms by (auto simp: ep_inv_def)

lemma st_distinct [simp]: "st_New \<noteq> st_Added" "st_Delete \<noteq> st_Added" "st_Added \<noteq> st_New" "st_Added \<noteq> st_Delete"
  by (simp_all add: st_New_def st_Added_def st_Delete_def)

lemma add_listen_ok:
  assumes spec: "epoll_ctl_spec os look" and inv: "ep_inv look r"
    and free: "ep_handlers r (h_fd (ep_heap r h)) = None"
  shows "\<exists>r'. add_listen os h r = Inr r' \<and> ep_inv look r' \<and> ep_errors r' = ep_errors r \<and>
    (\<lambda>x. h_fd (ep_heap r' x)) = (\<lambda>x. h_fd (ep_heap r x)) \<and>
    ep_handlers r' = (ep_handlers r)(h_fd (ep_heap r h) \<mapsto> h) \<and>
    look (ep_kernel r') (h_fd (ep_heap r h)) = Some (ev_value (h_events (ep_heap r h)), h)"
proof -
  let ?hdl = "ep_heap r h"
  have st: "h_status ?hdl = st_New \<or> h_status ?hdl = st_Delete"
    using ep_inv_watched [OF inv, of h] free by auto
  have "look (ep_kernel r) (h_fd ?hdl) = None"
    using inv free unfolding ep_inv_def by (metis map_option_is_None)
  then obtain k' where k': "os_epoll_ctl os EPOLL_CTL_ADD (h_fd ?hdl) (ev_value (h_events ?hdl)) h (ep_kernel r) = (None, k')"
    "look k' = (look (ep_kernel r))(h_fd ?hdl \<mapsto> (ev_value (h_events ?hdl), h))"
    using epoll_ctl_specD(1) [OF spec] by blast
  let ?r = "r\<lparr>ep_heap := (ep_heap r)(h := ?hdl\<lparr>h_status := st_Added\<rparr>),
      ep_handlers := (ep_handlers r)(h_fd ?hdl \<mapsto> h), ep_kernel := k'\<rparr>"
  have "add_listen os h r = Inr ?r"
    using st free k' by (auto simp: add_listen_def operator_epoll_def upd_handler_def set_status_def Let_def)
  moreover have "ep_inv look ?r"
    using ep_invD [OF inv] k'(2) free st
    by (intro ep_invI) (auto simp: ev_ok_def ev_value_def split: if_splits)
  ultimately show ?thesis using k'(2) by (auto simp: fun_eq_iff)
qed

lemma watched_kernel:
  assumes "ep_inv look r" "ep_handlers r fd = Some h"
  shows "\<exists>m. look (ep_kernel r) fd = Some (m, h) \<and> ev_validate m"
proof -
  have "map_option snd (look (ep_kernel r) fd) = Some h" using assms by (auto simp: ep_inv_def)
  then obtain m where "look (ep_kernel r) fd = Some (m, h)" by auto
  with assms(1) show ?thesis unfolding ep_inv_def by blast
qed

lemma update_listen_ok:
  assumes spec: "epoll_ctl_spec os look" and inv: "ep_inv look r"
    and mine: "ep_handlers r (h_fd (ep_heap r h)) = Some h"
  shows "\<exists>r'. update_listen os h r = Inr r' \<and> ep_inv look r' \<and> ep_errors r' = ep_errors r \<and>
    ep_heap r' = ep_heap r \<and> ep_handlers r' = ep_handlers r \<and>
    look (ep_kernel r') (h_fd (ep_heap r h)) = Some (ev_value (h_events (ep_heap r h)), h)"
proof -
  let ?hdl = "ep_heap r h"
  have st: "h_status ?hdl = st_Added" using ep_inv_watched(1) [OF inv, of h] mine by simp
  have "look (ep_kernel r) (h_fd ?hdl) \<noteq> None" using watched_kernel [OF inv mine] by auto
  then obtain k' where k': "os_epoll_ctl os EPOLL_CTL_MOD (h_fd ?hdl) (ev_value (h_events ?hdl)) h (ep_kernel r) = (None, k')"
    "look k' = (look (ep_kernel r))(h_fd ?hdl \<mapsto> (ev_value (h_events ?hdl), h))"
    using epoll_ctl_specD(2) [OF spec] by blast
  have "update_listen os h r = Inr (r\<lparr>ep_kernel := k'\<rparr>)"
    using st mine k' by (auto simp: update_listen_def has_handler_def operator_epoll_def Let_def)
  moreover have "ep_inv look (r\<lparr>ep_kernel := k'\<rparr>)"
  proof (rule ep_invI, goal_cases)
    case (5 fd)
    show ?case using ep_invD(5) [OF inv, of fd] k'(2) mine by (cases "fd = h_fd ?hdl") simp_all
  next
    case (6 fd m x)
    then show ?case
      using ep_invD(6) [OF inv, of fd m x] ep_invD(2) [OF inv, of h] k'(2)
      by (cases "fd = h_fd ?hdl") (auto simp: ev_ok_def ev_value_def)
  qed (use ep_invD(1-4) [OF inv] in simp_all)
  ultimately show ?thesis using k'(2) by auto
qed

lemma remove_listen_ok:
  assumes spec: "epoll_ctl_spec os look" and inv: "ep_inv look r"
    and mine: "ep_handlers r (h_fd (ep_heap r h)) = Some h"
  shows "\<exists>r'. remove_listen os h r = Inr r' \<and> ep_inv look r' \<and> ep_errors r' = ep_errors r \<and>
    (\<lambda>x. h_fd (ep_heap r' x)) = (\<lambda>x. h_fd (ep_heap r x)) \<and>
    ep_handlers r' = (ep_handlers r)(h_fd (ep_heap r h) := None) \<and>
    look (ep_kernel r') (h_fd (ep_heap r h)) = None"
proof -
  let ?hdl = "ep_heap r h"
  have st: "h_status ?hdl = st_Added" using ep_inv_watched(1) [OF inv, of h] mine by simp
  have "look (ep_kernel r) (h_fd ?hdl) \<noteq> None" using watched_kernel [OF inv mine] by auto
  then obtain k' where k': "os_epoll_ctl os EPOLL_CTL_DEL (h_fd ?hdl) (ev_value (h_events ?hdl)) h (ep_kernel r) = (None, k')"
    "look k' = (look (ep_kernel r))(h_fd ?hdl := None)"
    using epoll_ctl_specD(3) [OF spec] by blast
  let ?r = "r\<lparr>ep_heap := (ep_heap r)(h := ?hdl\<lparr>h_status := st_Delete\<rparr>),
      ep_handlers := (ep_handlers r)(h_fd ?hdl := None), ep_kernel := k'\<rparr>"
  have "remove_listen os h r = Inr ?r"
    using st mine k'
    by (auto simp: remove_listen_def has_handler_def operator_epoll_def remove_handler_def
        upd_handler_def set_status_def Let_def)
  moreover have "ep_inv look ?r"
  proof (rule ep_invI, goal_cases)
    case (3 x)
    show ?case
      using ep_invD(3) [OF inv, of x] mine by (cases "x = h") auto
  next
    case (4 fd x)
    then show ?case using ep_invD(4) [OF inv, of fd x] by (auto split: if_splits)
  next
    case (6 fd m x)
    then show ?case using ep_invD(6) [OF inv, of fd m x] k'(2) by (simp split: if_splits)
  qed (use ep_invD(1,2,5) [OF inv] k'(2) in simp_all)
  ultimately show ?thesis using k'(2) by (auto simp: fun_eq_iff)
qed

lemma listen_refused:
  assumes "ep_inv look r"
  shows "ep_handlers r (h_fd (ep_heap r h)) \<noteq> None \<Longrightarrow> add_listen os h r = Inl Assertion"
    "ep_handlers r (h_fd (ep_heap r h)) \<noteq> Some h \<Longrightarrow> update_listen os h r = Inl Assertion"
    "ep_handlers r (h_fd (ep_heap r h)) \<noteq> Some h \<Longrightarrow> remove_listen os h r = Inl Assertion"
  using ep_inv_watched(1) [OF assms, of h]
  by (auto simp: add_listen_def update_listen_def remove_listen_def assertC_def Let_def)

interpretation ep: poller "\<lambda>r. epoll_ctl_spec os look \<and> ep_inv look r" ep_handlers
    "\<lambda>r h. h_fd (ep_heap r h)" "add_listen os" "update_listen os" "remove_listen os"
  for os :: "'k os" and look :: "'k \<Rightarrow> int \<rightharpoonup> 32 word \<times> hid"
proof unfold_locales
  fix r :: "('cb, 'k) epoll" and h
  assume i: "epoll_ctl_spec os look \<and> ep_inv look r"
  note refused = listen_refused [OF conjunct2 [OF i], of h]
  note ok = add_listen_ok update_listen_ok remove_listen_ok
  note ok = ok [OF conjunct1 [OF i] conjunct2 [OF i], of h]
  let ?w = "ep_handlers r (h_fd (ep_heap r h))"
  show "?w = None \<Longrightarrow> \<exists>s'. add_listen os h r = Inr s' \<and> (epoll_ctl_spec os look \<and> ep_inv look s') \<and>
      (\<lambda>x. h_fd (ep_heap s' x)) = (\<lambda>x. h_fd (ep_heap r x)) \<and>
      ep_handlers s' = (ep_handlers r)(h_fd (ep_heap r h) \<mapsto> h)"
    using ok(1) i by blast
  show "?w \<noteq> None \<Longrightarrow> add_listen os h r = Inl Assertion" by (rule refused(1))
  show "?w = Some h \<Longrightarrow> \<exists>s'. update_listen os h r = Inr s' \<and> (epoll_ctl_spec os look \<and> ep_inv look s') \<and>
      (\<lambda>x. h_fd (ep_heap s' x)) = (\<lambda>x. h_fd (ep_heap r x)) \<and> ep_handlers s' = ep_handlers r"
    using ok(2) i by fastforce
  show "?w \<noteq> Some h \<Longrightarrow> update_listen os h r = Inl Assertion" by (rule refused(2))
  show "?w = Some h \<Longrightarrow> \<exists>s'. remove_listen os h r = Inr s' \<and> (epoll_ctl_spec os look \<and> ep_inv look s') \<and>
      (\<lambda>x. h_fd (ep_heap s' x)) = (\<lambda>x. h_fd (ep_heap r x)) \<and>
      ep_handlers s' = (ep_handlers r)(h_fd (ep_heap r h) := None)"
    using ok(3) i by blast
  show "?w \<noteq> Some h \<Longrightarrow> remove_listen os h r = Inl Assertion" by (rule refused(3))
qed

subsection \<open>Dispatch\<close>

text \<open>The callbacks that a set of received events selects, in the order they run.\<close>

definition dispatch_list :: "'cb event_handler \<Rightarrow> 'cb list" where
  "dispatch_list h =
     (let e = (\<lambda>x. x \<in> ev_set (h_revents h)); cb = (\<lambda>c f. if c then (case f of None \<Rightarrow> [] | Some x \<Rightarrow> [x]) else [])
      in cb (e 4 \<and> \<not> e 0) (closeCallback h) @ cb (e 5) (errorCallback h) @ cb (e 3) (errorCallback h) @
         cb (e 1) (exceptCallback h) @ cb (e 0 \<or> e 6) (readCallback h) @ cb (e 2) (writeCallback h))"

lemma ev_amp_bit:
  "ev_amp e ev_hup \<longleftrightarrow> 4 \<in> ev_set e" "ev_amp e ev_read \<longleftrightarrow> 0 \<in> ev_set e"
  "ev_amp e ev_nval \<longleftrightarrow> 5 \<in> ev_set e" "ev_amp e ev_error \<longleftrightarrow> 3 \<in> ev_set e"
  "ev_amp e ev_except \<longleftrightarrow> 1 \<in> ev_set e" "ev_amp e ev_rdhup \<longleftrightarrow> 6 \<in> ev_set e"
  "ev_amp e ev_write \<longleftrightarrow> 2 \<in> ev_set e"
  by (simp_all add: ev_amp_def ev_has_set)

lemma invoke_ofold:
  "invoke run c cb s = ofold run (if c then (case cb of None \<Rightarrow> [] | Some f \<Rightarrow> [f]) else []) s"
  by (simp add: invoke_def split: option.split)

lemma ofold_keeps:
  assumes "\<And>f s s'. f \<in> set fs \<Longrightarrow> run f s = Inr s' \<Longrightarrow> v s' = v s" "ofold run fs s = Inr s'"
  shows "v s' = v s"
  by (rule ofold_invariant [where I = "\<lambda>t. v t = v s" and f = run and xs = fs])
    (use assms in \<open>auto\<close>)

lemma dispatch_order:
  assumes keep: "\<And>f s s'. run f s = Inr s' \<Longrightarrow> hdl s' = hdl s"
  shows "handler_revent hdl run s = ofold run (dispatch_list (hdl s)) s"
proof -
  have k: "hdl s' = hdl s" if "ofold run fs s = Inr s'" for fs s s'
    using ofold_keeps [where v = hdl, OF _ that] keep by blast
  show ?thesis
    by (simp add: handler_revent_def dispatch_list_def Let_def ev_amp_bit invoke_ofold ofold_append
        k cong: obind_cong)
qed

subsection \<open>Properties\<close>

text \<open>C14. The epoll poller implements a map from descriptors to handlers: any sequence of
  \<open>add_listen\<close>, \<open>update_listen\<close> and \<open>remove_listen\<close> either runs on the poller exactly as on the
  map, with the kernel's interest list following, or stops at the same assertion.\<close>

theorem epoll_refines_watch_map:
  assumes "epoll_ctl_spec os look" "ep_inv look r"
  shows "(\<exists>r'. ofold (listen (add_listen os) (update_listen os) (remove_listen os)) opers r = Inr r' \<and>
      ep_inv look r' \<and> (\<forall>fd. map_option snd (look (ep_kernel r') fd) = ep_handlers r' fd) \<and>
      ofold (abs_listen (\<lambda>h. h_fd (ep_heap r h))) opers (ep_handlers r) = Inr (ep_handlers r')) \<or>
    (ofold (listen (add_listen os) (update_listen os) (remove_listen os)) opers r = Inl Assertion \<and>
     ofold (abs_listen (\<lambda>h. h_fd (ep_heap r h))) opers (ep_handlers r) = Inl Assertion)"
  using ep.listen_run_refines [of os look r opers] assms ep_invD(5) by blast

text \<open>A kernel whose state is the interest list itself.\<close>

definition table_os :: "(int \<rightharpoonup> 32 word \<times> hid) os" where
  "table_os = \<lparr>os_epoll_ctl = (\<lambda>oper fd m h k. case oper of
       EPOLL_CTL_ADD \<Rightarrow> if k fd = None then (None, k(fd \<mapsto> (m, h))) else (Some (EOTHER 17), k)
     | EPOLL_CTL_MOD \<Rightarrow> if k fd = None then (Some (EOTHER 2), k) else (None, k(fd \<mapsto> (m, h)))
     | EPOLL_CTL_DEL \<Rightarrow> if k fd = None then (Some (EOTHER 2), k) else (None, k(fd := None))),
     os_epoll_wait = (\<lambda>n t k. (Inr [], k)), os_eventfd_write = (\<lambda>fd v k. (8, k)),
     os_eventfd_read = (\<lambda>fd k. (8, k))\<rparr>"

lemma table_os_spec: "epoll_ctl_spec table_os id"
  by (auto simp: epoll_ctl_spec_def table_os_def)

definition demo_epoll :: "(nat, int \<rightharpoonup> 32 word \<times> hid) epoll" where
  "demo_epoll = epoll_new (\<lambda>h. (handler_new \<lparr>ev_bits = ev_read\<rparr>)\<lparr>h_fd := int h + 3\<rparr>) Map.empty"

lemma demo_epoll_inv: "ep_inv id demo_epoll"
  by (rule ep_invI) (simp_all add: demo_epoll_def epoll_new_def handler_new_def ev_ok_def st_New_def st_Added_def)

theorem epoll_refines_watch_map_witness:
  "\<exists>r'. ofold (listen (add_listen table_os) (update_listen table_os) (remove_listen table_os))
      [Add 0, Add 1, Update 0, Remove 1] demo_epoll = Inr r' \<and>
    map_option snd (ep_kernel r' 3) = Some 0 \<and> map_option snd (ep_kernel r' 4) = None"
proof -
  have spec: "ofold (abs_listen (\<lambda>h. h_fd (ep_heap demo_epoll h))) [Add 0, Add 1, Update 0, Remove 1]
      (ep_handlers demo_epoll) = Inr [3 \<mapsto> 0]"
    by (simp add: demo_epoll_def epoll_new_def handler_new_def abs_listen_def fun_upd_twist)
  from epoll_refines_watch_map [OF table_os_spec demo_epoll_inv, of "[Add 0, Add 1, Update 0, Remove 1]"]
  obtain r' where "ofold (listen (add_listen table_os) (update_listen table_os) (remove_listen table_os))
      [Add 0, Add 1, Update 0, Remove 1] demo_epoll = Inr r'"
    "\<forall>fd. map_option snd (id (ep_kernel r') fd) = ep_handlers r' fd" "ep_handlers r' = [3 \<mapsto> 0]"
    unfolding spec by (metis Inr_inject Inr_not_Inl)
  then show ?thesis by (intro exI [of _ r']) (simp del: ofold.simps)
qed

text \<open>The event bits handed to the kernel are \<open>LogicEvent\<close>'s own: whatever the events of a
  handler (\<open>Edge\<close>, \<open>OneShot\<close> and \<open>RdHup\<close> included), no bit above the eighth ever reaches
  \<open>epoll_ctl\<close>. The kernel's \<open>EPOLLRDHUP\<close> (bit 13), \<open>EPOLLONESHOT\<close> (bit 30) and
  \<open>EPOLLET\<close> (bit 31) are therefore never requested: a handler built with \<open>Edge\<close> is level-triggered.\<close>

theorem edge_trigger_never_requested:
  assumes "epoll_ctl_spec os look" "ep_inv look r"
    and "ep_handlers r (h_fd (ep_heap r h)) = Some h"
  shows "\<exists>r' m. update_listen os h r = Inr r' \<and>
    look (ep_kernel r') (h_fd (ep_heap r h)) = Some (m, h) \<and> m = ev_value (h_events (ep_heap r h)) \<and>
    (\<forall>n \<ge> 9. \<not> bit m n)"
proof -
  have "ev_ok (h_events (ep_heap r h))" by (rule ep_invD(2) [OF assms(2)])
  then have "\<forall>n \<ge> 9. \<not> bit (ev_value (h_events (ep_heap r h))) n"
    by (auto simp: ev_ok_def ev_value_def ev_validate_bits)
  then show ?thesis using update_listen_ok [OF assms] by blast
qed

theorem edge_trigger_never_requested_witness:
  "\<exists>r r'. add_listen table_os 0 (demo_epoll\<lparr>ep_heap := (ep_heap demo_epoll)(0 :=
      (ep_heap demo_epoll 0)\<lparr>h_events := \<lparr>ev_bits = ev_edge\<rparr>\<rparr>)\<rparr>) = Inr r \<and>
    update_listen table_os 0 r = Inr r' \<and>
    (\<exists>m. ep_kernel r' 3 = Some (m, 0) \<and> \<not> bit m 31)"
proof -
  let ?r0 = "demo_epoll\<lparr>ep_heap := (ep_heap demo_epoll)(0 :=
      (ep_heap demo_epoll 0)\<lparr>h_events := \<lparr>ev_bits = ev_edge\<rparr>\<rparr>)\<rparr>"
  have inv0: "ep_inv id ?r0"
    by (rule ep_invI)
      (simp_all add: demo_epoll_def epoll_new_def handler_new_def ev_ok_def st_New_def st_Added_def)
  have fd: "h_fd (ep_heap ?r0 0) = 3" "ep_handlers ?r0 3 = None"
    by (simp_all add: demo_epoll_def epoll_new_def handler_new_def)
  obtain r where r: "add_listen table_os 0 ?r0 = Inr r" "ep_inv id r" "ep_handlers r 3 = Some 0"
    "h_fd (ep_heap r 0) = 3"
    using add_listen_ok [OF table_os_spec inv0, of 0] fd by (auto simp: fun_eq_iff)
  have "ep_handlers r (h_fd (ep_heap r 0)) = Some 0" using r by simp
  from edge_trigger_never_requested [OF table_os_spec r(2) this] r show ?thesis by auto
qed

text \<open>Dispatch: as long as callbacks leave the handler itself alone, \<open>handler_revent\<close> runs
  exactly the callbacks its received events select (close on a hang-up without data, error for an
  invalid descriptor and for an error, exception, read for data or a half close, write), once
  each, in that order, stopping at the first that fails.\<close>

theorem handler_revent_dispatches:
  assumes "\<And>f s s'. run f s = Inr s' \<Longrightarrow> hdl s' = hdl s"
  shows "handler_revent hdl run s = ofold run (dispatch_list (hdl s)) s"
  using assms by (rule dispatch_order)

theorem handler_revent_dispatches_witness:
  "handler_revent fst (\<lambda>c (h, tr). Inr (h, tr @ [c :: nat]))
     ((handler_new ev_default)\<lparr>h_revents := \<lparr>ev_bits = 0x14\<rparr>, closeCallback := Some 1, readCallback := Some 2,
        writeCallback := Some 3\<rparr>, []) =
   Inr ((handler_new ev_default)\<lparr>h_revents := \<lparr>ev_bits = 0x14\<rparr>, closeCallback := Some 1, readCallback := Some 2,
        writeCallback := Some 3\<rparr>, [1, 3])"
  (is "handler_revent fst ?run (?h, []) = _")
proof -
  have s: "ev_set \<lparr>ev_bits = 0x14\<rparr> = {4, 2}"
  proof -
    have "(0x14 :: 32 word) = ev_hup OR ev_write" by (simp add: ev_hup_def ev_write_def)
    then have "ev_set \<lparr>ev_bits = 0x14\<rparr> = le_set ev_hup \<union> le_set ev_write"
      by (simp only: ev_set_def le_set_def event.simps bit_or_iff) blast
    then show ?thesis by auto
  qed
  have keep: "\<And>f s s'. ?run f s = Inr s' \<Longrightarrow> fst s' = fst s" by auto
  show ?thesis
    using handler_revent_dispatches [where run = ?run and hdl = fst and s = "(?h, [])", OF keep] s
    by (simp add: dispatch_list_def Let_def handler_new_def)
qed

text \<open>\<open>isReadingAndExcept\<close> holds when either kind of event is watched.\<close>

lemma isReadingAndExcept_either: "isReadingAndExcept h \<longleftrightarrow> isReading h \<or> isExcept h"
proof -
  have "le_set (le_or ev_read ev_except) = le_set ev_read \<union> le_set ev_except"
    unfolding le_set_def le_or_def bit_or_iff by blast
  then show ?thesis by (auto simp: isReadingAndExcept_def isReading_def isExcept_def ev_amp_def ev_has_set)
qed

end
