(* ===== verification/Event_Loop.thy ===== *)
theory Event_Loop
  imports Epoll_Poller
begin

text \<open>
  \<open>Net/include/EventLoop.h\<close> and \<open>Net/src/EventLoop.cpp\<close>, and the methods of \<open>EventHandler\<close> that
  go through the loop. A closure put into the task queue is a value of \<open>task\<close>: the ones the
  library itself submits have a constructor each, the others are the user's. The code that runs
  when a callback or a user task is called, the kernel and the vendored task queue's
  \<open>try_dequeue\<close> are parameters, grouped in the record \<open>env\<close>. The thread that executes an
  operation is its argument \<open>tid\<close>.
\<close>

subsection \<open>State\<close>

datatype 'u task = T_add hid | T_update hid | T_remove hid | T_quit | T_user 'u

datatype 'c loop_cb = CB_wake | CB_user 'c

record ('u, 'c, 'k) event_loop =
  el_poller :: "('c loop_cb, 'k) epoll"
  el_id :: int
  el_active :: "hid list"
  el_functions :: "'u task list"
  el_thread :: nat
  el_status :: "32 word"
  el_wake :: hid

record ('u, 'c, 'k) env =
  env_os :: "'k os"
  env_callback :: "'c \<Rightarrow> ('u, 'c, 'k) event_loop \<Rightarrow> ('u, 'c, 'k) event_loop outcome"
  env_user :: "'u \<Rightarrow> ('u, 'c, 'k) event_loop \<Rightarrow> ('u, 'c, 'k) event_loop outcome"
  env_dequeue :: "'u task list \<Rightarrow> ('u task \<times> 'u task list) option"

definition ls_Init :: "32 word" where "ls_Init = push_bit 0 1"
definition ls_Looping :: "32 word" where "ls_Looping = push_bit 1 1"
definition ls_EventHandling :: "32 word" where "ls_EventHandling = push_bit 2 1"
definition ls_PendingFunctions :: "32 word" where "ls_PendingFunctions = push_bit 3 1"


definition isInLoopThread :: "nat \<Rightarrow> ('u, 'c, 'k) event_loop \<Rightarrow> bool" where
  "isInLoopThread tid l \<longleftrightarrow> tid = el_thread l"


definition CheckeEventLoopStatus :: "('u, 'c, 'k) event_loop \<Rightarrow> bool" where
  "CheckeEventLoopStatus l \<longleftrightarrow>
     \<not> (el_status l AND ls_EventHandling \<noteq> 0 \<and> el_status l AND ls_PendingFunctions \<noteq> 0) \<and>
     \<not> (el_status l AND ls_Init \<noteq> 0 \<and> el_status l \<noteq> ls_Init)"

subsection \<open>Tasks\<close>

definition on_poller ::
  "(('c loop_cb, 'k) epoll \<Rightarrow> ('c loop_cb, 'k) epoll outcome) \<Rightarrow> ('u, 'c, 'k) event_loop \<Rightarrow>
   ('u, 'c, 'k) event_loop outcome" where
  "on_poller f l = obind (f (el_poller l)) (\<lambda>p. Inr (l\<lparr>el_poller := p\<rparr>))"

definition wake_fd :: "('u, 'c, 'k) event_loop \<Rightarrow> int" where
  "wake_fd l = h_fd (ep_heap (el_poller l) (el_wake l))"

definition write_wake :: "('u, 'c, 'k) env \<Rightarrow> ('u, 'c, 'k) event_loop \<Rightarrow> ('u, 'c, 'k) event_loop outcome" where
  "write_wake env l =
     (let (n, k) = os_eventfd_write (env_os env) (wake_fd l) 1 (ep_kernel (el_poller l))
      in assertC (n = 8) (on_poller (\<lambda>p. Inr (p\<lparr>ep_kernel := k\<rparr>)) l))"

definition wakeup :: "('u, 'c, 'k) env \<Rightarrow> ('u, 'c, 'k) event_loop \<Rightarrow> ('u, 'c, 'k) event_loop outcome" where
  "wakeup env l =
     (if el_status l AND ls_EventHandling = 0 \<and> el_status l AND ls_PendingFunctions = 0
      then write_wake env l else Inr l)"

definition run_task ::
  "('u, 'c, 'k) env \<Rightarrow> nat \<Rightarrow> 'u task \<Rightarrow> ('u, 'c, 'k) event_loop \<Rightarrow> ('u, 'c, 'k) event_loop outcome" where
  "run_task env tid t l = (case t of
     T_add h \<Rightarrow> on_poller (add_listen (env_os env) h) l
   | T_update h \<Rightarrow> on_poller (update_listen (env_os env) h) l
   | T_remove h \<Rightarrow> on_poller (remove_listen (env_os env) h) l
   | T_quit \<Rightarrow> assertC (isInLoopThread tid l) (Inr (l\<lparr>el_status := el_status l AND NOT ls_Looping\<rparr>))
   | T_user u \<Rightarrow> env_user env u l)"

definition submit ::
  "('u, 'c, 'k) env \<Rightarrow> nat \<Rightarrow> 'u task \<Rightarrow> ('u, 'c, 'k) event_loop \<Rightarrow> ('u, 'c, 'k) event_loop outcome" where
  "submit env tid t l =
     (if isInLoopThread tid l then run_task env tid t l
      else wakeup env (l\<lparr>el_functions := el_functions l @ [t]\<rparr>))"

definition DelayedExecution ::
  "('u, 'c, 'k) env \<Rightarrow> 'u task \<Rightarrow> ('u, 'c, 'k) event_loop \<Rightarrow> ('u, 'c, 'k) event_loop outcome" where
  "DelayedExecution env t l = wakeup env (l\<lparr>el_functions := el_functions l @ [t]\<rparr>)"

definition el_quit :: "('u, 'c, 'k) env \<Rightarrow> nat \<Rightarrow> ('u, 'c, 'k) event_loop \<Rightarrow> ('u, 'c, 'k) event_loop outcome" where
  "el_quit env tid l =
     assertC (CheckeEventLoopStatus l) (obind (submit env tid T_quit l) (write_wake env))"

subsection \<open>Handlers and the loop\<close>

definition el_addListen ::
  "('u, 'c, 'k) env \<Rightarrow> nat \<Rightarrow> hid \<Rightarrow> ('u, 'c, 'k) event_loop \<Rightarrow> ('u, 'c, 'k) event_loop outcome" where
  "el_addListen env tid h l =
     (if isInLoopThread tid l then on_poller (add_listen (env_os env) h) l
      else submit env tid (T_add h) l)"

definition el_update_listen ::
  "('u, 'c, 'k) env \<Rightarrow> nat \<Rightarrow> hid \<Rightarrow> ('u, 'c, 'k) event_loop \<Rightarrow> ('u, 'c, 'k) event_loop outcome" where
  "el_update_listen env tid h l =
     (if isInLoopThread tid l then on_poller (update_listen (env_os env) h) l
      else submit env tid (T_update h) l)"

definition el_remove_listen ::
  "('u, 'c, 'k) env \<Rightarrow> nat \<Rightarrow> hid \<Rightarrow> ('u, 'c, 'k) event_loop \<Rightarrow> ('u, 'c, 'k) event_loop outcome" where
  "el_remove_listen env tid h l =
     (if isInLoopThread tid l then on_poller (remove_listen (env_os env) h) l
      else submit env tid (T_remove h) l)"

definition el_handler :: "hid \<Rightarrow> ('u, 'c, 'k) event_loop \<Rightarrow> 'c loop_cb event_handler" where
  "el_handler h l = ep_heap (el_poller l) h"

definition on_handler ::
  "hid \<Rightarrow> ('c loop_cb event_handler \<Rightarrow> 'c loop_cb event_handler) \<Rightarrow> ('u, 'c, 'k) event_loop \<Rightarrow>
   ('u, 'c, 'k) event_loop" where
  "on_handler h f l = l\<lparr>el_poller := upd_handler h f (el_poller l)\<rparr>"

text \<open>The constructor with a descriptor, and \<open>init\<close> of a default-constructed handler.\<close>

definition handler_construct ::
  "('u, 'c, 'k) env \<Rightarrow> nat \<Rightarrow> hid \<Rightarrow> int \<Rightarrow> event \<Rightarrow> ('u, 'c, 'k) event_loop \<Rightarrow>
   ('u, 'c, 'k) event_loop outcome" where
  "handler_construct env tid h fd e l =
     el_addListen env tid h (on_handler h (\<lambda>_. (handler_new e)\<lparr>h_fd := fd, h_loop := True\<rparr>) l)"

definition handler_init ::
  "('u, 'c, 'k) env \<Rightarrow> nat \<Rightarrow> hid \<Rightarrow> int \<Rightarrow> ('u, 'c, 'k) event_loop \<Rightarrow> ('u, 'c, 'k) event_loop outcome" where
  "handler_init env tid h fd l =
     assertC (fd \<noteq> -1)
       (el_addListen env tid h (on_handler h (\<lambda>x. x\<lparr>h_loop := True, h_fd := fd\<rparr>) l))"

definition handler_update ::
  "('u, 'c, 'k) env \<Rightarrow> nat \<Rightarrow> hid \<Rightarrow> ('u, 'c, 'k) event_loop \<Rightarrow> ('u, 'c, 'k) event_loop outcome" where
  "handler_update env tid h l = assertC (h_loop (el_handler h l)) (el_update_listen env tid h l)"

definition removeListen ::
  "('u, 'c, 'k) env \<Rightarrow> nat \<Rightarrow> hid \<Rightarrow> ('u, 'c, 'k) event_loop \<Rightarrow> ('u, 'c, 'k) event_loop outcome" where
  "removeListen env tid h l = assertC (h_loop (el_handler h l)) (el_remove_listen env tid h l)"

definition change_events ::
  "(event \<Rightarrow> event outcome) \<Rightarrow> ('u, 'c, 'k) env \<Rightarrow> nat \<Rightarrow> hid \<Rightarrow> ('u, 'c, 'k) event_loop \<Rightarrow>
   ('u, 'c, 'k) event_loop outcome" where
  "change_events f env tid h l =
     obind (f (h_events (el_handler h l))) (\<lambda>e.
     handler_update env tid h (on_handler h (\<lambda>x. x\<lparr>h_events := e\<rparr>) l))"

definition set_event where "set_event env tid h e = change_events (\<lambda>_. Inr e) env tid h"
definition setReading where "setReading = change_events (ev_add ev_read)"
definition cancelReading where "cancelReading = change_events (ev_remove ev_read)"
definition setWriting where "setWriting = change_events (ev_add ev_write)"
definition cancelWriting where "cancelWriting = change_events (ev_remove ev_write)"
definition setExcept where "setExcept = change_events (ev_add ev_except)"
definition cancelExcept where "cancelExcept = change_events (ev_remove ev_except)"
definition disableAll where "disableAll = change_events (ev_assign ev_none)"

definition setReadingAndExcept where
  "setReadingAndExcept env tid h l = obind (setExcept env tid h l) (setReading env tid h)"

definition cancelReadingAndExcept where
  "cancelReadingAndExcept env tid h l = obind (cancelExcept env tid h l) (cancelReading env tid h)"

subsection \<open>The loop\<close>


definition event_loop_new ::
  "('u, 'c, 'k) env \<Rightarrow> nat \<Rightarrow> int \<Rightarrow> (hid \<Rightarrow> 'c loop_cb event_handler) \<Rightarrow> 'k \<Rightarrow> hid \<Rightarrow> int \<Rightarrow>
   ('u, 'c, 'k) event_loop outcome" where
  "event_loop_new env tid lid heap k w efd =
     obind (ev_of (le_or ev_read ev_edge)) (\<lambda>e.
     obind (handler_construct env tid w efd e
       \<lparr>el_poller = epoll_new heap k, el_id = lid, el_active = [], el_functions = [], el_thread = tid,
        el_status = ls_Init, el_wake = w\<rparr>) (\<lambda>l.
     Inr (on_handler w (setReadCallBack CB_wake) l)))"

text \<open>
  The body of \<open>doPendingFunctions\<close>: the condition dequeues a task first and looks at the counter
  second; \<open>n\<close> is what is left of the budget of one hundred.
\<close>

fun pending_loop ::
  "('t \<Rightarrow> 's \<Rightarrow> 's outcome) \<Rightarrow> ('s \<Rightarrow> ('t \<times> 's) option) \<Rightarrow> nat \<Rightarrow> 's \<Rightarrow> 's outcome" where
  "pending_loop exec deq 0 s = (case deq s of None \<Rightarrow> Inr s | Some (t, s') \<Rightarrow> Inr s')"
| "pending_loop exec deq (Suc n) s =
     (case deq s of None \<Rightarrow> Inr s | Some (t, s') \<Rightarrow> obind (exec t s') (pending_loop exec deq n))"

definition try_dequeue ::
  "('u, 'c, 'k) env \<Rightarrow> ('u, 'c, 'k) event_loop \<Rightarrow> ('u task \<times> ('u, 'c, 'k) event_loop) option" where
  "try_dequeue env l =
     map_option (\<lambda>(t, q). (t, l\<lparr>el_functions := q\<rparr>)) (env_dequeue env (el_functions l))"

definition doPendingFunctions ::
  "('u, 'c, 'k) env \<Rightarrow> nat \<Rightarrow> ('u, 'c, 'k) event_loop \<Rightarrow> ('u, 'c, 'k) event_loop outcome" where
  "doPendingFunctions env tid l =
     assertC (isInLoopThread tid l)
       (obind (pending_loop (run_task env tid) (try_dequeue env) 100
                (l\<lparr>el_status := el_status l OR ls_PendingFunctions\<rparr>)) (\<lambda>l.
        Inr (l\<lparr>el_status := el_status l AND NOT ls_PendingFunctions\<rparr>)))"





subsection \<open>Draining a task queue in rounds\<close>

text \<open>
  What the drain loop relies on: a state holds a queue, tasks are taken from its front, and a
  task that does not touch the queue behaves the same whatever is in it.
\<close>

locale round_queue =
  fixes queue :: "'s \<Rightarrow> 't list" and set_queue :: "'t list \<Rightarrow> 's \<Rightarrow> 's"
    and deq :: "'s \<Rightarrow> ('t \<times> 's) option"
  assumes deq_front: "deq s = (case queue s of [] \<Rightarrow> None | t # ts \<Rightarrow> Some (t, set_queue ts s))"
    and queue_set: "queue (set_queue ts s) = ts"
    and set_set: "set_queue ts (set_queue us s) = set_queue ts s"
    and set_same: "set_queue (queue s) s = s"

definition queue_blind :: "('q list \<Rightarrow> 's \<Rightarrow> 's) \<Rightarrow> ('t \<Rightarrow> 's \<Rightarrow> 's outcome) \<Rightarrow> bool" where
  "queue_blind setq exec \<longleftrightarrow>
     (\<forall>t s ts. exec t (setq ts s) = obind (exec t s) (\<lambda>s'. Inr (setq ts s')))"

context round_queue
begin

lemma ofold_blind:
  assumes "queue_blind set_queue exec"
  shows "ofold exec xs (set_queue ts s) = obind (ofold exec xs s) (\<lambda>s'. Inr (set_queue ts s'))"
proof (induction xs arbitrary: s)
  case (Cons x xs)
  have "exec x (set_queue ts s) = obind (exec x s) (\<lambda>s'. Inr (set_queue ts s'))"
    using assms by (simp add: queue_blind_def)
  then show ?case by (simp add: obind_assoc Cons.IH cong: obind_cong)
qed simp

lemma pending_rounds:
  assumes blind: "queue_blind set_queue exec"
  shows "pending_loop exec deq n s =
    obind (ofold exec (take n (queue s)) s) (\<lambda>s'. Inr (set_queue (drop (Suc n) (queue s)) s'))"
proof (induction n arbitrary: s)
  case 0
  show ?case using set_same [of s] by (cases "queue s") (simp_all add: deq_front)
next
  case (Suc n)
  show ?case
  proof (cases "queue s")
    case Nil
    then show ?thesis using set_same [of s] by (simp add: deq_front)
  next
    case (Cons t ts)
    have "exec t (set_queue ts s) = obind (exec t s) (\<lambda>s'. Inr (set_queue ts s'))"
      using blind by (simp add: queue_blind_def)
    moreover have "deq s = Some (t, set_queue ts s)" using deq_front [of s] Cons by simp
    ultimately show ?thesis using Cons
      by (simp add: obind_assoc Suc.IH queue_set ofold_blind [OF blind] set_set cong: obind_cong)
  qed
qed

end

text \<open>The order of one producer: first in, first out.\<close>

definition fifo_dequeue :: "'t list \<Rightarrow> ('t \<times> 't list) option" where
  "fifo_dequeue q = (case q of [] \<Rightarrow> None | t # ts \<Rightarrow> Some (t, ts))"

abbreviation set_functions :: "'u task list \<Rightarrow> ('u, 'c, 'k) event_loop \<Rightarrow> ('u, 'c, 'k) event_loop" where
  "set_functions q l \<equiv> l\<lparr>el_functions := q\<rparr>"

interpretation lq: round_queue el_functions set_functions "try_dequeue (env\<lparr>env_dequeue := fifo_dequeue\<rparr>)"
  for env :: "('u, 'c, 'k) env"
  by unfold_locales (simp_all add: try_dequeue_def fifo_dequeue_def split: list.split)

lemma run_task_blind:
  assumes "queue_blind set_functions (env_user env)"
  shows "queue_blind set_functions (run_task env tid)"
  unfolding queue_blind_def
proof (intro allI)
  fix t l and ts :: "'a task list"
  show "run_task env tid t (set_functions ts l) = obind (run_task env tid t l) (\<lambda>l'. Inr (set_functions ts l'))"
  proof (cases t)
    case (T_user u)
    then show ?thesis using assms by (simp add: run_task_def queue_blind_def)
  qed (cases l, simp add: run_task_def on_poller_def obind_assoc assertC_def isInLoopThread_def)+
qed

lemma try_dequeue_fifo:
  "env_dequeue env = fifo_dequeue \<Longrightarrow> try_dequeue env = try_dequeue (env\<lparr>env_dequeue := fifo_dequeue\<rparr>)"
  by (simp add: try_dequeue_def fun_eq_iff)

lemma pending_functions_eq:
  assumes "el_thread l = tid" "env_dequeue env = fifo_dequeue"
    and "queue_blind set_functions (env_user env)"
  shows "doPendingFunctions env tid l =
    obind (ofold (run_task env tid) (take 100 (el_functions l))
            (l\<lparr>el_status := el_status l OR ls_PendingFunctions\<rparr>)) (\<lambda>l'.
    Inr (l'\<lparr>el_functions := drop 101 (el_functions l),
            el_status := el_status l' AND NOT ls_PendingFunctions\<rparr>))"
  using lq.pending_rounds [OF run_task_blind [OF assms(3), of tid], of env 100] assms(1)
  by (simp add: doPendingFunctions_def isInLoopThread_def try_dequeue_fifo [OF assms(2)] obind_assoc
      cong: obind_cong)

subsection \<open>Properties of the task queue\<close>

text \<open>C12. One call of \<open>doPendingFunctions\<close> runs the first hundred queued tasks in the order they
  were submitted; up to a hundred tasks are all run and the queue ends empty. With more, the
  hundred-and-first is taken from the queue and not run: the loop condition dequeues before
  it looks at the counter, so that task is lost.\<close>

theorem doPendingFunctions_runs_100_loses_next:
  assumes "el_thread l = tid" "env_dequeue env = fifo_dequeue"
    and "queue_blind set_functions (env_user env)"
  shows "doPendingFunctions env tid l =
    obind (ofold (run_task env tid) (take 100 (el_functions l))
            (l\<lparr>el_status := el_status l OR ls_PendingFunctions\<rparr>)) (\<lambda>l'.
    Inr (l'\<lparr>el_functions := drop 101 (el_functions l),
            el_status := el_status l' AND NOT ls_PendingFunctions\<rparr>))"
  using assms by (rule pending_functions_eq)

text \<open>An environment in which the user's tasks count themselves in the loop identifier.\<close>

definition count_env :: "(nat, nat, int \<rightharpoonup> 32 word \<times> hid) env" where
  "count_env = \<lparr>env_os = table_os, env_callback = (\<lambda>c l. Inr l),
     env_user = (\<lambda>u l. Inr (l\<lparr>el_id := el_id l + 1\<rparr>)), env_dequeue = fifo_dequeue\<rparr>"

definition demo_loop :: "nat task list \<Rightarrow> 32 word \<Rightarrow> (nat, nat, int \<rightharpoonup> 32 word \<times> hid) event_loop" where
  "demo_loop q st = \<lparr>el_poller = epoll_new (\<lambda>_. handler_new ev_default) Map.empty, el_id = 0, el_active = [],
     el_functions = q, el_thread = 7, el_status = st, el_wake = 0\<rparr>"

lemma count_env_blind: "queue_blind set_functions (env_user count_env)"
  by (simp add: queue_blind_def count_env_def)

lemma count_run:
  "ofold (run_task count_env 7) (map T_user us) l = Inr (l\<lparr>el_id := el_id l + int (length us)\<rparr>)"
proof (induction us arbitrary: l)
  case (Cons u us)
  show ?case by (simp add: run_task_def count_env_def Cons.IH [unfolded count_env_def run_task_def])
qed simp

theorem doPendingFunctions_runs_100_loses_next_witness:
  "\<exists>l'. doPendingFunctions count_env 7 (demo_loop (map T_user [0..<102]) ls_Looping) = Inr l' \<and>
     el_id l' = 100 \<and> el_functions l' = [T_user 101]"
proof -
  let ?l = "demo_loop (map T_user [0..<102]) ls_Looping"
  have "doPendingFunctions count_env 7 ?l =
    obind (ofold (run_task count_env 7) (take 100 (el_functions ?l))
            (?l\<lparr>el_status := el_status ?l OR ls_PendingFunctions\<rparr>)) (\<lambda>l'.
    Inr (l'\<lparr>el_functions := drop 101 (el_functions ?l), el_status := el_status l' AND NOT ls_PendingFunctions\<rparr>))"
    by (rule doPendingFunctions_runs_100_loses_next [OF _ _ count_env_blind])
      (simp_all add: demo_loop_def count_env_def)
  moreover have "take 100 (el_functions ?l) = map T_user [0..<100]" "drop 101 (el_functions ?l) = [T_user 101]"
    by (simp_all add: demo_loop_def take_map drop_map)
  ultimately show ?thesis by (simp add: count_run del: map_upt_Suc upt_rec_numeral) (simp add: demo_loop_def)
qed

subsection \<open>Leaving the loop\<close>














subsection \<open>Interest changes reach the kernel\<close>

lemma ep_inv_events:
  assumes "ep_inv look r" "ev_ok e"
  shows "ep_inv look (upd_handler h (\<lambda>x. x\<lparr>h_events := e\<rparr>) r)"
proof (rule ep_invI, goal_cases)
  case (2 x)
  then show ?case using ep_invD(2) [OF assms(1), of x] assms(2) by (simp add: upd_handler_def)
next
  case (3 x)
  then show ?case using ep_invD(3) [OF assms(1), of x] by (auto simp: upd_handler_def)
next
  case (4 fd x)
  then show ?case using ep_invD(4) [OF assms(1), of fd x] by (auto simp: upd_handler_def)
qed (use ep_invD(1,5,6) [OF assms(1)] in \<open>auto simp: upd_handler_def\<close>)

lemma change_events_ok:
  assumes "epoll_ctl_spec (env_os env) look" "ep_inv look (el_poller l)" "el_thread l = tid"
    and "ep_handlers (el_poller l) (h_fd (el_handler h l)) = Some h" "h_loop (el_handler h l)"
    and "f (h_events (el_handler h l)) = Inr e" "ev_ok e"
  shows "\<exists>l'. change_events f env tid h l = Inr l' \<and> ep_inv look (el_poller l') \<and>
    el_handler h l' = (el_handler h l)\<lparr>h_events := e\<rparr> \<and>
    look (ep_kernel (el_poller l')) (h_fd (el_handler h l)) = Some (ev_value e, h)"
proof -
  let ?p = "upd_handler h (\<lambda>x. x\<lparr>h_events := e\<rparr>) (el_poller l)"
  have inv: "ep_inv look ?p" by (rule ep_inv_events [OF assms(2,7)])
  have "ep_handlers ?p (h_fd (ep_heap ?p h)) = Some h"
    using assms(4) by (simp add: upd_handler_def el_handler_def)
  from update_listen_ok [OF assms(1) inv this]
  obtain p' where "update_listen (env_os env) h ?p = Inr p'" "ep_inv look p'" "ep_heap p' = ep_heap ?p"
    "look (ep_kernel p') (h_fd (ep_heap ?p h)) = Some (ev_value (h_events (ep_heap ?p h)), h)" by blast
  then show ?thesis
    using assms(3,5,6)
    by (simp add: change_events_def handler_update_def el_update_listen_def isInLoopThread_def on_handler_def
        on_poller_def el_handler_def upd_handler_def)
qed

text \<open>A handler's interest setters, called in the loop thread on a registered handler, reach the
  kernel: after \<open>setWriting\<close> the kernel watches the descriptor for the old events and writability,
  after \<open>cancelWriting\<close> for the old events without it, after \<open>disableAll\<close> for nothing.\<close>

theorem setters_reach_kernel:
  assumes "epoll_ctl_spec (env_os env) look" "ep_inv look (el_poller l)" "el_thread l = tid"
    and "ep_handlers (el_poller l) (h_fd (el_handler h l)) = Some h" "h_loop (el_handler h l)"
  defines "fd \<equiv> h_fd (el_handler h l)" and "old \<equiv> ev_set (h_events (el_handler h l))"
  shows "(\<exists>l' e. setWriting env tid h l = Inr l' \<and> ep_inv look (el_poller l') \<and>
      look (ep_kernel (el_poller l')) fd = Some (ev_value e, h) \<and> ev_set e = old \<union> {2}) \<and>
    (\<exists>l' e. cancelWriting env tid h l = Inr l' \<and> ep_inv look (el_poller l') \<and>
      look (ep_kernel (el_poller l')) fd = Some (ev_value e, h) \<and> ev_set e = old - {2}) \<and>
    (\<exists>l' e. disableAll env tid h l = Inr l' \<and> ep_inv look (el_poller l') \<and>
      look (ep_kernel (el_poller l')) fd = Some (ev_value e, h) \<and> ev_set e = {})"
proof -
  have old: "old \<subseteq> {..<9}"
    using ep_invD(2) [OF assms(2), of h] by (simp add: old_def ev_ok_set el_handler_def)
  note reach = change_events_ok [OF assms(1-5), folded fd_def]
  obtain e1 where e1: "ev_add ev_write (h_events (el_handler h l)) = Inr e1" "ev_set e1 = old \<union> {2}"
    using ev_set_ops(1) [of ev_write "h_events (el_handler h l)"] by (auto simp: old_def)
  obtain e2 where e2: "ev_remove ev_write (h_events (el_handler h l)) = Inr e2" "ev_set e2 = old - {2}"
    using ev_set_ops(2) [of ev_write "h_events (el_handler h l)"] by (auto simp: old_def)
  obtain e3 where e3: "ev_assign ev_none (h_events (el_handler h l)) = Inr e3" "ev_set e3 = {}"
    using ev_set_ops(3) [of ev_none "h_events (el_handler h l)"] by auto
  have ok: "ev_ok e1" "ev_ok e2" "ev_ok e3" using old e1(2) e2(2) e3(2) by (auto simp: ev_ok_set)
  show ?thesis
    unfolding setWriting_def cancelWriting_def disableAll_def
    using reach [of "ev_add ev_write", OF e1(1) ok(1)] reach [of "ev_remove ev_write", OF e2(1) ok(2)]
      reach [of "ev_assign ev_none", OF e3(1) ok(3)] e1(2) e2(2) e3(2) by blast
qed

theorem setters_reach_kernel_witness:
  "\<exists>l l' e. handler_init count_env 7 0 5 (demo_loop [] ls_Looping) = Inr l \<and>
     setWriting count_env 7 0 l = Inr l' \<and> ep_kernel (el_poller l') 5 = Some (ev_value e, 0) \<and> ev_set e = {2}"
proof -
  let ?l0 = "on_handler 0 (\<lambda>x. x\<lparr>h_loop := True, h_fd := 5\<rparr>) (demo_loop [] ls_Looping)"
  have inv0: "ep_inv id (el_poller ?l0)"
    by (rule ep_invI) (simp_all add: on_handler_def demo_loop_def upd_handler_def epoll_new_def handler_new_def
        ev_ok_def ev_default_def st_New_def st_Added_def)
  have h0: "h_fd (ep_heap (el_poller ?l0) 0) = 5" "ep_handlers (el_poller ?l0) = Map.empty"
    "ev_set (h_events (ep_heap (el_poller ?l0) 0)) = {}" "h_loop (ep_heap (el_poller ?l0) 0)"
    by (simp_all add: on_handler_def demo_loop_def upd_handler_def epoll_new_def handler_new_def
        ev_set_def ev_default_def ev_none_def)
  let ?p1 = "(el_poller ?l0)\<lparr>ep_heap := (ep_heap (el_poller ?l0))(0 := (ep_heap (el_poller ?l0) 0)\<lparr>h_status := st_Added\<rparr>),
      ep_handlers := [5 \<mapsto> 0], ep_kernel := [5 \<mapsto> (ev_value (h_events (ep_heap (el_poller ?l0) 0)), 0)]\<rparr>"
  have add: "add_listen table_os 0 (el_poller ?l0) = Inr ?p1"
    by (simp add: add_listen_def operator_epoll_def table_os_def on_handler_def demo_loop_def upd_handler_def
        epoll_new_def handler_new_def set_status_def Let_def st_New_def)
  then have init: "handler_init count_env 7 0 5 (demo_loop [] ls_Looping) = Inr (?l0\<lparr>el_poller := ?p1\<rparr>)"
    by (simp add: handler_init_def el_addListen_def isInLoopThread_def on_poller_def count_env_def)
      (simp add: demo_loop_def on_handler_def)
  have inv1: "ep_inv id ?p1"
    using add_listen_ok [OF table_os_spec inv0, of 0] add h0 by simp
  have os: "env_os count_env = table_os" by (simp add: count_env_def)
  have "\<exists>l' e. setWriting count_env 7 0 (?l0\<lparr>el_poller := ?p1\<rparr>) = Inr l' \<and>
     ep_kernel (el_poller l') 5 = Some (ev_value e, 0) \<and> ev_set e = {2}"
    using setters_reach_kernel [of count_env id "?l0\<lparr>el_poller := ?p1\<rparr>" 7 0] inv1 table_os_spec h0 os
    by (auto simp: el_handler_def on_handler_def demo_loop_def)
  with init show ?thesis by blast
qed

end
