(* ===== verification/Lock_Free_Queue.thy ===== *)
theory Lock_Free_Queue
  imports Event_Mask
begin

text \<open>
  \<open>Common/LockFreeCurcularQueue.h\<close> and \<open>Common/RingBuffer.h\<close>: the bounded multi-producer,
  multi-consumer ring and its wrapper. Positions are 64-bit words that wrap around; each atomic
  access of the source is one step of a thread, so that the same step function gives the
  sequential operations (a thread running alone) and the concurrent system (threads interleaved
  under sequential consistency, with spurious failures of the weak compare-and-exchange).
\<close>

subsection \<open>The ring\<close>

record 'a lfq =
  lf_enq :: "64 word"
  lf_deq :: "64 word"
  lf_slots :: "(64 word \<times> 'a) list"
  lf_mask :: "64 word"

definition roundUpToPowerOf2 :: "64 word \<Rightarrow> 64 word outcome" where
  "roundUpToPowerOf2 n =
     assertC (0 < n)
       (let n = n - 1; n = n OR drop_bit 1 n; n = n OR drop_bit 2 n; n = n OR drop_bit 4 n;
            n = n OR drop_bit 8 n; n = n OR drop_bit 16 n; n = n OR drop_bit 32 n
        in Inr (n + 1))"

definition lfq_new :: "'a \<Rightarrow> 64 word \<Rightarrow> 'a lfq outcome" where
  "lfq_new dflt capacity =
     obind (roundUpToPowerOf2 capacity) (\<lambda>n.
     Inr \<lparr>lf_enq = 0, lf_deq = 0, lf_slots = map (\<lambda>i. (of_nat i, dflt)) [0..<unat n], lf_mask = n - 1\<rparr>)"

definition lf_index :: "'a lfq \<Rightarrow> 64 word \<Rightarrow> nat" where
  "lf_index q pos = unat (pos AND lf_mask q)"

definition lf_seq :: "'a lfq \<Rightarrow> 64 word \<Rightarrow> 64 word" where
  "lf_seq q pos = fst (lf_slots q ! lf_index q pos)"

definition lf_data :: "'a lfq \<Rightarrow> 64 word \<Rightarrow> 'a" where
  "lf_data q pos = snd (lf_slots q ! lf_index q pos)"

definition set_seq :: "64 word \<Rightarrow> 64 word \<Rightarrow> 'a lfq \<Rightarrow> 'a lfq" where
  "set_seq pos sq q =
     q\<lparr>lf_slots := (lf_slots q)[lf_index q pos := (sq, snd (lf_slots q ! lf_index q pos))]\<rparr>"

definition set_data :: "64 word \<Rightarrow> 'a \<Rightarrow> 'a lfq \<Rightarrow> 'a lfq" where
  "set_data pos x q =
     q\<lparr>lf_slots := (lf_slots q)[lf_index q pos := (fst (lf_slots q ! lf_index q pos), x)]\<rparr>"

subsection \<open>One thread\<close>

text \<open>
  The program counter of a thread with its local variables. \<open>E\<close> states are in \<open>enqueueImpl\<close>, \<open>D\<close>
  states in \<open>dequeue\<close>: load the position, look at the slot's sequence, compare and exchange the
  position, move the data, publish the sequence, return.
\<close>

datatype 'a pc = Idle
  | ELoad 'a | ELoop 'a "64 word" | ECas 'a "64 word" | EWrite 'a "64 word" | EPub "64 word" | EDone bool
  | DLoad | DLoop "64 word" | DCas "64 word" | DRead "64 word" | DRel "64 word" 'a | DDone "'a option"

fun thread_step :: "bool \<Rightarrow> 'a pc \<Rightarrow> 'a lfq \<Rightarrow> 'a pc \<times> 'a lfq" where
  "thread_step spurious (ELoad x) q = (ELoop x (lf_enq q), q)"
| "thread_step spurious (ELoop x pos) q =
     (let dif = sint (lf_seq q pos - pos)
      in (if dif = 0 then ECas x pos else if dif < 0 then EDone False else ELoad x, q))"
| "thread_step spurious (ECas x pos) q =
     (if lf_enq q = pos \<and> \<not> spurious then (EWrite x pos, q\<lparr>lf_enq := pos + 1\<rparr>)
      else (ELoop x (lf_enq q), q))"
| "thread_step spurious (EWrite x pos) q = (EPub pos, set_data pos x q)"
| "thread_step spurious (EPub pos) q = (EDone True, set_seq pos (pos + 1) q)"
| "thread_step spurious DLoad q = (DLoop (lf_deq q), q)"
| "thread_step spurious (DLoop pos) q =
     (let dif = sint (lf_seq q pos - (pos + 1))
      in (if dif = 0 then DCas pos else if dif < 0 then DDone None else DLoad, q))"
| "thread_step spurious (DCas pos) q =
     (if lf_deq q = pos \<and> \<not> spurious then (DRead pos, q\<lparr>lf_deq := pos + 1\<rparr>)
      else (DLoop (lf_deq q), q))"
| "thread_step spurious (DRead pos) q = (DRel pos (lf_data q pos), q)"
| "thread_step spurious (DRel pos v) q = (DDone (Some v), set_seq pos (pos + of_nat (length (lf_slots q))) q)"
| "thread_step spurious p q = (p, q)"

text \<open>A thread that runs alone, for at most \<open>n\<close> steps.\<close>

fun run_alone :: "nat \<Rightarrow> 'a pc \<Rightarrow> 'a lfq \<Rightarrow> 'a pc \<times> 'a lfq" where
  "run_alone 0 p q = (p, q)"
| "run_alone (Suc n) p q = (case thread_step False p q of (p', q') \<Rightarrow> run_alone n p' q')"

text \<open>The operations as a caller sees them when no other thread interferes; five steps are enough
  when the ring is in a consistent state. A result that is not reached is False or None with the
  program counter left inside the loop.\<close>

definition lf_enqueue :: "'a \<Rightarrow> 'a lfq \<Rightarrow> bool \<times> 'a lfq" where
  "lf_enqueue x q = (case run_alone 5 (ELoad x) q of (p, q') \<Rightarrow> (p = EDone True, q'))"

definition lf_dequeue :: "'a lfq \<Rightarrow> 'a option \<times> 'a lfq" where
  "lf_dequeue q = (case run_alone 5 DLoad q of (p, q') \<Rightarrow> (case p of DDone r \<Rightarrow> r | _ \<Rightarrow> None, q'))"

definition lf_empty :: "'a lfq \<Rightarrow> bool" where
  "lf_empty q \<longleftrightarrow> lf_deq q = lf_enq q"

definition lf_full :: "'a lfq \<Rightarrow> bool" where
  "lf_full q \<longleftrightarrow> of_nat (length (lf_slots q)) \<le> lf_enq q - lf_deq q"

definition getRemainCapacity :: "'a lfq \<Rightarrow> 64 word" where
  "getRemainCapacity q = lf_enq q - lf_deq q"

subsection \<open>The wrapper \<open>RingBuffer\<close>\<close>

definition rb_new :: "'a \<Rightarrow> 64 word \<Rightarrow> 'a lfq outcome" where "rb_new = lfq_new"
definition rb_appendImpl :: "'a \<Rightarrow> 'a lfq \<Rightarrow> bool \<times> 'a lfq" where "rb_appendImpl = lf_enqueue"
definition rb_append :: "'a \<Rightarrow> 'a lfq \<Rightarrow> bool \<times> 'a lfq" where "rb_append = rb_appendImpl"
definition rb_retrieve :: "'a lfq \<Rightarrow> 'a option \<times> 'a lfq" where "rb_retrieve = lf_dequeue"
definition rb_empty :: "'a lfq \<Rightarrow> bool" where "rb_empty = lf_empty"
definition rb_full :: "'a lfq \<Rightarrow> bool" where "rb_full = lf_full"
definition rb_getRemainCapacity :: "'a lfq \<Rightarrow> 64 word" where "rb_getRemainCapacity = getRemainCapacity"

subsection \<open>Index arithmetic\<close>

definition ring_shape :: "nat \<Rightarrow> 'a lfq \<Rightarrow> bool" where
  "ring_shape k q \<longleftrightarrow> k \<le> 62 \<and> length (lf_slots q) = 2 ^ k \<and> lf_mask q = 2 ^ k - 1"

lemma lf_index_mod:
  assumes "ring_shape k q"
  shows "lf_index q pos = unat pos mod 2 ^ k"
proof -
  have "pos AND lf_mask q = take_bit k pos"
    using assms by (simp add: ring_shape_def take_bit_eq_mask mask_eq_exp_minus_1)
  moreover have "unat (take_bit k pos) = take_bit k (unat pos)" by (rule unsigned_take_bit_eq)
  ultimately show ?thesis unfolding lf_index_def by (simp only: take_bit_eq_mod)
qed

lemma unat_add_mod:
  assumes "k \<le> 64"
  shows "unat (a + of_nat i :: 64 word) mod 2 ^ k = (unat a + i) mod 2 ^ k"
proof -
  have "(2::nat) ^ k dvd 2 ^ 64" using assms by (rule le_imp_power_dvd)
  then have "(2::nat) ^ k dvd 18446744073709551616" by simp
  then show ?thesis
    by (simp add: unat_word_ariths unat_of_nat mod_mod_cancel mod_add_right_eq)
qed

lemma lf_index_less:
  assumes "ring_shape k q"
  shows "lf_index q pos < length (lf_slots q)"
  using assms lf_index_mod [OF assms] by (simp add: ring_shape_def)

lemma add_mod_inj:
  fixes i j m u :: nat
  assumes "i < m" "j < m" "(u + i) mod m = (u + j) mod m"
  shows "i = j"
proof -
  have *: "a = b" if "a \<le> b" "b < m" "(u + a) mod m = (u + b) mod m" for a b
  proof -
    have "m dvd (u + b) - (u + a)" using that by (metis add_le_cancel_left mod_eq_dvd_iff_nat)
    with that(1,2) show "a = b" by (auto dest: dvd_imp_le)
  qed
  show ?thesis using * [of i j] * [of j i] assms by (metis nat_le_linear)
qed

lemma lf_index_eq_iff:
  assumes "ring_shape k q" "i < 2 ^ k" "j < 2 ^ k"
  shows "lf_index q (pos + of_nat i) = lf_index q (pos + of_nat j) \<longleftrightarrow> i = j"
proof -
  have "k \<le> 64" using assms(1) by (simp add: ring_shape_def)
  then have "lf_index q (pos + of_nat i) = lf_index q (pos + of_nat j) \<longleftrightarrow>
      (unat pos + i) mod 2 ^ k = (unat pos + j) mod 2 ^ k"
    using lf_index_mod [OF assms(1)] unat_add_mod by simp
  also have "\<dots> \<longleftrightarrow> i = j"
    using add_mod_inj [OF assms(2,3)] by auto
  finally show ?thesis .
qed

text \<open>The signed difference of two positions that are less than \<open>2 ^ 63\<close> apart.\<close>

lemma sint_diff:
  assumes "- (2 ^ 63) \<le> d" "d < 2 ^ 63" "a - b = (of_int d :: 64 word)"
  shows "sint (a - b) = d"
  using assms by (simp add: sint_sbintrunc' signed_take_bit_int_eq_self)

lemma slot_update_simps:
  assumes "ring_shape k q"
  shows "ring_shape k (set_seq p v q)" "ring_shape k (set_data p x q)"
    "lf_index (set_seq p v q) p' = lf_index q p'" "lf_index (set_data p x q) p' = lf_index q p'"
    "lf_seq (set_seq p v q) p' = (if lf_index q p' = lf_index q p then v else lf_seq q p')"
    "lf_data (set_seq p v q) p' = lf_data q p'"
    "lf_seq (set_data p x q) p' = lf_seq q p'"
    "lf_data (set_data p x q) p' = (if lf_index q p' = lf_index q p then x else lf_data q p')"
    "lf_enq (set_seq p v q) = lf_enq q" "lf_enq (set_data p x q) = lf_enq q"
    "lf_deq (set_seq p v q) = lf_deq q" "lf_deq (set_data p x q) = lf_deq q"
    "length (lf_slots (set_seq p v q)) = length (lf_slots q)"
    "length (lf_slots (set_data p x q)) = length (lf_slots q)"
  using assms lf_index_less [OF assms]
  by (auto simp: set_seq_def set_data_def ring_shape_def lf_seq_def lf_data_def lf_index_def nth_list_update)

lemma pos_update_simps [simp]:
  "ring_shape k (q\<lparr>lf_enq := v\<rparr>) = ring_shape k q" "ring_shape k (q\<lparr>lf_deq := v\<rparr>) = ring_shape k q"
  "lf_index (q\<lparr>lf_enq := v\<rparr>) = lf_index q" "lf_index (q\<lparr>lf_deq := v\<rparr>) = lf_index q"
  "lf_seq (q\<lparr>lf_enq := v\<rparr>) = lf_seq q" "lf_seq (q\<lparr>lf_deq := v\<rparr>) = lf_seq q"
  "lf_data (q\<lparr>lf_enq := v\<rparr>) = lf_data q" "lf_data (q\<lparr>lf_deq := v\<rparr>) = lf_data q"
  by (auto simp: ring_shape_def lf_index_def lf_seq_def lf_data_def fun_eq_iff)

subsection \<open>The ring at rest\<close>

text \<open>
  No operation in flight, \<open>xs\<close> held: the slots from the dequeue position on carry the elements
  and the sequence after their position, the remaining ones carry their own position. Positions
  may wrap around.
\<close>

definition quiet :: "nat \<Rightarrow> 'a lfq \<Rightarrow> 'a list \<Rightarrow> bool" where
  "quiet k q xs \<longleftrightarrow> ring_shape k q \<and> length xs \<le> 2 ^ k \<and> lf_enq q = lf_deq q + of_nat (length xs) \<and>
     (\<forall>i < length xs. lf_seq q (lf_deq q + of_nat i) = lf_deq q + of_nat i + 1 \<and>
        lf_data q (lf_deq q + of_nat i) = xs ! i) \<and>
     (\<forall>i. length xs \<le> i \<and> i < 2 ^ k \<longrightarrow> lf_seq q (lf_deq q + of_nat i) = lf_deq q + of_nat i)"

lemma quietD:
  assumes "quiet k q xs"
  shows "ring_shape k q" "length xs \<le> 2 ^ k" "lf_enq q = lf_deq q + of_nat (length xs)"
    "i < length xs \<Longrightarrow> lf_seq q (lf_deq q + of_nat i) = lf_deq q + of_nat i + 1"
    "i < length xs \<Longrightarrow> lf_data q (lf_deq q + of_nat i) = xs ! i"
    "length xs \<le> i \<Longrightarrow> i < 2 ^ k \<Longrightarrow> lf_seq q (lf_deq q + of_nat i) = lf_deq q + of_nat i"
  using assms unfolding quiet_def by blast+

lemma quietI:
  assumes "ring_shape k q" "length xs \<le> 2 ^ k" "lf_deq q = d" "lf_enq q = d + of_nat (length xs)"
    and "\<And>i. i < length xs \<Longrightarrow> lf_seq q (d + of_nat i) = d + of_nat i + 1 \<and> lf_data q (d + of_nat i) = xs ! i"
    and "\<And>i. length xs \<le> i \<Longrightarrow> i < 2 ^ k \<Longrightarrow> lf_seq q (d + of_nat i) = d + of_nat i"
  shows "quiet k q xs"
  using assms unfolding quiet_def by blast

lemma lf_index_wrap: "ring_shape k q \<Longrightarrow> lf_index q (pos + of_nat (2 ^ k)) = lf_index q pos"
  using lf_index_mod [of k q] unat_add_mod [of k pos "2 ^ k"] by (simp add: ring_shape_def)

lemma enqueue_room:
  assumes "quiet k q xs" "length xs < 2 ^ k"
  shows "\<exists>q'. run_alone 5 (ELoad x) q = (EDone True, q') \<and> quiet k q' (xs @ [x])"
proof -
  note Q = quietD [OF assms(1)]
  define p where "p = lf_enq q"
  have p: "p = lf_deq q + of_nat (length xs)" using Q(3) by (simp add: p_def)
  define q1 where "q1 = q\<lparr>lf_enq := p + 1\<rparr>"
  let ?q = "set_seq p (p + 1) (set_data p x q1)"
  have seq: "lf_seq q p = p" using Q(6) [of "length xs"] p assms(2) by simp
  have "run_alone 5 (ELoad x) q = (EDone True, ?q)"
    using seq by (simp add: eval_nat_numeral p_def q1_def)
  moreover have "quiet k ?q (xs @ [x])"
  proof -
    have shape: "ring_shape k q1" using Q(1) by (simp add: q1_def)
    have q1: "lf_index q1 = lf_index q" "lf_seq q1 = lf_seq q" "lf_data q1 = lf_data q"
      "lf_enq q1 = p + 1" "lf_deq q1 = lf_deq q" by (simp_all add: q1_def)
    note upd = slot_update_simps [OF slot_update_simps(2) [OF shape]] slot_update_simps [OF shape] q1
    have idx: "lf_index q (lf_deq q + of_nat i) = lf_index q p \<longleftrightarrow> i = length xs" if "i < 2 ^ k" for i
      using lf_index_eq_iff [OF Q(1) that assms(2)] p by simp
    have "lf_seq ?q (lf_deq q + of_nat i) = lf_deq q + of_nat i + 1 \<and>
        lf_data ?q (lf_deq q + of_nat i) = (xs @ [x]) ! i" if "i < length (xs @ [x])" for i
    proof (cases "i = length xs")
      case True
      then show ?thesis using p by (simp add: upd)
    next
      case False
      then show ?thesis using that Q(4,5) [of i] idx [of i] assms(2) by (simp add: upd nth_append)
    qed
    moreover have "lf_seq ?q (lf_deq q + of_nat i) = lf_deq q + of_nat i"
      if "length (xs @ [x]) \<le> i" "i < 2 ^ k" for i
      using that Q(6) [of i] idx [of i] by (simp add: upd)
    moreover have "ring_shape k ?q" "lf_deq ?q = lf_deq q" by (simp_all add: upd)
    moreover have "lf_enq ?q = lf_deq q + of_nat (length (xs @ [x]))" using p by (simp add: upd)
    moreover have "length (xs @ [x]) \<le> 2 ^ k" using assms(2) by simp
    ultimately show ?thesis by (intro quietI)
  qed
  ultimately show ?thesis by blast
qed

lemma enqueue_full:
  assumes "quiet k q xs" "length xs = 2 ^ k" "0 < k"
  shows "run_alone 5 (ELoad x) q = (EDone False, q)"
proof -
  note Q = quietD [OF assms(1)]
  have "k \<le> 62" using Q(1) by (simp add: ring_shape_def)
  have "lf_seq q (lf_enq q) = lf_seq q (lf_deq q)"
    using Q(3) assms(2) lf_index_wrap [OF Q(1), of "lf_deq q"] by (simp add: lf_seq_def)
  also have "\<dots> = lf_deq q + 1" using Q(4) [of 0] assms(2) by simp
  finally have "lf_seq q (lf_enq q) - lf_enq q = of_int (1 - 2 ^ k)" using Q(3) assms(2) by simp
  moreover have "- (2 ^ 63) \<le> (1 - 2 ^ k :: int)" "(1 - 2 ^ k :: int) < 0"
  proof -
    have "(2::int) ^ k \<le> 2 ^ 62" using \<open>k \<le> 62\<close> by (intro power_increasing) simp_all
    moreover have "(1::int) < 2 ^ k" using assms(3) by (intro one_less_power) simp_all
    ultimately show "- (2 ^ 63) \<le> (1 - 2 ^ k :: int)" "(1 - 2 ^ k :: int) < 0" by simp_all
  qed
  ultimately have "sint (lf_seq q (lf_enq q) - lf_enq q) < 0"
    using sint_diff [of "1 - 2 ^ k" "lf_seq q (lf_enq q)" "lf_enq q"] by simp
  then show ?thesis by (simp add: eval_nat_numeral)
qed

lemma dequeue_some:
  assumes "quiet k q (x # xs)"
  shows "\<exists>q'. run_alone 5 DLoad q = (DDone (Some x), q') \<and> quiet k q' xs"
proof -
  note Q = quietD [OF assms]
  define p and n :: "64 word" where "p = lf_deq q" and "n = of_nat (2 ^ k)"
  define q1 where "q1 = q\<lparr>lf_deq := p + 1\<rparr>"
  let ?q = "set_seq p (p + n) q1"
  have seq: "lf_seq q p = p + 1" "lf_data q p = x" using Q(4,5) [of 0] by (simp_all add: p_def)
  have len: "of_nat (length (lf_slots q)) = n" using Q(1) by (simp add: ring_shape_def n_def)
  have "run_alone 5 DLoad q = (DDone (Some x), ?q)"
    using seq len by (simp add: eval_nat_numeral p_def q1_def)
  moreover have "quiet k ?q xs"
  proof -
    have shape: "ring_shape k q1" using Q(1) by (simp add: q1_def)
    have q1: "lf_index q1 = lf_index q" "lf_seq q1 = lf_seq q" "lf_data q1 = lf_data q"
      "lf_enq q1 = lf_enq q" "lf_deq q1 = p + 1" by (simp_all add: q1_def)
    note upd = slot_update_simps [OF shape] q1
    have pos: "p + 1 + of_nat i = p + of_nat (Suc i)" for i by simp
    have idx: "lf_index q (p + of_nat (Suc i)) = lf_index q p \<longleftrightarrow> Suc i = 2 ^ k" if "Suc i \<le> 2 ^ k" for i
    proof (cases "Suc i = 2 ^ k")
      case True
      then show ?thesis using lf_index_wrap [OF Q(1), of p] by (simp only: refl)
    next
      case False
      then show ?thesis using lf_index_eq_iff [OF Q(1), of "Suc i" 0 p] that by simp
    qed
    have le: "Suc (length xs) \<le> 2 ^ k" using Q(2) by simp
    have "lf_seq ?q (p + of_nat (Suc i)) = p + of_nat (Suc i) + 1 \<and> lf_data ?q (p + of_nat (Suc i)) = xs ! i"
      if "i < length xs" for i
      using that Q(4,5) [of "Suc i"] idx [of i] le by (simp add: upd p_def del: of_nat_Suc)
    moreover have "lf_seq ?q (p + of_nat (Suc i)) = p + of_nat (Suc i)" if "length xs \<le> i" "i < 2 ^ k" for i
    proof (cases "Suc i = 2 ^ k")
      case True
      then have "p + n = p + of_nat (Suc i)" by (simp only: n_def)
      then show ?thesis using idx [of i] True by (simp add: upd del: of_nat_Suc)
    next
      case False
      then show ?thesis using that Q(6) [of "Suc i"] idx [of i] by (simp add: upd p_def del: of_nat_Suc)
    qed
    moreover have "ring_shape k ?q" "lf_deq ?q = p + 1" by (simp_all add: upd)
    moreover have "lf_enq ?q = p + 1 + of_nat (length xs)" using Q(3) by (simp add: upd p_def)
    moreover have "length xs \<le> 2 ^ k" using le by simp
    ultimately show ?thesis unfolding pos [symmetric] by (intro quietI)
  qed
  ultimately show ?thesis by blast
qed

lemma dequeue_none:
  assumes "quiet k q []"
  shows "run_alone 5 DLoad q = (DDone None, q)"
proof -
  have "lf_seq q (lf_deq q) = lf_deq q" using quietD(6) [OF assms, of 0] by simp
  then have "lf_seq q (lf_deq q) - (lf_deq q + 1) = of_int (- 1)" by simp
  then have "sint (lf_seq q (lf_deq q) - (lf_deq q + 1)) = - 1" by (intro sint_diff) simp_all
  then show ?thesis by (simp add: eval_nat_numeral)
qed

subsection \<open>The contract of a bounded queue\<close>

datatype 'a ring_op = Enq 'a | Deq
datatype 'a ring_res = REnq bool | RDeq "'a option"

fun ring_run ::
  "('a \<Rightarrow> 'q \<Rightarrow> bool \<times> 'q) \<Rightarrow> ('q \<Rightarrow> 'a option \<times> 'q) \<Rightarrow> 'a ring_op list \<Rightarrow> 'q \<Rightarrow> 'a ring_res list \<times> 'q" where
  "ring_run enq deq [] q = ([], q)"
| "ring_run enq deq (Enq x # ops) q =
     (let (b, q') = enq x q; (rs, q'') = ring_run enq deq ops q' in (REnq b # rs, q''))"
| "ring_run enq deq (Deq # ops) q =
     (let (r, q') = deq q; (rs, q'') = ring_run enq deq ops q' in (RDeq r # rs, q''))"

text \<open>The specification: a list of at most \<open>n\<close> elements; a full queue refuses, an empty one has
  nothing to give.\<close>

fun ring_spec :: "nat \<Rightarrow> 'a ring_op list \<Rightarrow> 'a list \<Rightarrow> 'a ring_res list \<times> 'a list" where
  "ring_spec n [] xs = ([], xs)"
| "ring_spec n (Enq x # ops) xs =
     (if length xs < n then (let (rs, ys) = ring_spec n ops (xs @ [x]) in (REnq True # rs, ys))
      else (let (rs, ys) = ring_spec n ops xs in (REnq False # rs, ys)))"
| "ring_spec n (Deq # ops) xs =
     (case xs of [] \<Rightarrow> (let (rs, ys) = ring_spec n ops [] in (RDeq None # rs, ys))
      | x # xs \<Rightarrow> (let (rs, ys) = ring_spec n ops xs in (RDeq (Some x) # rs, ys)))"

locale bounded_fifo =
  fixes inv :: "'q \<Rightarrow> bool" and items :: "'q \<Rightarrow> 'a list" and cap :: "'q \<Rightarrow> nat"
    and enq :: "'a \<Rightarrow> 'q \<Rightarrow> bool \<times> 'q" and deq :: "'q \<Rightarrow> 'a option \<times> 'q"
  assumes enq_room: "inv q \<Longrightarrow> length (items q) < cap q \<Longrightarrow>
      \<exists>q'. enq x q = (True, q') \<and> inv q' \<and> items q' = items q @ [x] \<and> cap q' = cap q"
    and enq_full: "inv q \<Longrightarrow> \<not> length (items q) < cap q \<Longrightarrow> enq x q = (False, q)"
    and deq_some: "inv q \<Longrightarrow> items q = x # xs \<Longrightarrow>
      \<exists>q'. deq q = (Some x, q') \<and> inv q' \<and> items q' = xs \<and> cap q' = cap q"
    and deq_none: "inv q \<Longrightarrow> items q = [] \<Longrightarrow> deq q = (None, q)"

context bounded_fifo
begin

lemma run_refines:
  assumes "inv q"
  shows "\<exists>rs q'. ring_run enq deq ops q = (rs, q') \<and> inv q' \<and> cap q' = cap q \<and>
    ring_spec (cap q) ops (items q) = (rs, items q')"
  using assms
proof (induction ops arbitrary: q)
  case Nil
  then show ?case by simp
next
  case (Cons oper ops)
  show ?case
  proof (cases oper)
    case (Enq x)
    show ?thesis
    proof (cases "length (items q) < cap q")
      case True
      obtain q1 where "enq x q = (True, q1)" "inv q1" "items q1 = items q @ [x]" "cap q1 = cap q"
        using enq_room [OF Cons.prems True] by blast
      then show ?thesis using Cons.IH [of q1] True Enq by auto
    next
      case False
      then show ?thesis using Cons.IH [OF Cons.prems] enq_full [OF Cons.prems False] Enq by auto
    qed
  next
    case Deq
    show ?thesis
    proof (cases "items q")
      case Nil
      then show ?thesis using Cons.IH [OF Cons.prems] deq_none [OF Cons.prems Nil] Deq by auto
    next
      case (Cons x xs)
      obtain q1 where "deq q = (Some x, q1)" "inv q1" "items q1 = xs" "cap q1 = cap q"
        using deq_some [OF Cons.prems Cons] by blast
      then show ?thesis using Cons.IH [of q1] Deq Cons by auto
    qed
  qed
qed

end

subsection \<open>The ring keeps the contract\<close>

definition lf_items :: "'a lfq \<Rightarrow> 'a list" where
  "lf_items q = map (\<lambda>i. lf_data q (lf_deq q + of_nat i)) [0..<unat (lf_enq q - lf_deq q)]"

definition lf_inv :: "'a lfq \<Rightarrow> bool" where
  "lf_inv q \<longleftrightarrow> (\<exists>k > 0. quiet k q (lf_items q))"

lemma quiet_items:
  assumes "quiet k q xs"
  shows "lf_items q = xs" "unat (lf_enq q - lf_deq q) = length xs"
proof -
  note Q = quietD [OF assms]
  have "k \<le> 62" using Q(1) by (simp add: ring_shape_def)
  then have "(2::nat) ^ k \<le> 2 ^ 62" by (intro power_increasing) simp_all
  then have "length xs < 2 ^ 64" using Q(2) by simp
  then show len: "unat (lf_enq q - lf_deq q) = length xs"
    using Q(3) by (simp add: unat_of_nat)
  show "lf_items q = xs"
    by (rule nth_equalityI) (use len Q(5) in \<open>simp_all add: lf_items_def\<close>)
qed

lemma quiet_inv: "quiet k q xs \<Longrightarrow> 0 < k \<Longrightarrow> lf_inv q \<and> lf_items q = xs"
  using quiet_items(1) [of k q xs] by (auto simp: lf_inv_def)

lemma quiet_cap: "quiet k q xs \<Longrightarrow> length (lf_slots q) = 2 ^ k"
  by (simp add: quiet_def ring_shape_def)

interpretation rb: bounded_fifo lf_inv lf_items "\<lambda>q. length (lf_slots q)" rb_append rb_retrieve
proof unfold_locales
  fix q :: "'a lfq" and x xs
  assume "lf_inv q"
  then obtain k where k: "0 < k" "quiet k q (lf_items q)" by (auto simp: lf_inv_def)
  note defs = rb_append_def rb_appendImpl_def rb_retrieve_def lf_enqueue_def lf_dequeue_def
  show "length (lf_items q) < length (lf_slots q) \<Longrightarrow>
      \<exists>q'. rb_append x q = (True, q') \<and> lf_inv q' \<and> lf_items q' = lf_items q @ [x] \<and>
        length (lf_slots q') = length (lf_slots q)"
  proof -
    assume "length (lf_items q) < length (lf_slots q)"
    then obtain q' where "run_alone 5 (ELoad x) q = (EDone True, q')" "quiet k q' (lf_items q @ [x])"
      using enqueue_room [OF k(2)] quiet_cap [OF k(2)] by auto
    with quiet_inv [of k q'] quiet_cap [of k q'] quiet_cap [OF k(2)] k(1) show ?thesis by (auto simp: defs)
  qed
  show "\<not> length (lf_items q) < length (lf_slots q) \<Longrightarrow> rb_append x q = (False, q)"
  proof -
    assume "\<not> length (lf_items q) < length (lf_slots q)"
    then have "length (lf_items q) = 2 ^ k" using quietD(2) [OF k(2)] quiet_cap [OF k(2)] by simp
    from enqueue_full [OF k(2) this k(1)] show ?thesis by (simp add: defs)
  qed
  show "lf_items q = x # xs \<Longrightarrow>
      \<exists>q'. rb_retrieve q = (Some x, q') \<and> lf_inv q' \<and> lf_items q' = xs \<and> length (lf_slots q') = length (lf_slots q)"
  proof -
    assume "lf_items q = x # xs"
    then obtain q' where "run_alone 5 DLoad q = (DDone (Some x), q')" "quiet k q' xs"
      using dequeue_some k(2) by metis
    with quiet_inv [of k q'] quiet_cap [of k q'] quiet_cap [OF k(2)] k(1) show ?thesis by (auto simp: defs)
  qed
  show "lf_items q = [] \<Longrightarrow> rb_retrieve q = (None, q)"
    using dequeue_none [of k q] k(2) by (simp add: defs)
qed

subsection \<open>The capacity\<close>

lemma smear_step:
  fixes n m :: "64 word"
  assumes "\<And>i. bit n i \<longleftrightarrow> (\<exists>d < w. bit m (i + d))"
  shows "bit (n OR drop_bit w n) i \<longleftrightarrow> (\<exists>d < 2 * w. bit m (i + d))"
proof -
  have "bit (n OR drop_bit w n) i \<longleftrightarrow> (\<exists>d < w. bit m (i + d)) \<or> (\<exists>d < w. bit m (w + i + d))"
    by (simp add: bit_or_iff bit_drop_bit_eq assms)
  also have "\<dots> \<longleftrightarrow> (\<exists>d < 2 * w. bit m (i + d))" (is "?l \<longleftrightarrow> ?r")
  proof
    show "?l \<Longrightarrow> ?r"
    proof (elim disjE exE conjE)
      fix d assume "d < w" "bit m (i + d)"
      then show ?r by (intro exI [of _ d]) simp
    next
      fix d assume "d < w" "bit m (w + i + d)"
      then show ?r by (intro exI [of _ "w + d"]) (simp add: add.commute add.left_commute)
    qed
    assume ?r
    then obtain d where "d < 2 * w" "bit m (i + d)" by blast
    then show ?l
    proof (cases "d < w")
      case False
      then have "d - w < w" "w + i + (d - w) = i + d" using \<open>d < 2 * w\<close> by simp_all
      then have "\<exists>d < w. bit m (w + i + d)" using \<open>bit m (i + d)\<close> by metis
      then show ?thesis ..
    qed blast
  qed
  finally show ?thesis .
qed

lemma smear_bits:
  fixes m :: "64 word"
  defines "n1 \<equiv> m OR drop_bit 1 m"
  defines "n2 \<equiv> n1 OR drop_bit 2 n1"
  defines "n4 \<equiv> n2 OR drop_bit 4 n2"
  defines "n8 \<equiv> n4 OR drop_bit 8 n4"
  defines "n16 \<equiv> n8 OR drop_bit 16 n8"
  defines "n32 \<equiv> n16 OR drop_bit 32 n16"
  shows "bit n32 i \<longleftrightarrow> 2 ^ i \<le> unat m"
proof -
  have "bit n1 i \<longleftrightarrow> (\<exists>d < 2. bit m (i + d))" for i
    unfolding n1_def using smear_step [of m 1 m i] by simp
  then have "bit n2 i \<longleftrightarrow> (\<exists>d < 4. bit m (i + d))" for i
    unfolding n2_def using smear_step [of n1 2 m i] by simp
  then have "bit n4 i \<longleftrightarrow> (\<exists>d < 8. bit m (i + d))" for i
    unfolding n4_def using smear_step [of n2 4 m i] by simp
  then have "bit n8 i \<longleftrightarrow> (\<exists>d < 16. bit m (i + d))" for i
    unfolding n8_def using smear_step [of n4 8 m i] by simp
  then have "bit n16 i \<longleftrightarrow> (\<exists>d < 32. bit m (i + d))" for i
    unfolding n16_def using smear_step [of n8 16 m i] by simp
  then have "bit n32 i \<longleftrightarrow> (\<exists>d < 64. bit m (i + d))" for i
    unfolding n32_def using smear_step [of n16 32 m i] by simp
  then have "bit n32 i \<longleftrightarrow> (\<exists>d. bit m (i + d))"
    using bit_imp_le_length [of m] by fastforce
  also have "\<dots> \<longleftrightarrow> drop_bit i m \<noteq> 0"
  proof
    assume "\<exists>d. bit m (i + d)"
    then obtain d where "bit (drop_bit i m) d" by (auto simp: bit_drop_bit_eq)
    then show "drop_bit i m \<noteq> 0" by auto
  next
    assume "drop_bit i m \<noteq> 0"
    then obtain d where "bit (drop_bit i m) d" by (metis bit_eqI bit_0_eq bot_apply bot_bool_def)
    then show "\<exists>d. bit m (i + d)" by (auto simp: bit_drop_bit_eq)
  qed
  also have "\<dots> \<longleftrightarrow> unat m div 2 ^ i \<noteq> 0"
  proof -
    have "take_bit 64 (unat m) = unat m" using unsigned_less [of m] by (intro take_bit_nat_eq_self) simp
    then have "unat (drop_bit i m) = drop_bit i (unat m)" by (simp add: unsigned_drop_bit_eq)
    then have "unat (drop_bit i m) = unat m div 2 ^ i" by (simp only: drop_bit_eq_div)
    then show ?thesis by (metis unat_eq_zero unsigned_0)
  qed
  also have "\<dots> \<longleftrightarrow> 2 ^ i \<le> unat m" by (simp add: div_eq_0_iff not_less)
  finally show ?thesis .
qed

lemma roundUp_power:
  assumes "0 < n" "unat n \<le> 2 ^ 62"
  shows "\<exists>k \<le> 62. roundUpToPowerOf2 n = Inr (2 ^ k) \<and> unat n \<le> 2 ^ k \<and> (\<forall>j. unat n \<le> 2 ^ j \<longrightarrow> k \<le> j)"
proof -
  let ?m = "n - 1"
  define n1 n2 n4 n8 n16 n32 where d: "n1 = ?m OR drop_bit 1 ?m" "n2 = n1 OR drop_bit 2 n1"
    "n4 = n2 OR drop_bit 4 n2" "n8 = n4 OR drop_bit 8 n4" "n16 = n8 OR drop_bit 16 n8"
    "n32 = n16 OR drop_bit 32 n16"
  have bits: "bit n32 i \<longleftrightarrow> 2 ^ i \<le> unat ?m" for i unfolding d by (rule smear_bits)
  have m: "unat ?m = unat n - 1" using assms(1) by (metis unat_minus_one word_less_nat_alt not_less_zero unsigned_0)
  have pos: "0 < unat n" using assms(1) by (simp add: word_less_nat_alt)
  define k where "k = (LEAST k. unat n \<le> 2 ^ k)"
  have k: "unat n \<le> 2 ^ k" "\<And>j. unat n \<le> 2 ^ j \<Longrightarrow> k \<le> j"
    unfolding k_def using LeastI [of "\<lambda>k. unat n \<le> 2 ^ k", OF assms(2)] by (auto intro: Least_le)
  have le: "k \<le> 62" using k(2) assms(2) by blast
  have "2 ^ i \<le> unat ?m \<longleftrightarrow> i < k" for i
  proof -
    have "2 ^ i \<le> unat ?m \<longleftrightarrow> \<not> unat n \<le> 2 ^ i" using m pos by linarith
    also have "\<dots> \<longleftrightarrow> i < k"
    proof
      show "\<not> unat n \<le> 2 ^ i \<Longrightarrow> i < k"
      proof (rule ccontr)
        assume "\<not> unat n \<le> 2 ^ i" "\<not> i < k"
        then have "(2::nat) ^ k \<le> 2 ^ i" by (intro power_increasing) simp_all
        with k(1) \<open>\<not> unat n \<le> 2 ^ i\<close> show False by linarith
      qed
      show "i < k \<Longrightarrow> \<not> unat n \<le> 2 ^ i" using k(2) [of i] by linarith
    qed
    finally show ?thesis .
  qed
  then have "n32 = mask k" using le bits by (intro bit_eqI) (simp add: bit_mask_iff)
  then have "n32 + 1 = 2 ^ k" by (simp add: mask_eq_exp_minus_1)
  moreover have "roundUpToPowerOf2 n = Inr (n32 + 1)"
    using assms(1) by (simp add: roundUpToPowerOf2_def d Let_def)
  ultimately show ?thesis using k le by auto
qed

lemma lfq_new_quiet:
  assumes "1 < n" "unat n \<le> 2 ^ 62"
  obtains k q where "lfq_new dflt n = Inr q" "0 < k" "quiet k q []" "length (lf_slots q) = 2 ^ k"
    "unat n \<le> 2 ^ k" "\<forall>j. unat n \<le> 2 ^ j \<longrightarrow> k \<le> j"
proof -
  have "0 < n" "1 < unat n" using assms(1) by (auto simp: word_less_nat_alt intro: less_trans)
  then obtain k where k: "k \<le> 62" "roundUpToPowerOf2 n = Inr (2 ^ k)" "unat n \<le> 2 ^ k"
    "\<forall>j. unat n \<le> 2 ^ j \<longrightarrow> k \<le> j" using roundUp_power [OF _ assms(2)] by blast
  have k0: "0 < k" using k(3) \<open>1 < unat n\<close> by (cases k) simp_all
  have u: "unat (2 ^ k :: 64 word) = 2 ^ k"
  proof -
    have "(2::nat) ^ k < 2 ^ 64" using k(1) by (intro power_strict_increasing) simp_all
    then show ?thesis using unat_of_nat [of "2 ^ k", where 'a = 64] by simp
  qed
  define q where "q = \<lparr>lf_enq = 0, lf_deq = 0, lf_slots = map (\<lambda>i. (of_nat i :: 64 word, dflt)) [0..<2 ^ k],
      lf_mask = 2 ^ k - 1\<rparr>"
  have new: "lfq_new dflt n = Inr q" using k(2) u by (simp add: lfq_new_def q_def)
  have shape: "ring_shape k q" using k(1) by (simp add: ring_shape_def q_def)
  have "quiet k q []"
  proof (rule quietI [OF shape])
    fix i :: nat assume "i < 2 ^ k"
    moreover have "k \<le> 64" using k(1) by simp
    ultimately have "lf_index q (of_nat i) = i"
      using lf_index_mod [OF shape, of "of_nat i"] unat_add_mod [of k 0 i] by simp
    with \<open>i < 2 ^ k\<close> show "lf_seq q (0 + of_nat i) = 0 + of_nat i" by (simp add: lf_seq_def q_def)
  qed (simp_all add: q_def)
  from that [OF new k0 this quiet_cap [OF this] k(3,4)] show ?thesis .
qed

subsection \<open>Properties of sequential use\<close>

text \<open>C4. A ring of requested capacity \<open>n\<close> (at least two) holds the least power of two not below
  \<open>n\<close>, and used by one thread at a time it is exactly a bounded first-in-first-out queue: any
  sequence of \<open>append\<close> and \<open>retrieve\<close> returns what the list specification returns, also when
  the 64-bit positions wrap around.\<close>

theorem ring_refines_bounded_fifo:
  assumes "1 < n" "unat n \<le> 2 ^ 62"
  shows "\<exists>k q rs q'. rb_new dflt n = Inr q \<and> unat n \<le> 2 ^ k \<and> (\<forall>j. unat n \<le> 2 ^ j \<longrightarrow> k \<le> j) \<and>
    ring_run rb_append rb_retrieve ops q = (rs, q') \<and> ring_spec (2 ^ k) ops [] = (rs, lf_items q')"
proof -
  obtain k q where q: "lfq_new dflt n = Inr q" "0 < k" "quiet k q []" "length (lf_slots q) = 2 ^ k"
    "unat n \<le> 2 ^ k" "\<forall>j. unat n \<le> 2 ^ j \<longrightarrow> k \<le> j"
    by (rule lfq_new_quiet [OF assms])
  have inv: "lf_inv q" "lf_items q = []" using quiet_inv [OF q(3,2)] by simp_all
  obtain rs q' where "ring_run rb_append rb_retrieve ops q = (rs, q')"
    "ring_spec (length (lf_slots q)) ops (lf_items q) = (rs, lf_items q')"
    using rb.run_refines [OF inv(1), of ops] by blast
  with q inv(2) have "rb_new dflt n = Inr q \<and> unat n \<le> 2 ^ k \<and> (\<forall>j. unat n \<le> 2 ^ j \<longrightarrow> k \<le> j) \<and>
    ring_run rb_append rb_retrieve ops q = (rs, q') \<and> ring_spec (2 ^ k) ops [] = (rs, lf_items q')"
    unfolding rb_new_def by metis
  then show ?thesis by blast
qed

theorem ring_refines_bounded_fifo_witness:
  "\<exists>q q'. rb_new (0 :: nat) 2 = Inr q \<and>
     ring_run rb_append rb_retrieve [Enq 5, Enq 6, Enq 7, Deq, Enq 8, Deq, Deq, Deq] q =
       ([REnq True, REnq True, REnq False, RDeq (Some 5), REnq True, RDeq (Some 6), RDeq (Some 8), RDeq None], q')"
proof -
  let ?ops = "[Enq 5, Enq 6, Enq 7, Deq, Enq 8, Deq, Deq, Deq]"
  have two: "unat (2 :: 64 word) = 2" "(1 :: 64 word) < 2" by simp_all
  obtain k q rs q' where r: "rb_new (0 :: nat) 2 = Inr q" "(2 :: nat) \<le> 2 ^ k" "\<forall>j. (2 :: nat) \<le> 2 ^ j \<longrightarrow> k \<le> j"
    "ring_run rb_append rb_retrieve ?ops q = (rs, q')" "ring_spec (2 ^ k) ?ops [] = (rs, lf_items q')"
    using ring_refines_bounded_fifo [OF two(2), of "0 :: nat" ?ops] unfolding two by (metis one_le_numeral power_one_right self_le_power zero_less_numeral)
  have "k \<le> 1" using r(3) by simp
  then have "k = 1" using r(2) by (cases k) simp_all
  with r(5) have "rs = [REnq True, REnq True, REnq False, RDeq (Some 5), REnq True, RDeq (Some 6), RDeq (Some 8), RDeq None]"
    by simp
  with r(1,4) show ?thesis by blast
qed

text \<open>A ring at rest that wraps around at \<open>2 ^ 64\<close>: \<open>empty\<close>, \<open>full\<close> and \<open>getRemainCapacity\<close>
  are the tests and the number of the elements held (not of the free places).\<close>

theorem ring_sizes_at_rest:
  assumes "quiet k q xs"
  shows "(rb_empty q \<longleftrightarrow> xs = []) \<and> (rb_full q \<longleftrightarrow> length xs = 2 ^ k) \<and>
    unat (rb_getRemainCapacity q) = length xs"
proof -
  note Q = quietD [OF assms]
  have "k \<le> 62" using Q(1) by (simp add: ring_shape_def)
  then have "(2::nat) ^ k \<le> 2 ^ 62" by (intro power_increasing) simp_all
  then have n: "unat (of_nat (length (lf_slots q)) :: 64 word) = 2 ^ k"
    using quiet_cap [OF assms] by (simp add: unat_of_nat del: of_nat_power)
  have "xs = [] \<longleftrightarrow> unat (lf_enq q - lf_deq q) = 0" using quiet_items(2) [OF assms] by simp
  then have "xs = [] \<longleftrightarrow> lf_deq q = lf_enq q" by (metis unat_eq_zero eq_iff_diff_eq_0)
  then show ?thesis
    using quiet_items(2) [OF assms] n Q(2)
    by (auto simp: rb_empty_def lf_empty_def rb_full_def lf_full_def rb_getRemainCapacity_def
        getRemainCapacity_def word_le_nat_alt)
qed

definition demo_ring :: "nat lfq" where
  "demo_ring = \<lparr>lf_enq = 1, lf_deq = -1, lf_slots = [(1, 8), (0, 7)], lf_mask = 1\<rparr>"

theorem ring_sizes_at_rest_witness:
  "rb_full demo_ring \<and> \<not> rb_empty demo_ring \<and> unat (rb_getRemainCapacity demo_ring) = 2"
proof -
  have "quiet 1 demo_ring [7, 8]"
    by (rule quietI [where d = "-1"])
      (auto simp: ring_shape_def demo_ring_def lf_seq_def lf_data_def lf_index_def less_Suc_eq numeral_2_eq_2)
  from ring_sizes_at_rest [OF this] show ?thesis by simp
qed

text \<open>A ring of capacity one does not work: after one \<open>enqueue\<close> a second one is accepted as well
  and overwrites the first element, and then \<open>dequeue\<close> never returns.\<close>

theorem capacity_one_overwrites_and_hangs:
  "\<exists>q q1 q2. lfq_new dflt 1 = Inr q \<and> lf_enqueue x q = (True, q1) \<and> lf_enqueue y q1 = (True, q2) \<and>
     map snd (lf_slots q2) = [y] \<and> (\<forall>n. \<forall>r. fst (run_alone n DLoad q2) \<noteq> DDone r)"
proof -
  let ?q = "\<lparr>lf_enq = 0, lf_deq = 0, lf_slots = [(0, dflt)], lf_mask = 0\<rparr>"
  let ?q1 = "\<lparr>lf_enq = 1, lf_deq = 0, lf_slots = [(1, x)], lf_mask = 0\<rparr>"
  let ?q2 = "\<lparr>lf_enq = 2, lf_deq = 0, lf_slots = [(2, y)], lf_mask = 0\<rparr>"
  have new: "lfq_new dflt 1 = Inr ?q" by (simp add: lfq_new_def roundUpToPowerOf2_def)
  have e1: "lf_enqueue x ?q = (True, ?q1)" and e2: "lf_enqueue y ?q1 = (True, ?q2)"
    by (simp_all add: lf_enqueue_def eval_nat_numeral lf_seq_def lf_index_def set_data_def set_seq_def)
  have step: "thread_step False DLoad ?q2 = (DLoop 0, ?q2)" "thread_step False (DLoop 0) ?q2 = (DLoad, ?q2)"
    by (simp_all add: lf_seq_def lf_index_def)
  have spin: "fst (run_alone n p ?q2) \<in> {DLoad, DLoop 0}" if "p \<in> {DLoad, DLoop 0}" for n p
    using that
  proof (induction n arbitrary: p)
    case (Suc n)
    then show ?case using step by (cases "p = DLoad") (auto simp del: thread_step.simps)
  qed simp
  have "fst (run_alone n DLoad ?q2) \<noteq> DDone r" for n r using spin [of DLoad n] by auto
  with new e1 e2 show ?thesis by (intro exI [of _ ?q] exI [of _ ?q1] exI [of _ ?q2]) simp
qed

end
