(* ===== verification/Ring_Concurrency.thy ===== *)
theory Ring_Concurrency
  imports Lock_Free_Queue
begin

text \<open>
  The ring of \<open>Common/LockFreeCurcularQueue.h\<close> used by any number of threads at once. The first
  part is the argument on natural numbers: positions, the sequence of each slot, and which thread
  owns which position between its compare-and-exchange and its publication. The second part is
  the interleaving of the step function of \<open>Lock_Free_Queue\<close> and its invariant.
\<close>

subsection \<open>Positions and slots\<close>

lemma mod_window:
  fixes p q n :: nat
  assumes "p < q" "q < p + n"
  shows "p mod n \<noteq> q mod n"
proof
  assume "p mod n = q mod n"
  then have "(p + 0) mod n = (p + (q - p)) mod n" using assms by simp
  then have "0 = q - p" by (rule add_mod_inj [rotated 2]) (use assms in simp_all)
  with assms show False by simp
qed

text \<open>
  Of \<open>n\<close> slots, the positions from \<open>d\<close> to \<open>e\<close> are claimed by enqueuers and not yet by dequeuers.
  \<open>w t\<close> is the position thread \<open>t\<close> has claimed for writing and not published, \<open>r t\<close> the one it
  has claimed for reading and not released. \<open>hist\<close> lists the elements in the order of their
  positions.
\<close>

definition ring_core ::
  "nat \<Rightarrow> nat \<Rightarrow> nat \<Rightarrow> (nat \<Rightarrow> nat) \<Rightarrow> (nat \<Rightarrow> 'a) \<Rightarrow> 'a list \<Rightarrow> (nat \<Rightarrow> nat option) \<Rightarrow> (nat \<Rightarrow> nat option) \<Rightarrow> bool" where
  "ring_core n e d sq dat hist w r \<longleftrightarrow>
     1 < n \<and> length hist = e \<and> d \<le> e \<and> e \<le> d + n \<and>
     (\<forall>t p. w t = Some p \<longrightarrow> d \<le> p \<and> p < e \<and> sq (p mod n) = p) \<and>
     (\<forall>p. d \<le> p \<and> p < e \<and> (\<forall>t. w t \<noteq> Some p) \<longrightarrow> sq (p mod n) = p + 1 \<and> dat (p mod n) = hist ! p) \<and>
     (\<forall>t p. r t = Some p \<longrightarrow> p < d \<and> e \<le> p + n \<and> sq (p mod n) = p + 1 \<and> dat (p mod n) = hist ! p) \<and>
     (\<forall>p. e \<le> p \<and> p < d + n \<and> (\<forall>t p'. r t = Some p' \<longrightarrow> p \<noteq> p' + n) \<longrightarrow> sq (p mod n) = p) \<and>
     (\<forall>t t' p. w t = Some p \<and> w t' = Some p \<longrightarrow> t = t') \<and>
     (\<forall>t t' p. r t = Some p \<and> r t' = Some p \<longrightarrow> t = t')"

lemma ring_coreI:
  assumes "1 < n" "length hist = e" "d \<le> e" "e \<le> d + n"
    and "\<And>t p. w t = Some p \<Longrightarrow> d \<le> p \<and> p < e \<and> sq (p mod n) = p"
    and "\<And>p. d \<le> p \<Longrightarrow> p < e \<Longrightarrow> (\<And>t. w t \<noteq> Some p) \<Longrightarrow> sq (p mod n) = p + 1 \<and> dat (p mod n) = hist ! p"
    and "\<And>t p. r t = Some p \<Longrightarrow> p < d \<and> e \<le> p + n \<and> sq (p mod n) = p + 1 \<and> dat (p mod n) = hist ! p"
    and "\<And>p. e \<le> p \<Longrightarrow> p < d + n \<Longrightarrow> (\<And>t p'. r t = Some p' \<Longrightarrow> p \<noteq> p' + n) \<Longrightarrow> sq (p mod n) = p"
    and "\<And>t t' p. w t = Some p \<Longrightarrow> w t' = Some p \<Longrightarrow> t = t'"
    and "\<And>t t' p. r t = Some p \<Longrightarrow> r t' = Some p \<Longrightarrow> t = t'"
  shows "ring_core n e d sq dat hist w r"
  using assms unfolding ring_core_def by (intro conjI allI impI; blast)

lemma ring_coreD:
  assumes "ring_core n e d sq dat hist w r"
  shows "1 < n" "length hist = e" "d \<le> e" "e \<le> d + n"
    "w t = Some p \<Longrightarrow> d \<le> p" "w t = Some p \<Longrightarrow> p < e" "w t = Some p \<Longrightarrow> sq (p mod n) = p"
    "d \<le> p \<Longrightarrow> p < e \<Longrightarrow> (\<And>t. w t \<noteq> Some p) \<Longrightarrow> sq (p mod n) = p + 1"
    "d \<le> p \<Longrightarrow> p < e \<Longrightarrow> (\<And>t. w t \<noteq> Some p) \<Longrightarrow> dat (p mod n) = hist ! p"
    "r t = Some p \<Longrightarrow> p < d" "r t = Some p \<Longrightarrow> e \<le> p + n" "r t = Some p \<Longrightarrow> sq (p mod n) = p + 1"
    "r t = Some p \<Longrightarrow> dat (p mod n) = hist ! p"
    "e \<le> p \<Longrightarrow> p < d + n \<Longrightarrow> (\<And>t p'. r t = Some p' \<Longrightarrow> p \<noteq> p' + n) \<Longrightarrow> sq (p mod n) = p"
    "w t = Some p \<Longrightarrow> w t' = Some p \<Longrightarrow> t = t'"
    "r t = Some p \<Longrightarrow> r t' = Some p \<Longrightarrow> t = t'"
  using assms unfolding ring_core_def by blast+

text \<open>A slot that shows the position \<open>e\<close> is free; one that shows \<open>d + 1\<close> holds element \<open>d\<close>.\<close>

lemma free_slot:
  assumes core: "ring_core n e d sq dat hist w r" and "sq (e mod n) = e"
  shows "e < d + n" "r t = Some p \<Longrightarrow> e \<noteq> p + n"
proof -
  note C = ring_coreD [OF core]
  show "e < d + n"
  proof (rule ccontr)
    assume "\<not> e < d + n"
    then have e: "e = d + n" using C(4) by simp
    then have "sq (d mod n) = d + n" using assms(2) by simp
    moreover have "sq (d mod n) = d \<or> sq (d mod n) = d + 1"
    proof (cases "\<exists>t. w t = Some d")
      case True
      then show ?thesis using C(7) by blast
    next
      case False
      then show ?thesis using C(8) [of d] e C(1) by simp
    qed
    ultimately show False using C(1) by linarith
  qed
  show "e \<noteq> p + n" if "r t = Some p"
    using C(12) [OF that] assms(2) C(1) by auto
qed

lemma full_slot:
  assumes core: "ring_core n e d sq dat hist w r" and "sq (d mod n) = d + 1"
  shows "d < e" "w t \<noteq> Some d"
proof -
  note C = ring_coreD [OF core]
  show "w t \<noteq> Some d" using C(7) [of t d] assms(2) by auto
  show "d < e"
  proof (rule ccontr)
    assume "\<not> d < e"
    then have "e = d" using C(3) by simp
    have "d \<noteq> p' + n" if "r t = Some p'" for t p'
    proof
      assume "d = p' + n"
      then have "d mod n = p' mod n" by simp
      with C(12) [OF that] assms(2) \<open>d = p' + n\<close> C(1) show False by simp
    qed
    then have "sq (d mod n) = d" using C(14) [of d] \<open>e = d\<close> C(1) by simp
    with assms(2) show False by simp
  qed
qed

lemma core_claim_enq:
  assumes core: "ring_core n e d sq dat hist w r" and free: "sq (e mod n) = e" and "w t = None"
  shows "ring_core n (Suc e) d sq dat (hist @ [x]) (w(t := Some e)) r"
proof -
  note C = ring_coreD [OF core] and F = free_slot [OF core free]
  show ?thesis
  proof (rule ring_coreI, goal_cases)
    case (5 t' p)
    then show ?case using C(3) C(5,6,7) [of t' p] free by (auto split: if_splits)
  next
    case (6 p)
    have "p \<noteq> e" using 6(3) [of t] by auto
    moreover have "w t' \<noteq> Some p" for t' using 6(3) [of t'] assms(3) by (cases "t' = t") auto
    ultimately show ?case using C(8,9) [of p] 6(1,2) C(2) by (auto simp: nth_append)
  next
    case (7 t' p)
    then show ?case
      using C(2,3) C(10,11,12,13) [of t' p] F(2) [of t' p] by (auto simp: nth_append)
  next
    case (8 p)
    then show ?case using C(14) [of p] by simp
  next
    case (9 t1 t2 p)
    then show ?case using C(15) [of t1 p t2] C(6) [of t1 p] C(6) [of t2 p] by (auto split: if_splits)
  next
    case (10 t1 t2 p)
    then show ?case using C(16) by blast
  qed (use C(1,2,3) F(1) in simp_all)
qed

lemma core_write:
  assumes core: "ring_core n e d sq dat hist w r" and "w t = Some p"
  shows "ring_core n e d sq (dat(p mod n := x)) hist w r"
proof -
  note C = ring_coreD [OF core]
  note P = C(5-7) [OF assms(2)]
  show ?thesis
  proof (rule ring_coreI, goal_cases)
    case (6 p')
    have "p' \<noteq> p" using 6(3) [of t] assms(2) by auto
    moreover have "p' < p + n" "p < p' + n" using 6(1,2) P C(4) by simp_all
    ultimately have "p' mod n \<noteq> p mod n" using mod_window [of p' p n] mod_window [of p p' n] by linarith
    then show ?case using C(8,9) [OF 6] by simp
  next
    case (7 t' p')
    have "p' mod n \<noteq> p mod n" using mod_window [of p' p n] C(10,11) [OF 7] P by simp
    then show ?case using C(10,11,12,13) [OF 7] by simp
  qed (use C(1-7,14-16) in \<open>blast+\<close>)
qed

lemma core_publish:
  assumes core: "ring_core n e d sq dat hist w r" and "w t = Some p" "dat (p mod n) = hist ! p"
  shows "ring_core n e d (sq(p mod n := p + 1)) dat hist (w(t := None)) r"
proof -
  note C = ring_coreD [OF core]
  note P = C(5-7) [OF assms(2)]
  have other: "p' mod n \<noteq> p mod n" if "p' \<noteq> p" "e \<le> p' + n" "p' < d + n" for p'
    using that mod_window [of p' p n] mod_window [of p p' n] P by linarith
  show ?thesis
  proof (rule ring_coreI, goal_cases)
    case (5 t' p')
    then have w: "w t' = Some p'" "t' \<noteq> t" by (auto split: if_splits)
    then have "p' \<noteq> p" using C(15) assms(2) by blast
    then show ?case using C(5-7) [OF w(1)] other [of p'] C(4) by simp
  next
    case (6 p')
    show ?case
    proof (cases "p' = p")
      case False
      have "w t' \<noteq> Some p'" for t' using 6(3) [of t'] False assms(2) by (cases "t' = t") auto
      then show ?thesis using C(8,9) [of p'] 6 other [of p'] False C(4) by simp
    qed (use assms(3) in simp)
  next
    case (7 t' p')
    have "p' mod n \<noteq> p mod n" using other [of p'] C(10,11) [OF 7] P C(4) by simp
    then show ?case using C(10-13) [OF 7] by simp
  next
    case (8 p')
    then show ?case using C(14) [of p'] other [of p'] P by simp
  next
    case (9 t1 t2 p')
    then show ?case using C(15) by (auto split: if_splits)
  next
    case (10 t1 t2 p')
    then show ?case using C(16) by blast
  qed (use C(1-4) in simp_all)
qed

lemma core_claim_deq:
  assumes core: "ring_core n e d sq dat hist w r" and full: "sq (d mod n) = d + 1" and "r t = None"
  shows "ring_core n e (Suc d) sq dat hist w (r(t := Some d))"
proof -
  note C = ring_coreD [OF core] and F = full_slot [OF core full]
  show ?thesis
  proof (rule ring_coreI, goal_cases)
    case (5 t' p)
    then show ?case using C(5-7) [of t' p] F(2) [of t'] by (auto simp: le_less)
  next
    case (6 p)
    then show ?case using C(8,9) [of p] by simp
  next
    case (7 t' p)
    show ?case
    proof (cases "t' = t")
      case True
      then show ?thesis using 7 C(4) C(8,9) [of d] F by auto
    next
      case False
      then show ?thesis using 7 C(10-13) [of t' p] by simp
    qed
  next
    case (8 p)
    have "p \<noteq> d + n" using 8(3) [of t d] by simp
    moreover have "p \<noteq> p' + n" if "r t' = Some p'" for t' p'
      using 8(3) [of t' p'] that assms(3) by (cases "t' = t") simp_all
    ultimately show ?case using C(14) [of p] 8(1,2) by simp
  next
    case (9 t1 t2 p)
    then show ?case using C(15) by blast
  next
    case (10 t1 t2 p)
    then show ?case using C(16) [of t1 p t2] C(10) [of t1 p] C(10) [of t2 p] by (auto split: if_splits)
  qed (use C(1,2,3,4) F(1) in simp_all)
qed

lemma core_release:
  assumes core: "ring_core n e d sq dat hist w r" and "r t = Some p"
  shows "ring_core n e d (sq(p mod n := p + n)) dat hist w (r(t := None))"
proof -
  note C = ring_coreD [OF core]
  note P = C(10-13) [OF assms(2)]
  have other: "p' mod n \<noteq> p mod n" if "p' \<noteq> p" "e \<le> p' + n" "p' < e" for p'
    using that mod_window [of p' p n] mod_window [of p p' n] P C(3) by linarith
  show ?thesis
  proof (rule ring_coreI, goal_cases)
    case (5 t' p')
    then show ?case using C(5-7) [OF 5] other [of p'] P C(4) by simp
  next
    case (6 p')
    then show ?case using C(8,9) [of p'] other [of p'] P C(4) by simp
  next
    case (7 t' p')
    then have r: "r t' = Some p'" "t' \<noteq> t" by (auto split: if_splits)
    then have "p' \<noteq> p" using C(16) assms(2) by blast
    then show ?case using C(10-13) [OF r(1)] other [of p'] C(3) by simp
  next
    case (8 p')
    show ?case
    proof (cases "p' = p + n")
      case False
      have "p' mod n \<noteq> p mod n"
        using mod_window [of "p + n" p' n] mod_window [of p' "p + n" n] False 8(1,2) P C(3)
        by (cases "p' < p + n") auto
      moreover have "p' \<noteq> p'' + n" if "r t' = Some p''" for t' p''
        using 8(3) [of t' p''] that False assms(2) by (cases "t' = t") auto
      ultimately show ?thesis using C(14) [of p'] 8(1,2) by simp
    qed simp
  next
    case (9 t1 t2 p')
    then show ?case using C(15) by blast
  next
    case (10 t1 t2 p')
    then show ?case using C(16) by (auto split: if_splits)
  qed (use C(1-4) in simp_all)
qed

subsection \<open>The system\<close>

record 'a ring_sys =
  rs_q :: "'a lfq"
  rs_pc :: "nat \<Rightarrow> 'a pc"
  rs_hist :: "'a list"
  rs_got :: "(nat \<times> 'a) list"

fun writes :: "'a pc \<Rightarrow> nat option" where
  "writes (EWrite x pos) = Some (unat pos)"
| "writes (EPub pos) = Some (unat pos)"
| "writes _ = None"

fun reads :: "'a pc \<Rightarrow> nat option" where
  "reads (DRead pos) = Some (unat pos)"
| "reads (DRel pos v) = Some (unat pos)"
| "reads _ = None"

text \<open>
  The history of elements grows when a compare-and-exchange of the enqueue position succeeds; a
  dequeue is recorded with its position when it releases its slot.
\<close>

fun hist_step :: "'a pc \<Rightarrow> 'a pc \<Rightarrow> 'a list \<Rightarrow> 'a list" where
  "hist_step (ECas x pos) (EWrite y pos') h = h @ [x]"
| "hist_step _ _ h = h"

fun got_step :: "'a pc \<Rightarrow> (nat \<times> 'a) list \<Rightarrow> (nat \<times> 'a) list" where
  "got_step (DRel pos v) g = g @ [(unat pos, v)]"
| "got_step _ g = g"

fun in_call :: "'a pc \<Rightarrow> bool" where
  "in_call Idle = False"
| "in_call (EDone b) = False"
| "in_call (DDone r) = False"
| "in_call _ = True"

inductive ring_step :: "'a ring_sys \<Rightarrow> 'a ring_sys \<Rightarrow> bool" where
  call_enqueue: "rs_pc s t = Idle \<Longrightarrow> ring_step s (s\<lparr>rs_pc := (rs_pc s)(t := ELoad x)\<rparr>)"
| call_dequeue: "rs_pc s t = Idle \<Longrightarrow> ring_step s (s\<lparr>rs_pc := (rs_pc s)(t := DLoad)\<rparr>)"
| ret: "\<not> in_call (rs_pc s t) \<Longrightarrow> ring_step s (s\<lparr>rs_pc := (rs_pc s)(t := Idle)\<rparr>)"
| run: "in_call (rs_pc s t) \<Longrightarrow> thread_step spurious (rs_pc s t) (rs_q s) = (p, q) \<Longrightarrow>
    ring_step s \<lparr>rs_q = q, rs_pc = (rs_pc s)(t := p), rs_hist = hist_step (rs_pc s t) p (rs_hist s),
      rs_got = got_step (rs_pc s t) (rs_got s)\<rparr>"

text \<open>Reachable states, as long as fewer than \<open>2 ^ 63\<close> elements have been enqueued.\<close>

inductive ring_reach :: "nat \<Rightarrow> 'a ring_sys \<Rightarrow> bool" for k where
  init: "quiet k q [] \<Longrightarrow> lf_deq q = 0 \<Longrightarrow>
    ring_reach k \<lparr>rs_q = q, rs_pc = (\<lambda>_. Idle), rs_hist = [], rs_got = []\<rparr>"
| step: "ring_reach k s \<Longrightarrow> ring_step s s' \<Longrightarrow> length (rs_hist s') < 2 ^ 63 \<Longrightarrow> ring_reach k s'"

subsection \<open>The invariant\<close>

definition slot_sq :: "'a lfq \<Rightarrow> nat \<Rightarrow> nat" where
  "slot_sq q i = unat (fst (lf_slots q ! i))"

definition slot_dat :: "'a lfq \<Rightarrow> nat \<Rightarrow> 'a" where
  "slot_dat q i = snd (lf_slots q ! i)"

text \<open>What a thread knows, from its local variables, about the shared state.\<close>

fun pc_knows :: "nat \<Rightarrow> nat \<Rightarrow> nat \<Rightarrow> (nat \<Rightarrow> nat) \<Rightarrow> (nat \<Rightarrow> 'a) \<Rightarrow> 'a list \<Rightarrow> 'a pc \<Rightarrow> bool" where
  "pc_knows n e d sq dat hist (ELoop x pos) = (unat pos \<le> e)"
| "pc_knows n e d sq dat hist (ECas x pos) = (unat pos \<le> e \<and> (unat pos = e \<longrightarrow> sq (e mod n) = e))"
| "pc_knows n e d sq dat hist (EWrite x pos) = (hist ! unat pos = x)"
| "pc_knows n e d sq dat hist (EPub pos) = (dat (unat pos mod n) = hist ! unat pos)"
| "pc_knows n e d sq dat hist (DLoop pos) = (unat pos \<le> d)"
| "pc_knows n e d sq dat hist (DCas pos) = (unat pos \<le> d \<and> (unat pos = d \<longrightarrow> sq (d mod n) = d + 1))"
| "pc_knows n e d sq dat hist (DRel pos v) = (v = hist ! unat pos)"
| "pc_knows n e d sq dat hist _ = True"

definition got_inv :: "nat \<Rightarrow> 'a list \<Rightarrow> (nat \<Rightarrow> nat option) \<Rightarrow> (nat \<times> 'a) list \<Rightarrow> bool" where
  "got_inv d hist r got \<longleftrightarrow> distinct (map fst got) \<and> (\<forall>(p, v) \<in> set got. p < d \<and> v = hist ! p) \<and>
     (\<forall>p < d. p \<in> fst ` set got \<longleftrightarrow> (\<forall>t. r t \<noteq> Some p))"

definition sys_inv :: "nat \<Rightarrow> 'a ring_sys \<Rightarrow> bool" where
  "sys_inv k s \<longleftrightarrow>
     (let q = rs_q s; e = unat (lf_enq q); d = unat (lf_deq q);
          w = (\<lambda>t. writes (rs_pc s t)); r = (\<lambda>t. reads (rs_pc s t)) in
      ring_shape k q \<and> e < 2 ^ 63 \<and>
      ring_core (2 ^ k) e d (slot_sq q) (slot_dat q) (rs_hist s) w r \<and>
      (\<forall>t. pc_knows (2 ^ k) e d (slot_sq q) (slot_dat q) (rs_hist s) (rs_pc s t)) \<and>
      got_inv d (rs_hist s) r (rs_got s))"

lemma slot_views:
  assumes "ring_shape k q"
  shows "unat (lf_seq q pos) = slot_sq q (unat pos mod 2 ^ k)" "lf_data q pos = slot_dat q (unat pos mod 2 ^ k)"
    "slot_sq (set_seq pos v q) = (slot_sq q)(unat pos mod 2 ^ k := unat v)"
    "slot_dat (set_seq pos v q) = slot_dat q" "slot_sq (set_data pos x q) = slot_sq q"
    "slot_dat (set_data pos x q) = (slot_dat q)(unat pos mod 2 ^ k := x)"
  using lf_index_mod [OF assms, of pos] lf_index_less [OF assms, of pos]
  by (auto simp: lf_seq_def lf_data_def slot_sq_def slot_dat_def set_seq_def set_data_def fun_eq_iff nth_list_update)

lemma slot_views_pos [simp]:
  "slot_sq (q\<lparr>lf_enq := v\<rparr>) = slot_sq q" "slot_sq (q\<lparr>lf_deq := v\<rparr>) = slot_sq q"
  "slot_dat (q\<lparr>lf_enq := v\<rparr>) = slot_dat q" "slot_dat (q\<lparr>lf_deq := v\<rparr>) = slot_dat q"
  by (auto simp: slot_sq_def slot_dat_def fun_eq_iff)

subsection \<open>What other threads know stays true\<close>

lemma knows_claim_enq:
  assumes "pc_knows n e d sq dat hist p" "length hist = e"
    and "\<And>i. writes p = Some i \<Longrightarrow> i < e" "\<And>i. reads p = Some i \<Longrightarrow> i < e"
  shows "pc_knows n (Suc e) d sq dat (hist @ [x]) p"
  using assms by (cases p) (auto simp: nth_append)

lemma knows_claim_deq:
  assumes "pc_knows n e d sq dat hist p"
  shows "pc_knows n e (Suc d) sq dat hist p"
  using assms by (cases p) auto

lemma knows_write:
  assumes "pc_knows n e d sq dat hist p'" "\<And>i. writes p' = Some i \<Longrightarrow> i mod n \<noteq> p mod n"
  shows "pc_knows n e d sq (dat(p mod n := x)) hist p'"
  using assms by (cases p') auto

lemma knows_publish:
  assumes core: "ring_core n e d sq dat hist w r" and "w t = Some p" and "pc_knows n e d sq dat hist p'"
  shows "pc_knows n e d (sq(p mod n := v)) dat hist p'"
proof -
  note C = ring_coreD [OF core]
  note P = C(5-7) [OF assms(2)]
  have "e mod n \<noteq> p mod n" if "sq (e mod n) = e"
    using mod_window [of p e n] free_slot(1) [OF core that] P by simp
  moreover have "d mod n \<noteq> p mod n" if "sq (d mod n) = d + 1"
    using mod_window [of d p n] full_slot(2) [OF core that, of t] assms(2) P C(4) by (cases "p = d") simp_all
  ultimately show ?thesis using assms(3) by (cases p') auto
qed

lemma knows_release:
  assumes core: "ring_core n e d sq dat hist w r" and "r t = Some p" and "pc_knows n e d sq dat hist p'"
  shows "pc_knows n e d (sq(p mod n := v)) dat hist p'"
proof -
  note C = ring_coreD [OF core]
  note P = C(10-13) [OF assms(2)]
  have "e mod n \<noteq> p mod n" if "sq (e mod n) = e"
    using mod_window [of p e n] free_slot(2) [OF core that assms(2)] P C(3) by simp
  moreover have "d mod n \<noteq> p mod n" if "sq (d mod n) = d + 1"
    using mod_window [of p d n] full_slot(1) [OF core that] P by simp
  ultimately show ?thesis using assms(3) by (cases p') auto
qed

subsection \<open>Every step keeps the invariant\<close>

lemma upd_owner:
  "(\<lambda>u. writes ((pc(t := p)) u)) = (\<lambda>u. writes (pc u))(t := writes p)"
  "(\<lambda>u. reads ((pc(t := p)) u)) = (\<lambda>u. reads (pc u))(t := reads p)"
  by (simp_all add: fun_eq_iff)

lemma sys_invD:
  assumes "sys_inv k s"
  shows "ring_shape k (rs_q s)" "unat (lf_enq (rs_q s)) < 2 ^ 63"
    "ring_core (2 ^ k) (unat (lf_enq (rs_q s))) (unat (lf_deq (rs_q s))) (slot_sq (rs_q s)) (slot_dat (rs_q s))
       (rs_hist s) (\<lambda>t. writes (rs_pc s t)) (\<lambda>t. reads (rs_pc s t))"
    "pc_knows (2 ^ k) (unat (lf_enq (rs_q s))) (unat (lf_deq (rs_q s))) (slot_sq (rs_q s)) (slot_dat (rs_q s))
       (rs_hist s) (rs_pc s t)"
    "got_inv (unat (lf_deq (rs_q s))) (rs_hist s) (\<lambda>t. reads (rs_pc s t)) (rs_got s)"
  using assms by (simp_all add: sys_inv_def Let_def)

lemma sys_invI:
  assumes "ring_shape k q" "unat (lf_enq q) = e" "unat (lf_deq q) = d" "e < 2 ^ 63"
    and "ring_core (2 ^ k) e d (slot_sq q) (slot_dat q) hist
       ((\<lambda>t. writes (pc t))(t := writes p)) ((\<lambda>t. reads (pc t))(t := reads p))"
    and "\<And>u. u \<noteq> t \<Longrightarrow> pc_knows (2 ^ k) e d (slot_sq q) (slot_dat q) hist (pc u)"
    and "pc_knows (2 ^ k) e d (slot_sq q) (slot_dat q) hist p"
    and "got_inv d hist ((\<lambda>t. reads (pc t))(t := reads p)) got"
  shows "sys_inv k \<lparr>rs_q = q, rs_pc = pc(t := p), rs_hist = hist, rs_got = got\<rparr>"
proof -
  have "\<forall>u. pc_knows (2 ^ k) e d (slot_sq q) (slot_dat q) hist ((pc(t := p)) u)"
    using assms(6,7) by simp
  then show ?thesis
    using assms(1-5,8) unfolding sys_inv_def Let_def ring_sys.select_convs upd_owner by blast
qed

lemma inv_local:
  assumes "sys_inv k s" "writes p = writes (rs_pc s t)" "reads p = reads (rs_pc s t)"
    and "pc_knows (2 ^ k) (unat (lf_enq (rs_q s))) (unat (lf_deq (rs_q s))) (slot_sq (rs_q s))
       (slot_dat (rs_q s)) (rs_hist s) p"
  shows "sys_inv k \<lparr>rs_q = rs_q s, rs_pc = (rs_pc s)(t := p), rs_hist = rs_hist s, rs_got = rs_got s\<rparr>"
proof -
  note I = sys_invD [OF assms(1)]
  have "(\<lambda>u. writes (rs_pc s u))(t := writes p) = (\<lambda>u. writes (rs_pc s u))"
    "(\<lambda>u. reads (rs_pc s u))(t := reads p) = (\<lambda>u. reads (rs_pc s u))"
    using assms(2,3) by (simp_all add: fun_eq_iff)
  then show ?thesis using I assms(4) by (intro sys_invI) simp_all
qed

lemma unat_succ: "unat (a :: 64 word) < 2 ^ 63 \<Longrightarrow> unat (a + 1) = Suc (unat a)"
  by (simp add: unat_word_ariths)

lemma owner_updates:
  fixes f :: "nat \<Rightarrow> nat option"
  shows "f t = None \<Longrightarrow> (\<forall>u. (f(t := Some d)) u \<noteq> Some p) \<longleftrightarrow> p \<noteq> d \<and> (\<forall>u. f u \<noteq> Some p)"
    "f t = Some d \<Longrightarrow> (\<And>u. f u = Some d \<Longrightarrow> u = t) \<Longrightarrow>
      (\<forall>u. (f(t := None)) u \<noteq> Some p) \<longleftrightarrow> p = d \<or> (\<forall>u. f u \<noteq> Some p)"
proof -
  assume "f t = None"
  moreover have "(\<forall>u. (f(t := Some d)) u \<noteq> Some p) \<longleftrightarrow> p \<noteq> d \<and> (\<forall>u. u \<noteq> t \<longrightarrow> f u \<noteq> Some p)" by auto
  ultimately show "(\<forall>u. (f(t := Some d)) u \<noteq> Some p) \<longleftrightarrow> p \<noteq> d \<and> (\<forall>u. f u \<noteq> Some p)"
    by (metis option.distinct(1))
next
  assume t: "f t = Some d" "\<And>u. f u = Some d \<Longrightarrow> u = t"
  have "(\<forall>u. (f(t := None)) u \<noteq> Some p) \<longleftrightarrow> (\<forall>u. u \<noteq> t \<longrightarrow> f u \<noteq> Some p)" by auto
  also have "\<dots> \<longleftrightarrow> p = d \<or> (\<forall>u. f u \<noteq> Some p)" 
  proof (cases "p = d")
    case True
    then show ?thesis using t(2) by blast
  next
    case False
    then have "f t \<noteq> Some p" using t(1) by simp
    with False show ?thesis by metis
  qed
  finally show "(\<forall>u. (f(t := None)) u \<noteq> Some p) \<longleftrightarrow> p = d \<or> (\<forall>u. f u \<noteq> Some p)" .
qed

lemma inv_claim_enq:
  assumes "sys_inv k s" "rs_pc s t = ECas x pos" "lf_enq (rs_q s) = pos" "length (rs_hist s @ [x]) < 2 ^ 63"
  shows "sys_inv k \<lparr>rs_q = (rs_q s)\<lparr>lf_enq := pos + 1\<rparr>, rs_pc = (rs_pc s)(t := EWrite x pos),
    rs_hist = rs_hist s @ [x], rs_got = rs_got s\<rparr>"
proof -
  note I = sys_invD [OF assms(1)] and C = ring_coreD [OF sys_invD(3) [OF assms(1)]]
  let ?e = "unat (lf_enq (rs_q s))" and ?d = "unat (lf_deq (rs_q s))"
  have e: "unat (pos + 1) = Suc ?e" using unat_succ I(2) assms(3) by simp
  have "slot_sq (rs_q s) (?e mod 2 ^ k) = ?e" using I(4) [of t] assms(2,3) by simp
  note core = core_claim_enq [OF I(3) this, of t x]
  have r: "(\<lambda>t. reads (rs_pc s t))(t := reads (EWrite x pos)) = (\<lambda>t. reads (rs_pc s t))"
    using assms(2) by (simp add: fun_eq_iff)
  show ?thesis
  proof (rule sys_invI [where e = "Suc ?e" and d = ?d])
    show "ring_core (2 ^ k) (Suc ?e) ?d (slot_sq ((rs_q s)\<lparr>lf_enq := pos + 1\<rparr>))
        (slot_dat ((rs_q s)\<lparr>lf_enq := pos + 1\<rparr>)) (rs_hist s @ [x])
        ((\<lambda>t. writes (rs_pc s t))(t := writes (EWrite x pos))) ((\<lambda>t. reads (rs_pc s t))(t := reads (EWrite x pos)))"
      using core assms(2,3) r by simp
    show "pc_knows (2 ^ k) (Suc ?e) ?d (slot_sq ((rs_q s)\<lparr>lf_enq := pos + 1\<rparr>))
        (slot_dat ((rs_q s)\<lparr>lf_enq := pos + 1\<rparr>)) (rs_hist s @ [x]) (rs_pc s u)" for u
      using knows_claim_enq [OF I(4) [of u] C(2)] C(6) [of u] C(10) [of u] C(3) by fastforce
    show "got_inv ?d (rs_hist s @ [x]) ((\<lambda>t. reads (rs_pc s t))(t := reads (EWrite x pos))) (rs_got s)"
      using I(5) C(2,3) unfolding r got_inv_def by (auto simp: nth_append)
  qed (use I(1) e assms(3,4) C(2) in \<open>simp_all add: nth_append\<close>)
qed

lemma inv_write:
  assumes "sys_inv k s" "rs_pc s t = EWrite x pos"
  shows "sys_inv k \<lparr>rs_q = set_data pos x (rs_q s), rs_pc = (rs_pc s)(t := EPub pos),
    rs_hist = rs_hist s, rs_got = rs_got s\<rparr>"
proof -
  note I = sys_invD [OF assms(1)] and C = ring_coreD [OF sys_invD(3) [OF assms(1)]]
  note views = slot_views [OF I(1)] slot_update_simps [OF I(1)]
  have own: "writes (rs_pc s t) = Some (unat pos)" using assms(2) by simp
  have same: "(\<lambda>u. writes (rs_pc s u))(t := Some (unat pos)) = (\<lambda>u. writes (rs_pc s u))"
    "(\<lambda>u. reads (rs_pc s u))(t := None) = (\<lambda>u. reads (rs_pc s u))"
    using assms(2) by (auto simp: fun_eq_iff)
  have other: "i mod 2 ^ k \<noteq> unat pos mod 2 ^ k" if "u \<noteq> t" "writes (rs_pc s u) = Some i" for u i
  proof -
    have "i \<noteq> unat pos" using C(15) [OF that(2), of t] own that(1) by blast
    then show ?thesis
      using mod_window [of i "unat pos" "2 ^ k"] mod_window [of "unat pos" i "2 ^ k"]
        C(5,6) [OF that(2)] C(5,6) [OF own] C(4) by linarith
  qed
  have kn: "pc_knows (2 ^ k) (unat (lf_enq (rs_q s))) (unat (lf_deq (rs_q s))) (slot_sq (rs_q s))
      ((slot_dat (rs_q s))(unat pos mod 2 ^ k := x)) (rs_hist s) (rs_pc s u)" if "u \<noteq> t" for u
    using knows_write [OF I(4) [of u]] other [OF that] by blast
  show ?thesis
    by (rule sys_invI)
      (use I(1,2,5) core_write [OF I(3), of t "unat pos" x] own kn assms(2) I(4) [of t] in
        \<open>simp_all add: views same\<close>)
qed

lemma inv_publish:
  assumes "sys_inv k s" "rs_pc s t = EPub pos"
  shows "sys_inv k \<lparr>rs_q = set_seq pos (pos + 1) (rs_q s), rs_pc = (rs_pc s)(t := EDone True),
    rs_hist = rs_hist s, rs_got = rs_got s\<rparr>"
proof -
  note I = sys_invD [OF assms(1)] and C = ring_coreD [OF sys_invD(3) [OF assms(1)]]
  note views = slot_views [OF I(1)] slot_update_simps [OF I(1)]
  have own: "writes (rs_pc s t) = Some (unat pos)" using assms(2) by simp
  have succ: "unat (pos + 1) = unat pos + 1" using unat_succ [of pos] C(6) [OF own] I(2) by simp
  have r: "(\<lambda>u. reads (rs_pc s u))(t := None) = (\<lambda>u. reads (rs_pc s u))"
    using assms(2) by (auto simp: fun_eq_iff)
  show ?thesis
    by (rule sys_invI)
      (use I(1,2,5) core_publish [OF I(3), of t "unat pos"] own knows_publish [OF I(3) own I(4)] assms(2) I(4) [of t] in
        \<open>simp_all add: views succ r\<close>)
qed

lemma inv_claim_deq:
  assumes "sys_inv k s" "rs_pc s t = DCas pos" "lf_deq (rs_q s) = pos"
  shows "sys_inv k \<lparr>rs_q = (rs_q s)\<lparr>lf_deq := pos + 1\<rparr>, rs_pc = (rs_pc s)(t := DRead pos),
    rs_hist = rs_hist s, rs_got = rs_got s\<rparr>"
proof -
  note I = sys_invD [OF assms(1)] and C = ring_coreD [OF sys_invD(3) [OF assms(1)]]
  let ?e = "unat (lf_enq (rs_q s))" and ?d = "unat (lf_deq (rs_q s))"
  have d: "unat (pos + 1) = Suc ?d" using unat_succ [of pos] I(2) C(3) assms(3) by simp
  have "slot_sq (rs_q s) (?d mod 2 ^ k) = ?d + 1" using I(4) [of t] assms(2,3) by simp
  note core = core_claim_deq [OF I(3) this, of t]
  have w: "(\<lambda>t. writes (rs_pc s t))(t := None) = (\<lambda>t. writes (rs_pc s t))"
    using assms(2) by (simp add: fun_eq_iff)
  have got: "got_inv (Suc ?d) (rs_hist s) ((\<lambda>t. reads (rs_pc s t))(t := Some ?d)) (rs_got s)"
  proof -
    have none: "reads (rs_pc s t) = None" using assms(2) by simp
    have fresh: "?d \<notin> fst ` set (rs_got s)" using I(5) by (auto simp: got_inv_def)
    have iff: "(\<forall>u. ((\<lambda>t. reads (rs_pc s t))(t := Some ?d)) u \<noteq> Some p) \<longleftrightarrow> p \<noteq> ?d \<and> (\<forall>u. reads (rs_pc s u) \<noteq> Some p)" for p
      by (rule owner_updates(1) [of "\<lambda>t. reads (rs_pc s t)" t, OF none])
    have "p \<in> fst ` set (rs_got s) \<longleftrightarrow> p \<noteq> ?d \<and> (\<forall>u. reads (rs_pc s u) \<noteq> Some p)" if "p < Suc ?d" for p
      using I(5) that fresh by (cases "p = ?d") (simp_all add: got_inv_def)
    moreover have "\<forall>(p, v) \<in> set (rs_got s). p < Suc ?d \<and> v = rs_hist s ! p" "distinct (map fst (rs_got s))"
      using I(5) by (auto simp: got_inv_def)
    ultimately show ?thesis unfolding got_inv_def iff by blast
  qed
  show ?thesis
    by (rule sys_invI [where e = ?e and d = "Suc ?d"])
      (use I(1,2) d assms(2,3) core got knows_claim_deq [OF I(4)] in \<open>simp_all add: w\<close>)
qed

lemma inv_release:
  assumes "sys_inv k s" "rs_pc s t = DRel pos v"
  shows "sys_inv k \<lparr>rs_q = set_seq pos (pos + of_nat (length (lf_slots (rs_q s)))) (rs_q s),
    rs_pc = (rs_pc s)(t := DDone (Some v)), rs_hist = rs_hist s, rs_got = rs_got s @ [(unat pos, v)]\<rparr>"
proof -
  note I = sys_invD [OF assms(1)] and C = ring_coreD [OF sys_invD(3) [OF assms(1)]]
  note views = slot_views [OF I(1)] slot_update_simps [OF I(1)]
  have own: "reads (rs_pc s t) = Some (unat pos)" using assms(2) by simp
  have succ: "unat (pos + of_nat (length (lf_slots (rs_q s)))) = unat pos + 2 ^ k"
  proof -
    have "k \<le> 62" using I(1) by (simp add: ring_shape_def)
    then have "(2::nat) ^ k \<le> 2 ^ 62" by (intro power_increasing) simp_all
    moreover have "unat pos < 2 ^ 63" using C(3) C(10) [OF own] I(2) by linarith
    ultimately show ?thesis
      using I(1) by (simp add: ring_shape_def unat_word_ariths unat_of_nat del: of_nat_power)
  qed
  have w: "(\<lambda>u. writes (rs_pc s u))(t := None) = (\<lambda>u. writes (rs_pc s u))"
    using assms(2) by (auto simp: fun_eq_iff)
  have got: "got_inv (unat (lf_deq (rs_q s))) (rs_hist s) ((\<lambda>t. reads (rs_pc s t))(t := None)) (rs_got s @ [(unat pos, v)])"
  proof -
    have fresh: "unat pos \<notin> fst ` set (rs_got s)" using I(5) own C(10) [OF own] by (auto simp: got_inv_def)
    have v: "v = rs_hist s ! unat pos" using I(4) [of t] assms(2) by simp
    have "(\<forall>u. ((\<lambda>t. reads (rs_pc s t))(t := None)) u \<noteq> Some p) \<longleftrightarrow> p = unat pos \<or> (\<forall>u. reads (rs_pc s u) \<noteq> Some p)" for p
      using owner_updates(2) [of "\<lambda>t. reads (rs_pc s t)" t "unat pos", OF own] C(16) [OF _ own] by blast
    with fresh v C(10) [OF own] I(5) show ?thesis unfolding got_inv_def by auto
  qed
  show ?thesis
    by (rule sys_invI)
      (use I(1,2) core_release [OF I(3) own] own knows_release [OF I(3) own I(4)] got in
        \<open>simp_all add: views succ w\<close>)
qed

lemma inv_run:
  assumes inv: "sys_inv k s" and act: "in_call (rs_pc s t)" and step: "thread_step spurious (rs_pc s t) (rs_q s) = (p, q)"
    and bound: "length (hist_step (rs_pc s t) p (rs_hist s)) < 2 ^ 63"
  shows "sys_inv k \<lparr>rs_q = q, rs_pc = (rs_pc s)(t := p), rs_hist = hist_step (rs_pc s t) p (rs_hist s),
    rs_got = got_step (rs_pc s t) (rs_got s)\<rparr>"
proof -
  note I = sys_invD [OF inv] and C = ring_coreD [OF sys_invD(3) [OF inv]]
  note kn = I(4) [of t] and loc = inv_local [OF inv, of p t]
  show ?thesis
  proof (cases "rs_pc s t")
    case (ELoop x pos)
    then have "sint (lf_seq (rs_q s) pos - pos) = 0 \<Longrightarrow> slot_sq (rs_q s) (unat pos mod 2 ^ k) = unat pos"
      using slot_views(1) [OF I(1), of pos] by (simp add: signed_eq_0_iff)
    then have "sint (lf_seq (rs_q s) pos - pos) = 0 \<Longrightarrow> unat pos = unat (lf_enq (rs_q s)) \<longrightarrow>
        slot_sq (rs_q s) (unat (lf_enq (rs_q s)) mod 2 ^ k) = unat (lf_enq (rs_q s))" by metis
    then show ?thesis using step kn loc ELoop by (auto simp: Let_def split: if_splits)
  next
    case (ECas x pos)
    show ?thesis
    proof (cases "lf_enq (rs_q s) = pos \<and> \<not> spurious")
      case True
      then show ?thesis using step inv_claim_enq [OF inv ECas] ECas bound by auto
    next
      case False
      then show ?thesis using step loc ECas by auto
    qed
  next
    case (EWrite x pos)
    then show ?thesis using step inv_write [OF inv EWrite] by auto
  next
    case (EPub pos)
    then show ?thesis using step inv_publish [OF inv EPub] by auto
  next
    case (DLoop pos)
    have succ: "unat (pos + 1) = unat pos + 1" using unat_succ [of pos] kn DLoop C(3) I(2) by simp
    have "sint (lf_seq (rs_q s) pos - (pos + 1)) = 0 \<Longrightarrow> slot_sq (rs_q s) (unat pos mod 2 ^ k) = unat pos + 1"
      using slot_views(1) [OF I(1), of pos] succ by (simp add: signed_eq_0_iff)
    then have "sint (lf_seq (rs_q s) pos - (pos + 1)) = 0 \<Longrightarrow> unat pos = unat (lf_deq (rs_q s)) \<longrightarrow>
        slot_sq (rs_q s) (unat (lf_deq (rs_q s)) mod 2 ^ k) = unat (lf_deq (rs_q s)) + 1" by metis
    then show ?thesis using step kn loc DLoop by (auto simp: Let_def split: if_splits)
  next
    case (DCas pos)
    show ?thesis
    proof (cases "lf_deq (rs_q s) = pos \<and> \<not> spurious")
      case True
      then show ?thesis using step inv_claim_deq [OF inv DCas] DCas by auto
    next
      case False
      then show ?thesis using step loc DCas by auto
    qed
  next
    case (DRead pos)
    have "lf_data (rs_q s) pos = rs_hist s ! unat pos"
      using slot_views(2) [OF I(1), of pos] C(13) [of t "unat pos"] DRead by simp
    then show ?thesis using step loc DRead by auto
  next
    case (DRel pos v)
    then show ?thesis using step inv_release [OF inv DRel] by auto
  next
    case (EDone b)
    then show ?thesis using act by simp
  next
    case (DDone r)
    then show ?thesis using act by simp
  qed (use step loc in auto)
qed

lemma step_inv:
  assumes "sys_inv k s" "ring_step s s'" "length (rs_hist s') < 2 ^ 63"
  shows "sys_inv k s'"
  using assms(2)
proof (cases rule: ring_step.cases)
  case (call_enqueue t x)
  then show ?thesis using inv_local [OF assms(1), of "ELoad x" t] by (cases s) simp
next
  case (call_dequeue t)
  then show ?thesis using inv_local [OF assms(1), of DLoad t] by (cases s) simp
next
  case (ret t)
  then show ?thesis using inv_local [OF assms(1), of Idle t] by (cases "rs_pc s t"; cases s) simp_all
next
  case (run t spurious p q)
  then show ?thesis using inv_run [OF assms(1) run(2,3)] assms(3) by simp
qed

lemma init_inv:
  assumes "quiet k q []" "lf_deq q = 0" "0 < k"
  shows "sys_inv k \<lparr>rs_q = q, rs_pc = (\<lambda>_. Idle), rs_hist = [], rs_got = []\<rparr>"
proof -
  note Q = quietD [OF assms(1)]
  have k: "k \<le> 64" using Q(1) by (simp add: ring_shape_def)
  have "slot_sq q (p mod 2 ^ k) = p" if "p < 2 ^ k" for p
  proof -
    have "(2::nat) ^ k \<le> 2 ^ 62" using Q(1) by (intro power_increasing) (simp_all add: ring_shape_def)
    then have u: "unat (of_nat p :: 64 word) = p" using that by (simp add: unat_of_nat)
    have "lf_seq q (of_nat p) = of_nat p" using Q(6) [of p] that assms(2) by simp
    then show ?thesis using slot_views(1) [OF Q(1), of "of_nat p"] u by simp
  qed
  moreover have "(1::nat) < 2 ^ k" using assms(3) by (intro one_less_power) simp_all
  ultimately have "ring_core (2 ^ k) 0 0 (slot_sq q) (slot_dat q) [] (\<lambda>_. None) (\<lambda>_. None)"
    by (intro ring_coreI) simp_all
  then show ?thesis using Q(1,3) assms(2) by (simp add: sys_inv_def got_inv_def)
qed

lemma reach_inv: "ring_reach k s \<Longrightarrow> 0 < k \<Longrightarrow> sys_inv k s"
  by (induction rule: ring_reach.induct) (auto intro: init_inv step_inv)

text \<open>Schedules, to exhibit executions.\<close>

datatype 'a sched = S_enq nat 'a | S_deq nat | S_ret nat | S_run nat bool

fun sched_step :: "'a sched \<Rightarrow> 'a ring_sys \<Rightarrow> 'a ring_sys option" where
  "sched_step (S_enq t x) s =
     (case rs_pc s t of Idle \<Rightarrow> Some (s\<lparr>rs_pc := (rs_pc s)(t := ELoad x)\<rparr>) | _ \<Rightarrow> None)"
| "sched_step (S_deq t) s =
     (case rs_pc s t of Idle \<Rightarrow> Some (s\<lparr>rs_pc := (rs_pc s)(t := DLoad)\<rparr>) | _ \<Rightarrow> None)"
| "sched_step (S_ret t) s =
     (if in_call (rs_pc s t) then None else Some (s\<lparr>rs_pc := (rs_pc s)(t := Idle)\<rparr>))"
| "sched_step (S_run t b) s =
     (if in_call (rs_pc s t)
      then (case thread_step b (rs_pc s t) (rs_q s) of (p, q) \<Rightarrow>
        Some \<lparr>rs_q = q, rs_pc = (rs_pc s)(t := p), rs_hist = hist_step (rs_pc s t) p (rs_hist s),
          rs_got = got_step (rs_pc s t) (rs_got s)\<rparr>) else None)"

fun sched_run :: "'a sched list \<Rightarrow> 'a ring_sys \<Rightarrow> 'a ring_sys option" where
  "sched_run [] s = Some s"
| "sched_run (a # as) s =
     (case sched_step a s of None \<Rightarrow> None
      | Some s' \<Rightarrow> if length (rs_hist s') < 2 ^ 63 then sched_run as s' else None)"

lemma sched_step_sound: "sched_step a s = Some s' \<Longrightarrow> ring_step s s'"
  by (induction a s rule: sched_step.induct)
    (auto intro: ring_step.intros split: pc.splits if_splits prod.splits)

lemma sched_run_sound: "sched_run as s = Some s' \<Longrightarrow> ring_reach k s \<Longrightarrow> ring_reach k s'"
proof (induction as arbitrary: s)
  case (Cons a as)
  then show ?case
    by (auto split: option.splits if_splits intro!: Cons.IH dest!: sched_step_sound intro: ring_reach.step)
qed simp

subsection \<open>Properties\<close>

text \<open>C2. Concurrent use, any number of threads and any interleaving (fewer than \<open>2 ^ 63\<close>
  elements in all): a finished dequeue with the \<open>p\<close>-th claim returns the element of the \<open>p\<close>-th
  successful enqueue claim; no position is delivered twice; and whenever no dequeue is in flight
  the delivered positions are exactly the first ones: nothing is lost, duplicated or reordered.\<close>

theorem ring_concurrent_fifo:
  assumes "ring_reach k s" "0 < k"
  shows "distinct (map fst (rs_got s)) \<and>
    (\<forall>(p, v) \<in> set (rs_got s). p < length (rs_hist s) \<and> v = rs_hist s ! p) \<and>
    ((\<forall>t. reads (rs_pc s t) = None) \<longrightarrow> fst ` set (rs_got s) = {..<unat (lf_deq (rs_q s))}) \<and>
    unat (lf_deq (rs_q s)) \<le> length (rs_hist s) \<and>
    length (rs_hist s) \<le> unat (lf_deq (rs_q s)) + length (lf_slots (rs_q s))"
proof -
  note I = sys_invD [OF reach_inv [OF assms]]
  note C = ring_coreD [OF I(3)]
  have "length (lf_slots (rs_q s)) = 2 ^ k" using I(1) by (simp add: ring_shape_def)
  then show ?thesis using I(5) C(2-4) unfolding got_inv_def by fastforce
qed

definition demo_sched :: "nat sched list" where
  "demo_sched = [S_enq 0 10, S_enq 1 20, S_run 0 False, S_run 1 False, S_run 0 False, S_run 1 False,
     S_run 1 True, S_run 0 False, S_run 1 False, S_run 1 False, S_run 1 False, S_run 1 False, S_run 1 False, S_run 1 False, S_run 0 False,
     S_run 0 False, S_deq 2, S_run 2 False, S_run 2 False, S_run 2 False, S_run 2 False, S_run 2 False]"

definition demo_sys :: "nat ring_sys" where
  "demo_sys = \<lparr>rs_q = \<lparr>lf_enq = 0, lf_deq = 0, lf_slots = [(0, 0), (1, 0)], lf_mask = 1\<rparr>,
     rs_pc = (\<lambda>_. Idle), rs_hist = [], rs_got = []\<rparr>"

lemma demo_reach: "ring_reach 1 demo_sys"
  unfolding demo_sys_def
  by (rule ring_reach.init, rule quietI [where d = 0])
    (auto simp: ring_shape_def lf_seq_def lf_index_def less_Suc_eq numeral_2_eq_2)

lemma demo_run:
  "\<exists>s. sched_run demo_sched demo_sys = Some s \<and> rs_hist s = [10, 20] \<and> rs_got s = [(0, 10)] \<and>
     lf_deq (rs_q s) = 1 \<and> (\<forall>t. reads (rs_pc s t) = None)"
  by (simp add: demo_sched_def demo_sys_def lf_seq_def lf_index_def set_data_def set_seq_def lf_data_def)

theorem ring_concurrent_fifo_witness:
  "\<exists>s. sched_run demo_sched demo_sys = Some s \<and> rs_hist s = [10, 20] \<and> rs_got s = [(0, 10)] \<and>
     fst ` set (rs_got s) = {..<1}"
proof -
  obtain s where s: "sched_run demo_sched demo_sys = Some s" "rs_hist s = [10, 20]" "rs_got s = [(0, 10)]"
    "lf_deq (rs_q s) = 1" "\<forall>t. reads (rs_pc s t) = None" using demo_run by blast
  have "ring_reach 1 s" using sched_run_sound [OF s(1) demo_reach] .
  from ring_concurrent_fifo [OF this] s(4,5) have "fst ` set (rs_got s) = {..<1}" by simp
  with s(1-3) show ?thesis by blast
qed

text \<open>C3. No two threads ever touch the data of the same slot: the slots of all the positions that
  are being written or read at a time are different.\<close>

theorem slot_access_exclusive:
  assumes "ring_reach k s" "0 < k" and "t \<noteq> t'"
    and "p \<in> set_option (writes (rs_pc s t)) \<union> set_option (reads (rs_pc s t))"
    and "p' \<in> set_option (writes (rs_pc s t')) \<union> set_option (reads (rs_pc s t'))"
  shows "p mod length (lf_slots (rs_q s)) \<noteq> p' mod length (lf_slots (rs_q s))"
proof -
  note I = sys_invD [OF reach_inv [OF assms(1,2)]]
  note C = ring_coreD [OF I(3)]
  let ?e = "unat (lf_enq (rs_q s))" and ?d = "unat (lf_deq (rs_q s))"
  have len: "length (lf_slots (rs_q s)) = 2 ^ k" using I(1) by (simp add: ring_shape_def)
  have win: "?e \<le> x + 2 ^ k \<and> x < ?e" if "x \<in> set_option (writes (rs_pc s u)) \<union> set_option (reads (rs_pc s u))" for x u
    using that C(3,4) C(5,6) [of u x] C(10,11) [of u x] by auto
  have "p \<noteq> p'"
    using assms(3-5) C(15) [of t p t'] C(16) [of t p t'] C(5) [of t p] C(5) [of t' p] C(10) [of t p] C(10) [of t' p]
    by auto
  then show ?thesis
    unfolding len using mod_window [of p p' "2 ^ k"] mod_window [of p' p "2 ^ k"] win [OF assms(4)] win [OF assms(5)]
    by linarith
qed

definition race_sched :: "nat sched list" where
  "race_sched = [S_enq 0 10, S_enq 1 20, S_run 0 False, S_run 0 False, S_run 0 False,
     S_run 1 False, S_run 1 False, S_run 1 False]"

theorem slot_access_exclusive_witness:
  "\<exists>s. sched_run race_sched demo_sys = Some s \<and> writes (rs_pc s 0) = Some 0 \<and> writes (rs_pc s 1) = Some 1 \<and>
     0 mod length (lf_slots (rs_q s)) \<noteq> 1 mod length (lf_slots (rs_q s))"
proof -
  obtain s where s: "sched_run race_sched demo_sys = Some s" "writes (rs_pc s 0) = Some 0" "writes (rs_pc s 1) = Some 1"
    by (simp add: race_sched_def demo_sys_def lf_seq_def lf_index_def)
  have "ring_reach 1 s" using sched_run_sound [OF s(1) demo_reach] .
  from slot_access_exclusive [OF this, of 0 1 0 1] s show ?thesis by (auto simp del: mod_less One_nat_def)
qed

end
