(* ===== verification/Std_Map.thy ===== *)
theory Std_Map
  imports Prelude "HOL-Library.Char_ord" "HOL-Library.List_Lexorder"
begin

text \<open>
  \<open>std::map\<close> as a list of pairs in ascending key order (the order its iterators follow), and the
  conversions between numbers and text that the sources use: \<open>atoll\<close>, \<open>atoi\<close> and the decimal
  formats of \<open>snprintf\<close>.
\<close>

subsection \<open>Ordered maps\<close>

type_synonym ('k, 'v) smap = "('k \<times> 'v) list"

fun smap_set :: "'k::linorder \<Rightarrow> 'v \<Rightarrow> ('k, 'v) smap \<Rightarrow> ('k, 'v) smap" where
  "smap_set k v [] = [(k, v)]"
| "smap_set k v ((k', v') # m) =
     (if k < k' then (k, v) # (k', v') # m
      else if k = k' then (k, v) # m else (k', v') # smap_set k v m)"

definition smap_get :: "'k \<Rightarrow> ('k, 'v) smap \<Rightarrow> 'v option" where
  "smap_get k m = map_of m k"

definition smap_ok :: "('k::linorder, 'v) smap \<Rightarrow> bool" where
  "smap_ok m \<longleftrightarrow> sorted_wrt (<) (map fst m)"

lemma set_smap_set: "fst ` set (smap_set k v m) = insert k (fst ` set m)"
  by (induction k v m rule: smap_set.induct) (simp_all add: insert_commute)

lemma smap_ok_set: "smap_ok m \<Longrightarrow> smap_ok (smap_set k v m)"
proof (induction m)
  case (Cons x m)
  obtain k' v' where x: "x = (k', v')" by (cases x)
  have ih: "smap_ok (smap_set k v m)" and gt: "\<forall>y \<in> fst ` set m. k' < y"
    using Cons by (auto simp: smap_ok_def x)
  show ?case
  proof (cases "k < k'")
    case True
    then show ?thesis using Cons.prems gt by (auto simp: smap_ok_def x)
  next
    case False
    then show ?thesis
      using ih gt Cons.prems set_smap_set [of k v m] by (auto simp: smap_ok_def x)
  qed
qed (simp add: smap_ok_def)

lemma smap_get_set: "smap_get k (smap_set k' v m) = (if k = k' then Some v else smap_get k m)"
  by (induction m) (auto simp: smap_get_def)

text \<open>
  The interface of a keyed table: a lookup sees the last update of its key. Its clients are the
  header maps, the routing table, the configuration and the connection table.
\<close>

locale keyed_table =
  fixes upd :: "'k \<Rightarrow> 'v \<Rightarrow> 't \<Rightarrow> 't" and get :: "'k \<Rightarrow> 't \<Rightarrow> 'v option"
  assumes get_upd: "get k (upd k' v t) = (if k = k' then Some v else get k t)"
begin

lemma get_upds:
  "get k (foldl (\<lambda>t (k, v). upd k v t) t kvs) =
    (case map_of (rev kvs) k of Some v \<Rightarrow> Some v | None \<Rightarrow> get k t)"
proof (induction kvs rule: rev_induct)
  case (snoc kv kvs)
  then show ?case by (cases kv) (simp add: get_upd)
qed simp

lemma last_update_wins:
  "k \<notin> fst ` set later \<Longrightarrow>
   get k (foldl (\<lambda>t (k, v). upd k v t) t (earlier @ (k, v) # later)) = Some v"
  using map_of_eq_None_iff [of "rev later" k] by (simp add: get_upds get_upd)

lemma untouched_key:
  "k \<notin> fst ` set kvs \<Longrightarrow> get k (foldl (\<lambda>t (k, v). upd k v t) t kvs) = get k t"
  using map_of_eq_None_iff [of "rev kvs" k] by (simp add: get_upds)

end

interpretation smap: keyed_table smap_set smap_get
  by unfold_locales (rule smap_get_set)

subsection \<open>Decimal numbers\<close>

definition digit_char :: "nat \<Rightarrow> char" where
  "digit_char d = char_of (48 + d mod 10)"

definition digit_value :: "char \<Rightarrow> nat" where
  "digit_value c = of_char c - 48"

definition isdigit :: "char \<Rightarrow> bool" where
  "isdigit c \<longleftrightarrow> (48::nat) \<le> of_char c \<and> of_char c \<le> (57::nat)"

text \<open>The conversion \<open>%zu\<close>.\<close>

fun dec :: "nat \<Rightarrow> string" where
  "dec n = (if n < 10 then [digit_char n] else dec (n div 10) @ [digit_char n])"

declare dec.simps [simp del]

text \<open>The conversion \<open>%d\<close>.\<close>

definition dec_int :: "int \<Rightarrow> string" where
  "dec_int n = (if n < 0 then CHR ''-'' # dec (nat (- n)) else dec (nat n))"

definition digits_value :: "string \<Rightarrow> nat" where
  "digits_value s = foldl (\<lambda>n c. 10 * n + digit_value c) 0 (takeWhile isdigit s)"

text \<open>
  \<open>strtoll\<close> in base ten: leading white space, an optional sign, the longest run of digits; a value
  outside the range of \<open>long long\<close> is clamped to it. \<open>atoll\<close> is this function, \<open>atoi\<close> its
  truncation to \<open>int\<close>.
\<close>

definition strtoll :: "string \<Rightarrow> int" where
  "strtoll s =
     (let s = dropWhile isspace s;
          neg = (take 1 s = ''-'');
          s = (if take 1 s = ''-'' \<or> take 1 s = ''+'' then drop 1 s else s);
          v = (if neg then - int (digits_value s) else int (digits_value s))
      in max (- (2 ^ 63)) (min v (2 ^ 63 - 1)))"

definition atoll :: "string \<Rightarrow> int" where "atoll s = strtoll s"

definition atoi :: "string \<Rightarrow> int" where "atoi s = to_int32 (strtoll s)"

text \<open>\<open>static_cast<size_t>\<close> of a signed number.\<close>

definition to_size :: "int \<Rightarrow> nat" where "to_size n = nat (n mod 2 ^ 64)"

lemma digit_char [simp]:
  "isdigit (digit_char d)" "digit_value (digit_char d) = d mod 10" "\<not> isspace (digit_char d)"
proof -
  have "of_char (digit_char d) = 48 + d mod 10" by (simp add: digit_char_def)
  then show "isdigit (digit_char d)" "digit_value (digit_char d) = d mod 10"
    by (simp_all add: isdigit_def digit_value_def)
  then show "\<not> isspace (digit_char d)" by (auto simp: isdigit_def isspace_def)
qed

lemma dec_digits: "\<forall>c \<in> set (dec n). isdigit c" "dec n \<noteq> []"
proof (induction n rule: dec.induct)
  case (1 n)
  {
    case 1
    then show ?case using "1.IH" by (cases "n < 10") (auto simp: dec.simps [of n])
  next
    case 2
    then show ?case by (simp add: dec.simps [of n])
  }
qed

lemma dec_value: "foldl (\<lambda>n c. 10 * n + digit_value c) 0 (dec n) = n"
proof (induction n rule: dec.induct)
  case (1 n)
  then show ?case by (cases "n < 10") (simp_all add: dec.simps [of n])
qed

lemma isdigit_not: "isdigit c \<Longrightarrow> \<not> isspace c \<and> c \<noteq> CHR ''-'' \<and> c \<noteq> CHR ''+''"
  by (auto simp: isdigit_def isspace_def)

lemma strtoll_dec:
  assumes "n < 2 ^ 63" "s = [] \<or> \<not> isdigit (hd s)"
  shows "strtoll (dec n @ s) = int n"
proof -
  obtain c cs where d: "dec n = c # cs" using dec_digits(2) by (cases "dec n") auto
  then have c: "isdigit c" using dec_digits(1) [of n] by simp
  have "takeWhile isdigit s = []" using assms(2) by (cases s) auto
  then have "takeWhile isdigit (dec n @ s) = dec n"
    using dec_digits(1) [of n] by (simp add: takeWhile_append2)
  then have "digits_value (dec n @ s) = n" by (simp add: digits_value_def dec_value)
  then show ?thesis using assms(1) isdigit_not [OF c] d by (simp add: strtoll_def)
qed

end
