(* ===== verification/Http.thy ===== *)
theory Http
  imports String_Piece Std_Map
begin

text \<open>
  \<open>Net/HTTP/http.h\<close> and \<open>Net/HTTP/http.cpp\<close>: HTTP messages. The base class is a record, the
  request and the response extend it; \<open>tryDecode_\<close> of the base class works on any extension. A
  decoder keeps its place between calls, so that it can be called again with more bytes.
\<close>

subsection \<open>Messages\<close>

datatype parse_result = Parse_Error | Complete | NotComplete | Continue100

record http_msg =
  hm_headers :: "(string, string) smap"
  hm_version :: string
  hm_body :: string
  hm_bodyView :: string_piece
  hm_complete :: bool
  hm_contentLen :: nat
  hm_scanned :: nat

datatype http_method = M_UNKNOWN | M_GET | M_POST | M_PUT | M_DELETE | M_HEAD

record http_request = http_msg +
  rq_method :: http_method
  rq_url :: string
  rq_queryUrl :: string
  rq_args :: "(string, string) smap"

text \<open>A status is any \<open>int\<close>: the decoder casts the number it reads.\<close>

record http_response = http_msg +
  rp_status :: int
  rp_statusMsg :: string

definition HTTP11 :: string where "HTTP11 = ''HTTP/1.1''"

definition msg_clear :: "('a http_msg_scheme) \<Rightarrow> 'a http_msg_scheme" where
  "msg_clear m = m\<lparr>hm_headers := [], hm_version := HTTP11, hm_body := [], hm_bodyView := sp_empty,
     hm_complete := False, hm_contentLen := 0, hm_scanned := 0\<rparr>"

definition getHeader :: "string \<Rightarrow> 'a http_msg_scheme \<Rightarrow> string" where
  "getHeader name m = (case smap_get name (hm_headers m) of Some v \<Rightarrow> v | None \<Rightarrow> [])"

definition getBody :: "'a http_msg_scheme \<Rightarrow> string_piece" where
  "getBody m = (if sp_size (hm_bodyView m) \<noteq> 0 then hm_bodyView m else sp_of_string (hm_body m))"

definition getByte :: "'a http_msg_scheme \<Rightarrow> nat" where
  "getByte m = hm_scanned m"

subsection \<open>Decoding\<close>

definition CRLF :: string where "CRLF = [CHR 0x0D, CHR 0x0A]"

text \<open>The search for the end of the header, from the place the last call stopped at.\<close>

function scan_header :: "string_piece \<Rightarrow> nat \<Rightarrow> bool \<times> nat" where
  "scan_header buf sc =
     (if sc + 4 \<le> sp_size buf
      then (if mem buf ! (pb buf + sc) = CHR 0x0D \<and> memcmp (drop (pb buf + sc) (mem buf)) (CRLF @ CRLF) 4 = 0
            then (True, sc) else scan_header buf (Suc sc))
      else (False, sc))"
  by pat_completeness auto
termination by (relation "measure (\<lambda>(buf, sc). sp_size buf - sc)") auto

declare scan_header.simps [simp del]

lemma skip_while_ge: "b \<le> skip_while p m b e"
proof (induction p m b e rule: skip_while.induct)
  case (1 p m b e)
  then show ?case by (auto simp: skip_while.simps [of p m b e])
qed

lemma skip_while_stop: "\<not> b < e \<Longrightarrow> skip_while p m b e = b"
  by (subst skip_while.simps) simp

lemma eatLine_pb: "pe (snd (eatLine sp)) = pe sp" "pb sp \<le> pb (snd (eatLine sp))"
  by (simp_all add: eatLine_def Let_def skip_while_ge)

lemma eatLine_past_end: "\<not> pb sp < pe sp \<Longrightarrow> sp_size (fst (eatWord (fst (eatLine sp)))) = 0"
  by (simp add: eatLine_def eatWord_def Let_def sp_at_def sp_size_def skip_while_stop)

text \<open>
  The loop over the header lines. \<open>eat(2)\<close> skips the line break before a line; the result says
  whether the loop ended normally and what the map of headers holds.
\<close>

function header_loop ::
  "string_piece \<Rightarrow> (string, string) smap \<Rightarrow> bool \<times> (string, string) smap" where
  "header_loop hslice hdrs =
     (if sp_size hslice = 0 then (True, hdrs)
      else let rest' = snd (eatLine (snd (eat hslice 2)));
               line = fst (eatLine (snd (eat hslice 2)));
               key = fst (eatWord line);
               line' = trimSpace (snd (eatWord line))
           in if sp_size key \<noteq> 0 \<and> sp_size line' \<noteq> 0 \<and> mem key ! (pb key + sp_size key - 1) = CHR '':''
              then header_loop rest'
                     (smap_set (map tolower (toString (sp_sub key 0 (-1)))) (toString line') hdrs)
              else if sp_is_empty key \<and> sp_is_empty line' \<and> sp_is_empty rest' then (True, hdrs)
              else (False, hdrs))"
  by pat_completeness auto
termination
proof (relation "measure (\<lambda>(hslice, hdrs). pe hslice - pb hslice)", goal_cases)
  case (2 hslice hdrs a b c d)
  let ?s = "snd (eat hslice 2)"
  have s: "pb ?s = pb hslice + 2" "pe ?s = pe hslice" by (simp_all add: eat_def)
  have "pb ?s < pe ?s" using 2 eatLine_past_end [of ?s] by metis
  then show ?case using eatLine_pb [of ?s] 2 s by simp
qed simp

declare header_loop.simps [simp del]

text \<open>\<open>std::string::assign(p, n)\<close> throws above the maximal size.\<close>

definition string_assign :: "nat \<Rightarrow> nat \<Rightarrow> char list \<Rightarrow> string outcome" where
  "string_assign off n m = (if n \<le> vector_max then load off n m else Inl Length_error)"

definition decode_body ::
  "string_piece \<Rightarrow> bool \<Rightarrow> 'a http_msg_scheme \<Rightarrow> (parse_result \<times> 'a http_msg_scheme) outcome" where
  "decode_body buf copyBody m =
     (if \<not> hm_complete m \<and> uadd (hm_contentLen m) (hm_scanned m) \<le> sp_size buf
      then obind (if copyBody
                  then obind (string_assign (pb buf + hm_scanned m) (hm_contentLen m) (mem buf))
                         (\<lambda>d. Inr (m\<lparr>hm_body := d\<rparr>))
                  else Inr (m\<lparr>hm_bodyView := sp_at (mem buf) (pb buf + hm_scanned m) (hm_contentLen m)\<rparr>))
             (\<lambda>m. Inr (Complete, m\<lparr>hm_complete := True, hm_scanned := uadd (hm_scanned m) (hm_contentLen m)\<rparr>))
      else Inr (if hm_complete m then Complete else NotComplete, m))"

text \<open>What follows the header loop: the length of the body, the 100-continue test, the body.\<close>

definition body_length :: "'a http_msg_scheme \<Rightarrow> nat" where
  "body_length m =
     (let len = getHeader ''content-length'' m in if len = [] then 0 else to_size (atoll len))"

definition after_headers ::
  "string_piece \<Rightarrow> bool \<Rightarrow> string_piece \<Rightarrow> 'a http_msg_scheme \<Rightarrow>
   (parse_result \<times> string_piece \<times> 'a http_msg_scheme) outcome" where
  "after_headers buf copyBody line1 m =
     (let m = m\<lparr>hm_contentLen := body_length m\<rparr>
      in if sp_size buf < uadd (hm_contentLen m) (hm_scanned m) \<and> getHeader ''expect'' m \<noteq> []
         then Inr (Continue100, line1, m)
         else obind (decode_body buf copyBody m) (\<lambda>(r, m). Inr (r, line1, m)))"

text \<open>\<open>HttpMsg::tryDecode_\<close>: the result, the first line (empty when this call did not reach it) and
  the message.\<close>

definition msg_tryDecode ::
  "string_piece \<Rightarrow> bool \<Rightarrow> 'a http_msg_scheme \<Rightarrow>
   (parse_result \<times> string_piece \<times> 'a http_msg_scheme) outcome" where
  "msg_tryDecode buf copyBody m =
     (if hm_complete m then Inr (Complete, sp_empty, m)
      else if hm_contentLen m = 0 then
        (let (found, sc) = scan_header buf (hm_scanned m);
             m = m\<lparr>hm_scanned := sc\<rparr>;
             hslice = (if found then sp_at (mem buf) (pb buf) sc else sp_empty)
         in if sp_is_empty hslice then Inr (NotComplete, sp_empty, m)
            else let (line1, hslice) = eatLine hslice;
                     (ok, hdrs) = header_loop hslice (hm_headers m);
                     m = m\<lparr>hm_headers := hdrs\<rparr>
                 in if \<not> ok then Inr (Parse_Error, line1, m)
                    else after_headers buf copyBody line1 (m\<lparr>hm_scanned := sc + 4\<rparr>))
      else obind (decode_body buf copyBody m) (\<lambda>(r, m). Inr (r, sp_empty, m)))"

subsection \<open>Requests\<close>

definition request_clear :: "http_request \<Rightarrow> http_request" where
  "request_clear r = (msg_clear r)\<lparr>rq_method := M_UNKNOWN, rq_url := [], rq_queryUrl := [], rq_args := []\<rparr>"

definition request_new :: http_request where
  "request_new = request_clear
     \<lparr>hm_headers = [], hm_version = [], hm_body = [], hm_bodyView = sp_empty, hm_complete = False,
      hm_contentLen = 0, hm_scanned = 0, rq_method = M_UNKNOWN, rq_url = [], rq_queryUrl = [], rq_args = []\<rparr>"

definition getArg :: "string \<Rightarrow> http_request \<Rightarrow> string" where
  "getArg name r = (case smap_get name (rq_args r) of Some v \<Rightarrow> v | None \<Rightarrow> [])"

definition methodToString :: "http_method \<Rightarrow> string" where
  "methodToString m = (case m of M_GET \<Rightarrow> ''GET'' | M_POST \<Rightarrow> ''POST'' | M_PUT \<Rightarrow> ''PUT''
     | M_DELETE \<Rightarrow> ''DELETE'' | M_HEAD \<Rightarrow> ''HEAD'' | M_UNKNOWN \<Rightarrow> ''UNKNOWN'')"

definition stringToMethod :: "string \<Rightarrow> http_method" where
  "stringToMethod s =
     (if s = ''GET'' then M_GET else if s = ''POST'' then M_POST else if s = ''PUT'' then M_PUT
      else if s = ''DELETE'' then M_DELETE else if s = ''HEAD'' then M_HEAD else M_UNKNOWN)"

text \<open>\<open>std::string::find(c, from)\<close> and \<open>substr\<close>; \<open>npos\<close> is None.\<close>

definition find_from :: "char \<Rightarrow> nat \<Rightarrow> string \<Rightarrow> nat option" where
  "find_from c from s =
     (let k = from + length (takeWhile (\<lambda>x. x \<noteq> c) (drop from s)) in if k < length s then Some k else None)"

lemma find_from_ge: "find_from c from s = Some k \<Longrightarrow> from \<le> k \<and> k < length s"
  by (auto simp: find_from_def Let_def split: if_splits)

function url_args :: "string \<Rightarrow> nat \<Rightarrow> (string, string) smap \<Rightarrow> (string, string) smap" where
  "url_args query start args =
     (if start < length query then
        (case find_from CHR ''='' start query of
           None \<Rightarrow> args
         | Some eq \<Rightarrow>
             let and_pos = (case find_from CHR ''&'' (eq + 1) query of Some k \<Rightarrow> k | None \<Rightarrow> length query)
             in url_args query (and_pos + 1)
                  (smap_set (segment start (eq - start) query) (segment (eq + 1) (and_pos - eq - 1) query) args))
      else args)"
  by pat_completeness auto
termination
  by (relation "measure (\<lambda>(query, start, args). length query - start)")
    (auto dest!: find_from_ge split: option.splits)

declare url_args.simps [simp del]

definition parseUrlParams :: "http_request \<Rightarrow> http_request" where
  "parseUrlParams r =
     (case find_from CHR ''?'' 0 (rq_queryUrl r) of
        Some pos \<Rightarrow>
          let r = r\<lparr>rq_url := segment 0 pos (rq_queryUrl r)\<rparr>;
              query = drop (pos + 1) (rq_queryUrl r)
          in r\<lparr>rq_args := url_args query 0 (rq_args r)\<rparr>
      | None \<Rightarrow> r\<lparr>rq_url := rq_queryUrl r\<rparr>)"

definition request_tryDecode ::
  "string_piece \<Rightarrow> bool \<Rightarrow> http_request \<Rightarrow> (parse_result \<times> http_request) outcome" where
  "request_tryDecode buf copyBody r =
     obind (msg_tryDecode buf copyBody r) (\<lambda>(res, line1, r).
     if sp_size line1 \<noteq> 0 then
       let (methodView, line1) = eatWord line1;
           (urlView, line1) = eatWord line1;
           (verView, line1) = eatWord line1
       in Inr (res, parseUrlParams (r\<lparr>rq_method := stringToMethod (toString methodView),
                 rq_queryUrl := toString urlView, hm_version := toString verView\<rparr>))
     else Inr (res, r))"

text \<open>
  Printing. \<open>snprintf\<close> into the local array of 4096 bytes keeps at most 4095 characters, and a
  \<open>%s\<close> argument is a C string, which ends at its first NUL.
\<close>

definition cstr :: "string \<Rightarrow> string" where "cstr s = takeWhile (\<lambda>c. c \<noteq> NUL) s"

definition snprintf4096 :: "string \<Rightarrow> string" where "snprintf4096 s = take 4095 s"

definition encode_headers :: "(string, string) smap \<Rightarrow> string" where
  "encode_headers hs = concat (map (\<lambda>(k, v). k @ '': '' @ v @ CRLF) hs)"

definition encode_rest :: "'a http_msg_scheme \<Rightarrow> string" where
  "encode_rest m =
     encode_headers (hm_headers m) @ ''Connection: Keep-Alive'' @ CRLF @
     snprintf4096 (''Content-Length: '' @ dec (sp_size (getBody m)) @ CRLF) @ CRLF @ toString (getBody m)"

definition request_encode :: "http_request \<Rightarrow> string \<Rightarrow> int \<times> string" where
  "request_encode r buf =
     (let line = snprintf4096 (cstr (methodToString (rq_method r)) @ '' '' @
            cstr (if rq_queryUrl r = [] then rq_url r else rq_queryUrl r) @ '' '' @ cstr (hm_version r) @ CRLF);
          buf' = buf @ line @ encode_rest r
      in (to_int32 (int (length buf' - length buf)), buf'))"

subsection \<open>Responses\<close>

definition status_OK :: int where "status_OK = 200"
definition status_BAD_REQUEST :: int where "status_BAD_REQUEST = 400"
definition status_NOT_FOUND :: int where "status_NOT_FOUND = 404"
definition status_INTERNAL_ERROR :: int where "status_INTERNAL_ERROR = 500"

definition statusToString :: "int \<Rightarrow> string" where
  "statusToString s =
     (if s = status_OK then ''OK'' else if s = status_BAD_REQUEST then ''Bad Request''
      else if s = status_NOT_FOUND then ''Not Found''
      else if s = status_INTERNAL_ERROR then ''Internal Server Error'' else ''Unknown'')"

definition response_clear :: "http_response \<Rightarrow> http_response" where
  "response_clear r = (msg_clear r)\<lparr>rp_status := status_OK, rp_statusMsg := ''OK''\<rparr>"

definition response_new :: http_response where
  "response_new = response_clear
     \<lparr>hm_headers = [], hm_version = [], hm_body = [], hm_bodyView = sp_empty, hm_complete = False,
      hm_contentLen = 0, hm_scanned = 0, rp_status = status_OK, rp_statusMsg = ''OK''\<rparr>"

definition setStatus :: "int \<Rightarrow> string \<Rightarrow> http_response \<Rightarrow> http_response" where
  "setStatus st msg r = r\<lparr>rp_status := st, rp_statusMsg := (if msg = [] then statusToString st else msg)\<rparr>"

definition setNotFound :: "http_response \<Rightarrow> http_response" where
  "setNotFound r = (setStatus status_NOT_FOUND ''Not Found'' r)\<lparr>hm_body := ''404 Not Found''\<rparr>"

definition response_encode :: "http_response \<Rightarrow> string \<Rightarrow> int \<times> string" where
  "response_encode r buf =
     (let line = snprintf4096 (cstr (hm_version r) @ '' '' @ dec_int (rp_status r) @ '' '' @
            cstr (rp_statusMsg r) @ CRLF);
          buf' = buf @ line @ encode_rest r
      in (to_int32 (int (length buf' - length buf)), buf'))"

text \<open>The status number is read from the pointer of the word, not from its bounds.\<close>

definition response_tryDecode ::
  "string_piece \<Rightarrow> bool \<Rightarrow> http_response \<Rightarrow> (parse_result \<times> http_response) outcome" where
  "response_tryDecode buf copyBody r =
     obind (msg_tryDecode buf copyBody r) (\<lambda>(res, line1, r).
     if sp_size line1 \<noteq> 0 then
       let (ver, line1) = eatWord line1;
           (code, line1) = eatWord line1
       in Inr (res, r\<lparr>hm_version := toString ver, rp_status := atoi (drop (pb code) (mem code)),
                 rp_statusMsg := toString (trimSpace line1)\<rparr>)
     else Inr (res, r))"

subsection \<open>The parser\<close>

datatype parse_state = REQUEST_LINE | HEADERS | BODY | COMPLETE

record http_parser =
  ps_req :: http_request
  ps_resp :: http_response
  ps_inputBuffer :: string
  ps_state :: parse_state

definition parser_new :: http_parser where
  "parser_new = \<lparr>ps_req = request_new, ps_resp = response_new, ps_inputBuffer = [], ps_state = REQUEST_LINE\<rparr>"

definition parseRequest :: "string \<Rightarrow> bool \<Rightarrow> http_parser \<Rightarrow> (parse_result \<times> http_parser) outcome" where
  "parseRequest data copyBody p =
     (let p = p\<lparr>ps_inputBuffer := ps_inputBuffer p @ data\<rparr> in
      obind (request_tryDecode (sp_of_string (ps_inputBuffer p)) copyBody (ps_req p)) (\<lambda>(res, req).
      let p = p\<lparr>ps_req := req\<rparr> in
      Inr (res, if res = Complete then p\<lparr>ps_inputBuffer := drop (getByte req) (ps_inputBuffer p)\<rparr>
                else if res = Parse_Error then p\<lparr>ps_inputBuffer := []\<rparr> else p)))"

definition buildResponse :: "http_response \<Rightarrow> string" where
  "buildResponse r = snd (response_encode r [])"

definition parser_clear :: "http_parser \<Rightarrow> http_parser" where
  "parser_clear p = p\<lparr>ps_req := request_clear (ps_req p), ps_resp := response_clear (ps_resp p),
     ps_inputBuffer := [], ps_state := REQUEST_LINE\<rparr>"

subsection \<open>Decoding on the bytes themselves\<close>

abbreviation in_line :: "char \<Rightarrow> bool" where
  "in_line c \<equiv> c \<noteq> CHR 0x0A \<and> c \<noteq> CHR 0x0D"

text \<open>A reference for the header loop, on the text after the first line.\<close>

function parse_headers :: "string \<Rightarrow> (string, string) smap \<Rightarrow> bool \<times> (string, string) smap" where
  "parse_headers s hdrs =
     (if s = [] then (True, hdrs) else if length s < 2 then (False, hdrs)
      else let line = takeWhile in_line (drop 2 s);
               rest = dropWhile in_line (drop 2 s);
               key = takeWhile (\<lambda>c. \<not> isspace c) (dropWhile isspace line);
               val = strip isspace (dropWhile (\<lambda>c. \<not> isspace c) (dropWhile isspace line))
           in if key \<noteq> [] \<and> val \<noteq> [] \<and> last key = CHR '':''
              then parse_headers rest (smap_set (map tolower (butlast key)) val hdrs)
              else (key = [] \<and> val = [] \<and> rest = [], hdrs))"
  by pat_completeness auto
termination
proof (relation "measure (\<lambda>(s, hdrs). length s)", goal_cases)
  case (2 s hdrs line rest key val)
  have "length rest \<le> length (drop 2 s)" unfolding 2 by (rule length_dropWhile_le)
  then show ?case using 2(2) by simp
qed simp

declare parse_headers.simps [simp del]

lemma piece_last:
  assumes "wf_piece sp" "toString sp \<noteq> []"
  shows "mem sp ! (pb sp + length (toString sp) - 1) = last (toString sp)"
    "toString (sp_sub sp 0 (-1)) = butlast (toString sp)"
proof -
  have len: "length (toString sp) = pe sp - pb sp" using assms(1) by (auto simp: toString_def wf_piece_def)
  have lt: "pb sp < pe sp" using len assms(2) by (metis length_greater_0_conv zero_less_diff)
  have "last (toString sp) = segment (pb sp) (pe sp - pb sp) (mem sp) ! (pe sp - pb sp - 1)"
    using last_conv_nth [OF assms(2)] len by (simp add: toString_def)
  also have "\<dots> = mem sp ! (pb sp + (pe sp - pb sp - 1))"
    using lt wf_pieceD [OF assms(1)] by (intro nth_segment) simp_all
  finally show "mem sp ! (pb sp + length (toString sp) - 1) = last (toString sp)"
    using len lt by simp
  have "nat (int (pe sp) + -1) = pe sp - 1" using lt by simp
  then show "toString (sp_sub sp 0 (-1)) = butlast (toString sp)"
    using len lt wf_pieceD [OF assms(1)]
    by (simp add: sp_sub_def toString_def butlast_conv_take take_segment min_absorb1)
qed

lemma eat2_wf:
  assumes "wf_piece sp" "2 \<le> length (toString sp)"
  shows "wf_piece (snd (eat sp 2))" "toString (snd (eat sp 2)) = drop 2 (toString sp)"
  using assms by (auto simp: eat_def wf_piece_def toString_def drop_segment)

lemma header_loop_parses:
  "wf_piece sl \<Longrightarrow> header_loop sl hdrs = parse_headers (toString sl) hdrs"
proof (induction sl hdrs rule: header_loop.induct)
  case (1 sl hdrs)
  consider "toString sl = []" | "length (toString sl) = 1" | "2 \<le> length (toString sl)"
    by (cases "toString sl"; cases "tl (toString sl)") auto
  then show ?case
  proof cases
    case 1
    then show ?thesis using "1.prems" by (simp add: header_loop.simps [of sl] parse_headers.simps [of "[]"])
  next
    case 2
    let ?s = "snd (eat sl 2)"
    have "pe sl = pb sl + 1" using 2 "1.prems" by (auto simp: toString_def wf_piece_def)
    then have past: "\<not> pb ?s < pe ?s" "pe ?s \<noteq> pb ?s" by (simp_all add: eat_def)
    then have "sp_size (fst (eatWord (fst (eatLine ?s)))) = 0" "\<not> sp_is_empty (snd (eatLine ?s))"
      using eatLine_past_end [of ?s] by (simp_all add: eatLine_def Let_def skip_while_stop sp_is_empty_def)
    then show ?thesis
      using 2 "1.prems" by (auto simp: header_loop.simps [of sl] parse_headers.simps [of "toString sl"] Let_def)
  next
    case 3
    let ?s = "snd (eat sl 2)"
    obtain line rest where lr: "eatLine ?s = (line, rest)" by fastforce
    obtain key val where kv: "eatWord line = (key, val)" by fastforce
    note e = eat2_wf [OF "1.prems" 3]
    note l = eatLine_wf [OF e(1) lr] and w = eatWord_wf [OF _ kv]
    note w = w [OF l(1)] and t = trimSpace_wf [of val, OF w(2)]
    have ne: "toString sl \<noteq> []" "sp_size sl \<noteq> 0" using 3 "1.prems" by auto
    have ih: "header_loop rest h = parse_headers (toString rest) h"
      if "h = smap_set (map tolower (toString (sp_sub key 0 (-1)))) (toString (trimSpace val)) hdrs"
        "sp_size key \<noteq> 0" "sp_size (trimSpace val) \<noteq> 0" "mem key ! (pb key + sp_size key - 1) = CHR '':''" for h
      using "1.IH" [OF _ refl refl refl refl] "1.prems" ne that lr kv l(2) by auto
    show ?thesis
    proof (cases "toString key \<noteq> []")
      case True
      note kl = piece_last [OF w(1) True]
      show ?thesis
        using ne 3 lr kv ih kl True l w t e
        by (simp add: header_loop.simps [of sl] parse_headers.simps [of "toString sl"] Let_def)
    next
      case False
      then show ?thesis
        using ne 3 lr kv l w t e
        by (simp add: header_loop.simps [of sl] parse_headers.simps [of "toString sl"] Let_def)
    qed
  qed
qed

text \<open>The search for the end of the header.\<close>

lemma prefix_take: "prefix xs ys \<longleftrightarrow> take (length xs) ys = xs"
proof
  assume "take (length xs) ys = xs"
  then have "ys = xs @ drop (length xs) ys" by (metis append_take_drop_id)
  then show "prefix xs ys" by (rule prefixI)
qed (auto simp: prefix_def)

lemma scan_test:
  assumes "wf_piece buf" "sc + 4 \<le> length (toString buf)"
  shows "mem buf ! (pb buf + sc) = CHR 0x0D \<and> memcmp (drop (pb buf + sc) (mem buf)) (CRLF @ CRLF) 4 = 0 \<longleftrightarrow>
    prefix (CRLF @ CRLF) (drop sc (toString buf))"
proof -
  let ?s = "toString buf"
  have "drop (pb buf + sc) (mem buf) = drop sc (drop (pb buf) (mem buf))" by (simp add: add.commute)
  also have "\<dots> = drop sc ?s @ drop (pe buf) (mem buf)"
    using toString_drop [OF assms(1)] assms(2) by simp
  finally have d: "drop (pb buf + sc) (mem buf) = drop sc ?s @ drop (pe buf) (mem buf)" .
  have "memcmp (drop (pb buf + sc) (mem buf)) (CRLF @ CRLF) 4 = 0 \<longleftrightarrow> take 4 (drop sc ?s) = CRLF @ CRLF"
    using memcmp_prefix [of 4 "drop sc ?s" "CRLF @ CRLF" "drop (pe buf) (mem buf)" "[]"] assms(2) d
    by (simp add: memcmp_zero CRLF_def)
  also have "\<dots> \<longleftrightarrow> prefix (CRLF @ CRLF) (drop sc ?s)"
    using prefix_take [of "CRLF @ CRLF" "drop sc ?s"] by (simp add: CRLF_def eval_nat_numeral)
  finally have *: "memcmp (drop (pb buf + sc) (mem buf)) (CRLF @ CRLF) 4 = 0 \<longleftrightarrow> prefix (CRLF @ CRLF) (drop sc ?s)" .
  have "prefix (CRLF @ CRLF) (drop sc ?s) \<Longrightarrow> mem buf ! (pb buf + sc) = CHR 0x0D"
    using assms by (auto simp: prefix_def CRLF_def toString_def wf_piece_def nth_segment
        dest!: arg_cong [of _ _ "\<lambda>xs. xs ! 0"])
  with * show ?thesis by blast
qed

lemma scan_header_found:
  assumes "wf_piece buf" "sc \<le> i" "prefix (CRLF @ CRLF) (drop i (toString buf))"
    and "\<And>j. sc \<le> j \<Longrightarrow> j < i \<Longrightarrow> \<not> prefix (CRLF @ CRLF) (drop j (toString buf))"
  shows "scan_header buf sc = (True, i)"
  using assms
proof (induction buf sc rule: scan_header.induct)
  case (1 buf sc)
  have "length (CRLF @ CRLF) \<le> length (drop i (toString buf))" by (rule prefix_length_le [OF "1.prems"(3)])
  then have "i + 4 \<le> length (toString buf)" by (simp add: CRLF_def)
  then have c: "sc + 4 \<le> sp_size buf" "sc + 4 \<le> length (toString buf)" using "1.prems"(1,2) by simp_all
  note test = scan_test [OF "1.prems"(1) c(2)]
  show ?case
  proof (cases "sc = i")
    case True
    then show ?thesis using c test "1.prems"(3) by (subst scan_header.simps) simp
  next
    case False
    then have "\<not> prefix (CRLF @ CRLF) (drop sc (toString buf))" using "1.prems"(2,4) by simp
    moreover have "scan_header buf (Suc sc) = (True, i)"
      using "1.IH" c calculation test False "1.prems" by simp
    ultimately show ?thesis using c test by (auto simp: scan_header.simps [of buf sc])
  qed
qed

lemma scan_header_none:
  assumes "wf_piece buf" "\<And>j. sc \<le> j \<Longrightarrow> \<not> prefix (CRLF @ CRLF) (drop j (toString buf))"
  shows "scan_header buf sc = (False, max sc (length (toString buf) - 3))"
  using assms
proof (induction buf sc rule: scan_header.induct)
  case (1 buf sc)
  show ?case
  proof (cases "sc + 4 \<le> length (toString buf)")
    case True
    have "scan_header buf (Suc sc) = (False, max (Suc sc) (length (toString buf) - 3))"
      using "1.IH" True scan_test [OF "1.prems"(1) True] "1.prems" by simp
    then show ?thesis
      using True scan_test [OF "1.prems"(1) True] "1.prems" by (simp add: scan_header.simps [of buf sc])
  next
    case False
    then show ?thesis using "1.prems"(1) by (simp add: scan_header.simps [of buf sc])
  qed
qed

subsection \<open>The wire format\<close>

text \<open>Lines joined by line breaks, followed by the empty line that ends a header.\<close>

fun join_lines :: "string list \<Rightarrow> string" where
  "join_lines [] = []"
| "join_lines [x] = x"
| "join_lines (x # xs) = x @ CRLF @ join_lines xs"

definition line_ok :: "string \<Rightarrow> bool" where
  "line_ok x \<longleftrightarrow> x \<noteq> [] \<and> (\<forall>c \<in> set x. in_line c)"

lemma not_prefix_CR: "line_ok x \<Longrightarrow> j < length x \<Longrightarrow> \<not> prefix (CRLF @ CRLF) (drop j (x @ t))"
  by (auto simp: line_ok_def CRLF_def prefix_def Cons_nth_drop_Suc [symmetric] dest!: nth_mem)

lemma header_end_first:
  assumes "xs \<noteq> []" "\<forall>x \<in> set xs. line_ok x" "j < length (join_lines xs)"
  shows "\<not> prefix (CRLF @ CRLF) (drop j (join_lines xs @ CRLF @ CRLF @ rest))"
  using assms
proof (induction xs arbitrary: j rule: join_lines.induct)
  case (2 x)
  then show ?case using not_prefix_CR [of x j] by simp
next
  case (3 x y ys)
  let ?t = "join_lines (y # ys) @ CRLF @ CRLF @ rest"
  have all: "join_lines (x # y # ys) @ CRLF @ CRLF @ rest = x @ CRLF @ ?t" by simp
  obtain c cs where y: "?t = c # cs" "in_line c"
    using 3(3) by (cases ys; cases y) (auto simp: line_ok_def)
  consider "j < length x" | "j = length x" | "j = length x + 1" | "length x + 2 \<le> j" by linarith
  then show ?case
  proof cases
    case 1
    then show ?thesis using not_prefix_CR [of x j "CRLF @ ?t"] 3(3) all by simp
  next
    case 2
    then show ?thesis unfolding all using y by (simp add: CRLF_def prefix_def)
  next
    case 3
    then show ?thesis unfolding all by (simp add: CRLF_def prefix_def)
  next
    case 4
    then obtain i where i: "j = length x + (2 + i)" using le_Suc_ex by (metis add.assoc)
    have "drop j (x @ CRLF @ ?t) = drop (j - length x - 2) ?t" unfolding i by (simp add: CRLF_def)
    moreover have "j - length x - 2 < length (join_lines (y # ys))" using 4 3(4) by (simp add: CRLF_def)
    ultimately show ?thesis using 3(1) [of "j - length x - 2"] 3(3) unfolding all by simp
  qed
qed simp

definition header_line :: "string \<times> string \<Rightarrow> string" where
  "header_line h = fst h @ '': '' @ snd h"

text \<open>A header the parser reads back: a name without white space, a value without line breaks and
  without white space at its ends.\<close>

definition header_ok :: "string \<times> string \<Rightarrow> bool" where
  "header_ok h \<longleftrightarrow> (\<forall>c \<in> set (fst h). \<not> isspace c) \<and> line_ok (snd h) \<and>
     \<not> isspace (hd (snd h)) \<and> \<not> isspace (last (snd h))"

definition add_header :: "(string, string) smap \<Rightarrow> string \<times> string \<Rightarrow> (string, string) smap" where
  "add_header m h = smap_set (map tolower (fst h)) (snd h) m"

lemma isspace_in_line: "\<not> isspace c \<Longrightarrow> in_line c"
  by (auto simp: isspace_def)

lemma header_line_ok: "header_ok h \<Longrightarrow> line_ok (header_line h)"
  by (auto simp: header_ok_def line_ok_def header_line_def isspace_def)

lemma strip_space:
  assumes "v \<noteq> []" "\<not> isspace (hd v)" "\<not> isspace (last v)"
  shows "strip isspace ('' '' @ v) = v"
proof -
  have "dropWhile isspace ('' '' @ v) = v" using assms(1,2) by (cases v) (simp_all add: isspace_def)
  moreover have "dropWhile isspace (rev v) = rev v"
    using assms(1,3) by (cases "rev v") (simp_all add: last_rev [symmetric])
  ultimately show ?thesis by (simp add: strip_def)
qed

lemma header_line_words:
  assumes "header_ok h"
  shows "takeWhile (\<lambda>c. \<not> isspace c) (dropWhile isspace (header_line h)) = fst h @ '':''"
    "strip isspace (dropWhile (\<lambda>c. \<not> isspace c) (dropWhile isspace (header_line h))) = snd h"
proof -
  have k: "\<forall>c \<in> set (fst h). \<not> isspace c" and v: "snd h \<noteq> []" "\<not> isspace (hd (snd h))" "\<not> isspace (last (snd h))"
    using assms by (auto simp: header_ok_def line_ok_def)
  have colon: "\<not> isspace CHR '':''" "isspace CHR '' ''" by (simp_all add: isspace_def)
  have l: "header_line h = (fst h @ '':'') @ '' '' @ snd h" by (simp add: header_line_def)
  have nsp: "\<forall>c \<in> set (fst h @ '':''). \<not> isspace c" using k colon by auto
  have d: "dropWhile isspace (header_line h) = header_line h"
    unfolding l using nsp by (cases "fst h") auto
  have "takeWhile (\<lambda>c. \<not> isspace c) ((fst h @ '':'') @ '' '' @ snd h) = (fst h @ '':'') @ takeWhile (\<lambda>c. \<not> isspace c) ('' '' @ snd h)"
    by (rule takeWhile_append2) (use nsp in blast)
  then show "takeWhile (\<lambda>c. \<not> isspace c) (dropWhile isspace (header_line h)) = fst h @ '':''"
    unfolding d unfolding l using colon by simp
  have "dropWhile (\<lambda>c. \<not> isspace c) ((fst h @ '':'') @ '' '' @ snd h) = dropWhile (\<lambda>c. \<not> isspace c) ('' '' @ snd h)"
    by (rule dropWhile_append2) (use nsp in blast)
  then have "dropWhile (\<lambda>c. \<not> isspace c) (header_line h) = '' '' @ snd h"
    unfolding l using colon by simp
  then show "strip isspace (dropWhile (\<lambda>c. \<not> isspace c) (dropWhile isspace (header_line h))) = snd h"
    unfolding d using strip_space [OF v] by simp
qed

lemma parse_headers_wire:
  assumes "\<forall>h \<in> set hs. header_ok h"
  shows "parse_headers (concat (map (\<lambda>h. CRLF @ header_line h) hs)) m = (True, foldl add_header m hs)"
  using assms
proof (induction hs arbitrary: m)
  case Nil
  then show ?case by (simp add: parse_headers.simps [of "[]"])
next
  case (Cons h hs)
  let ?r = "concat (map (\<lambda>h. CRLF @ header_line h) hs)"
  have h: "header_ok h" "line_ok (header_line h)" using Cons.prems header_line_ok by simp_all
  have r: "takeWhile in_line ?r = []" "dropWhile in_line ?r = ?r" by (cases hs; simp add: CRLF_def)+
  have "takeWhile in_line (header_line h @ ?r) = header_line h @ takeWhile in_line ?r"
    "dropWhile in_line (header_line h @ ?r) = dropWhile in_line ?r"
    using h(2) by (auto simp: line_ok_def intro!: takeWhile_append2 dropWhile_append2)
  then have l: "takeWhile in_line (header_line h @ ?r) = header_line h" "dropWhile in_line (header_line h @ ?r) = ?r"
    using r by simp_all
  have v: "snd h \<noteq> []" using h(1) by (auto simp: header_ok_def line_ok_def)
  show ?case
    using Cons.IH [of "add_header m h"] Cons.prems l v header_line_words [OF h(1)]
    by (simp add: parse_headers.simps [of "CRLF @ header_line h @ ?r"] Let_def add_header_def)
      (simp add: CRLF_def)
qed

lemma join_lines_headers:
  "join_lines (line1 # map header_line hs) = line1 @ concat (map (\<lambda>h. CRLF @ header_line h) hs)"
  by (induction hs arbitrary: line1) simp_all

text \<open>A complete message on the wire, followed by whatever comes next.\<close>

definition wire :: "string \<Rightarrow> (string \<times> string) list \<Rightarrow> string \<Rightarrow> string" where
  "wire line1 hs body = line1 @ concat (map (\<lambda>h. CRLF @ header_line h) hs) @ CRLF @ CRLF @ body"

lemma body_length_dec:
  assumes "smap_get ''content-length'' (hm_headers m) = Some (dec n)" "n < 2 ^ 63"
  shows "body_length m = n"
  using assms strtoll_dec [OF assms(2), of "[]"] dec_digits(2) [of n]
  by (simp add: body_length_def getHeader_def atoll_def to_size_def)

text \<open>The decoder up to the end of the header.\<close>

lemma msg_decode_head:
  fixes m :: "'a http_msg_scheme"
  assumes fresh: "\<not> hm_complete m" "hm_contentLen m = 0" "hm_scanned m = 0"
    and ok: "line_ok line1" "\<forall>h \<in> set hs. header_ok h"
    and full: "full = wire line1 hs body @ rest"
  shows "\<exists>l. msg_tryDecode (sp_of_string full) True m =
      after_headers (sp_of_string full) True l
        (m\<lparr>hm_headers := foldl add_header (hm_headers m) hs, hm_scanned := length (wire line1 hs [])\<rparr>) \<and>
    wf_piece l \<and> toString l = line1"
proof -
  let ?head = "line1 @ concat (map (\<lambda>h. CRLF @ header_line h) hs)"
  let ?buf = "sp_of_string full" and ?n = "length ?head"
  have full: "full = ?head @ CRLF @ CRLF @ body @ rest" by (simp add: full wire_def)
  have wf: "wf_piece ?buf" "toString ?buf = full" by simp_all
  have lines: "\<forall>x \<in> set (line1 # map header_line hs). line_ok x" using ok header_line_ok by auto
  have n0: "0 < ?n" using ok(1) by (simp add: line_ok_def)
  have scan: "scan_header ?buf 0 = (True, ?n)"
  proof (rule scan_header_found [OF wf(1)])
    show "prefix (CRLF @ CRLF) (drop ?n (toString ?buf))" unfolding wf(2) full by simp
    show "\<not> prefix (CRLF @ CRLF) (drop j (toString ?buf))" if "j < ?n" for j
      using header_end_first [OF _ lines, of j "body @ rest"] that unfolding wf(2) full join_lines_headers by simp
  qed simp
  let ?sl = "sp_at full 0 ?n"
  have sl: "wf_piece ?sl" "toString ?sl = ?head" "\<not> sp_is_empty ?sl"
    using n0 by (simp_all add: full sp_at_def wf_piece_def toString_def segment_def sp_is_empty_def)
  obtain l r where lr: "eatLine ?sl = (l, r)" by fastforce
  note e = eatLine_wf [OF sl(1) lr]
  have in1: "\<forall>c \<in> set line1. in_line c" using ok(1) by (simp add: line_ok_def)
  have tl: "takeWhile in_line (concat (map (\<lambda>h. CRLF @ header_line h) hs)) = []"
    "dropWhile in_line (concat (map (\<lambda>h. CRLF @ header_line h) hs)) = concat (map (\<lambda>h. CRLF @ header_line h) hs)"
    by (cases hs; simp add: CRLF_def)+
  have "takeWhile in_line ?head = line1 @ takeWhile in_line (concat (map (\<lambda>h. CRLF @ header_line h) hs))"
    "dropWhile in_line ?head = dropWhile in_line (concat (map (\<lambda>h. CRLF @ header_line h) hs))"
    using in1 by (auto intro!: takeWhile_append2 dropWhile_append2)
  then have l: "toString l = line1" "toString r = concat (map (\<lambda>h. CRLF @ header_line h) hs)"
    using e(7,8) sl(2) tl by simp_all
  have loop: "header_loop r (hm_headers m) = (True, foldl add_header (hm_headers m) hs)"
    using header_loop_parses [OF e(2)] l(2) parse_headers_wire [OF ok(2)] by simp
  have n4: "?n + 4 = length (wire line1 hs [])" by (simp add: wire_def CRLF_def)
  have "msg_tryDecode ?buf True m = after_headers ?buf True l
      (m\<lparr>hm_headers := foldl add_header (hm_headers m) hs, hm_scanned := ?n + 4\<rparr>)"
    using fresh scan sl(3) lr loop by (simp add: msg_tryDecode_def sp_of_string_def)
  with e(1) l(1) show ?thesis unfolding n4 by blast
qed

lemma msg_decode_wire:
  fixes m :: "'a http_msg_scheme"
  assumes fresh: "\<not> hm_complete m" "hm_contentLen m = 0" "hm_scanned m = 0"
    and ok: "line_ok line1" "\<forall>h \<in> set hs. header_ok h"
    and hdrs: "hdrs = foldl add_header (hm_headers m) hs"
    and len: "smap_get ''content-length'' hdrs = Some (dec (length body))"
    and small: "length (wire line1 hs body) < 2 ^ 63"
  shows "\<exists>l. msg_tryDecode (sp_of_string (wire line1 hs body @ rest)) True m =
      Inr (Complete, l, m\<lparr>hm_headers := hdrs, hm_contentLen := length body, hm_body := body,
        hm_complete := True, hm_scanned := length (wire line1 hs body)\<rparr>) \<and>
    wf_piece l \<and> toString l = line1"
proof -
  define full where "full = wire line1 hs body @ rest"
  let ?buf = "sp_of_string full" and ?n = "length (wire line1 hs [])"
  let ?m = "m\<lparr>hm_headers := hdrs, hm_scanned := ?n\<rparr>"
  obtain l where l: "msg_tryDecode ?buf True m = after_headers ?buf True l ?m" "wf_piece l" "toString l = line1"
    using msg_decode_head [OF fresh ok full_def] hdrs by blast
  have body_len: "length body < 2 ^ 63" using small by (simp add: wire_def)
  have w: "length (wire line1 hs body) = length body + ?n" by (simp add: wire_def)
  have fit: "uadd (length body) ?n = length body + ?n" "uadd ?n (length body) = length body + ?n"
    "length body + ?n \<le> length full"
    using small w by (simp_all add: uadd_def full_def)
  have load: "string_assign ?n (length body) full = Inr body"
    using body_len by (simp add: string_assign_def vector_max_def load_def full_def segment_def wire_def)
  have "decode_body ?buf True (?m\<lparr>hm_contentLen := length body\<rparr>) =
      Inr (Complete, m\<lparr>hm_headers := hdrs, hm_contentLen := length body, hm_body := body,
        hm_complete := True, hm_scanned := length (wire line1 hs body)\<rparr>)"
    using fit load fresh(1) w by (simp add: decode_body_def sp_of_string_def sp_size_def)
  moreover have "body_length ?m = length body" by (rule body_length_dec) (use len body_len in simp_all)
  ultimately have "after_headers ?buf True l ?m =
      Inr (Complete, l, m\<lparr>hm_headers := hdrs, hm_contentLen := length body, hm_body := body,
        hm_complete := True, hm_scanned := length (wire line1 hs body)\<rparr>)"
    using fit(1,3) by (simp add: after_headers_def)
  then have "msg_tryDecode ?buf True m = Inr (Complete, l, m\<lparr>hm_headers := hdrs, hm_contentLen := length body,
      hm_body := body, hm_complete := True, hm_scanned := length (wire line1 hs body)\<rparr>)"
    using l(1) by simp
  with l(2,3) show ?thesis unfolding full_def by blast
qed

subsection \<open>Printing and reading back\<close>

lemma length_dec: "n < 10 ^ Suc k \<Longrightarrow> length (dec n) \<le> Suc k"
proof (induction k arbitrary: n)
  case 0
  then show ?case by (simp add: dec.simps [of n])
next
  case (Suc k)
  show ?case
  proof (cases "n < 10")
    case False
    have "n div 10 < 10 ^ Suc k" using Suc.prems by (simp add: div_less_iff_less_mult mult.commute)
    with Suc.IH [of "n div 10"] False show ?thesis by (simp add: dec.simps [of n])
  qed (simp add: dec.simps [of n])
qed

definition auto_headers :: "nat \<Rightarrow> (string \<times> string) list" where
  "auto_headers n = [(''Connection'', ''Keep-Alive''), (''Content-Length'', dec n)]"

lemma auto_headers_ok: "\<forall>h \<in> set (auto_headers n). header_ok h"
proof -
  have d: "\<forall>c \<in> set (dec n). \<not> isspace c" using dec_digits(1) isdigit_not by blast
  have ne: "dec n \<noteq> []" using dec_digits(2) by simp
  have "line_ok (dec n)" using d ne isspace_in_line by (simp add: line_ok_def)
  moreover have "\<not> isspace (hd (dec n))" "\<not> isspace (last (dec n))" using d ne by simp_all
  moreover have "\<forall>c \<in> set ''Content-Length''. \<not> isspace c" by (simp add: isspace_def)
  ultimately have "header_ok (''Content-Length'', dec n)" unfolding header_ok_def fst_conv snd_conv by blast
  moreover have "header_ok (''Connection'', ''Keep-Alive'')"
    by (simp add: header_ok_def line_ok_def isspace_def)
  ultimately show ?thesis by (simp add: auto_headers_def)
qed

lemma tolower_length: "map tolower ''Content-Length'' = ''content-length''"
  by code_simp

lemma auto_headers_length:
  "smap_get ''content-length'' (foldl add_header m (hs @ auto_headers n)) = Some (dec n)"
proof -
  have "foldl add_header m (hs @ auto_headers n) =
      smap_set ''content-length'' (dec n) (add_header (foldl add_header m hs) (''Connection'', ''Keep-Alive''))"
    using tolower_length by (simp add: auto_headers_def add_header_def)
  then show ?thesis by (simp add: smap_get_set)
qed

lemma encode_headers_lines:
  "CRLF @ encode_headers hs = concat (map (\<lambda>h. CRLF @ header_line h) hs) @ CRLF"
  by (induction hs) (auto simp: encode_headers_def header_line_def)

lemma encode_rest_wire:
  assumes "sp_size (getBody m) < 2 ^ 63"
  shows "line1 @ CRLF @ encode_rest m =
    wire line1 (hm_headers m @ auto_headers (sp_size (getBody m))) (toString (getBody m))"
proof -
  have "length (dec (sp_size (getBody m))) \<le> Suc 18" using assms by (intro length_dec) simp
  then have "snprintf4096 (''Content-Length: '' @ dec (sp_size (getBody m)) @ CRLF) =
      ''Content-Length: '' @ dec (sp_size (getBody m)) @ CRLF"
    by (simp add: snprintf4096_def CRLF_def)
  then show ?thesis
    using encode_headers_lines [of "hm_headers m"]
    by (simp add: encode_rest_def wire_def auto_headers_def header_line_def)
qed

text \<open>Words of a line.\<close>

definition word_ok :: "string \<Rightarrow> bool" where
  "word_ok w \<longleftrightarrow> w \<noteq> [] \<and> (\<forall>c \<in> set w. \<not> isspace c \<and> c \<noteq> NUL)"

lemma eatWord_word:
  assumes "wf_piece l" "eatWord l = (w, r)" "toString l = pre @ a @ post"
    and "\<forall>c \<in> set pre. isspace c" "a \<noteq> []" "\<forall>c \<in> set a. \<not> isspace c" "post = [] \<or> isspace (hd post)"
  shows "toString w = a" "toString r = post" "wf_piece w" "wf_piece r" "mem w = mem l" "mem r = mem l"
    "pe w = pb r"
proof -
  note e = eatWord_wf [OF assms(1,2)]
  have "dropWhile isspace (pre @ a @ post) = dropWhile isspace (a @ post)"
    by (rule dropWhile_append2) (use assms(4) in blast)
  also have "\<dots> = a @ post" using assms(5,6) by (cases a) auto
  finally have d: "dropWhile isspace (toString l) = a @ post" using assms(3) by simp
  have p: "takeWhile (\<lambda>c. \<not> isspace c) post = []" "dropWhile (\<lambda>c. \<not> isspace c) post = post"
    using assms(7) by (cases post; simp)+
  have "takeWhile (\<lambda>c. \<not> isspace c) (a @ post) = a @ takeWhile (\<lambda>c. \<not> isspace c) post"
    "dropWhile (\<lambda>c. \<not> isspace c) (a @ post) = dropWhile (\<lambda>c. \<not> isspace c) post"
    using assms(6) by (auto intro!: takeWhile_append2 dropWhile_append2)
  then show "toString w = a" "toString r = post" using e(6,7) d p by simp_all
  show "wf_piece w" "wf_piece r" "mem w = mem l" "mem r = mem l" using e by simp_all
  show "pe w = pb r" using assms(2) skip_while_ge by (auto simp: eatWord_def Let_def sp_at_def)
qed

lemma word_ok_line: "word_ok w \<Longrightarrow> line_ok w"
  using isspace_in_line by (auto simp: word_ok_def line_ok_def)

lemma cstr_word: "word_ok w \<Longrightarrow> cstr w = w"
  by (auto simp: word_ok_def cstr_def takeWhile_eq_all_conv)

lemma method_words:
  "m \<noteq> M_UNKNOWN \<Longrightarrow> word_ok (methodToString m)"
  "m \<noteq> M_UNKNOWN \<Longrightarrow> stringToMethod (methodToString m) = m"
  by (cases m; simp add: methodToString_def stringToMethod_def word_ok_def isspace_def)+

definition request_target :: "http_request \<Rightarrow> string" where
  "request_target r = (if rq_queryUrl r = [] then rq_url r else rq_queryUrl r)"

definition request_line :: "http_request \<Rightarrow> string" where
  "request_line r = methodToString (rq_method r) @ '' '' @ request_target r @ '' '' @ hm_version r"

text \<open>The requests that survive printing: a known method, a target and a version without white
  space, headers the parser can read, and a request line that fits the local array.\<close>

definition request_ok :: "http_request \<Rightarrow> bool" where
  "request_ok r \<longleftrightarrow> rq_method r \<noteq> M_UNKNOWN \<and> word_ok (request_target r) \<and> word_ok (hm_version r) \<and>
     (\<forall>h \<in> set (hm_headers r). header_ok h) \<and> length (request_line r) \<le> 4093 \<and>
     wf_piece (getBody r) \<and> length (snd (request_encode r [])) < 2 ^ 31"

lemma parseUrlParams_fields:
  "rq_method (parseUrlParams r) = rq_method r" "rq_queryUrl (parseUrlParams r) = rq_queryUrl r"
  "hm_version (parseUrlParams r) = hm_version r" "hm_body (parseUrlParams r) = hm_body r"
  "hm_headers (parseUrlParams r) = hm_headers r" "hm_scanned (parseUrlParams r) = hm_scanned r"
  "rq_url (parseUrlParams r) = takeWhile (\<lambda>c. c \<noteq> CHR ''?'') (rq_queryUrl r)"
proof -
  let ?t = "takeWhile (\<lambda>c. c \<noteq> CHR ''?'') (rq_queryUrl r)"
  have le: "length ?t \<le> length (rq_queryUrl r)" by (rule length_takeWhile_le)
  show "rq_url (parseUrlParams r) = ?t"
  proof (cases "length ?t < length (rq_queryUrl r)")
    case True
    then show ?thesis
      using takeWhile_eq_take [of "\<lambda>c. c \<noteq> CHR ''?''" "rq_queryUrl r"]
      by (simp add: parseUrlParams_def find_from_def Let_def segment_def)
  next
    case False
    then have "?t = rq_queryUrl r" using le takeWhile_eq_take [of "\<lambda>c. c \<noteq> CHR ''?''" "rq_queryUrl r"] by simp
    with False show ?thesis by (simp add: parseUrlParams_def find_from_def Let_def del: takeWhile_eq_all_conv)
  qed
qed (simp_all add: parseUrlParams_def Let_def split: option.split)

lemma request_encode_wire:
  assumes "request_ok r"
  shows "snd (request_encode r []) =
    wire (request_line r) (hm_headers r @ auto_headers (sp_size (getBody r))) (toString (getBody r))"
proof -
  have ok: "word_ok (methodToString (rq_method r))" "word_ok (request_target r)" "word_ok (hm_version r)"
    "length (request_line r) \<le> 4093" "wf_piece (getBody r)" "length (snd (request_encode r [])) < 2 ^ 31"
    using assms method_words by (auto simp: request_ok_def)
  have "snd (request_encode r []) = snprintf4096 (request_line r @ CRLF) @ encode_rest r"
    using ok(1-3) cstr_word by (simp add: request_encode_def request_target_def request_line_def Let_def)
  also have "snprintf4096 (request_line r @ CRLF) = request_line r @ CRLF"
    using ok(4) by (simp add: snprintf4096_def CRLF_def)
  finally have e: "snd (request_encode r []) = request_line r @ CRLF @ encode_rest r" by simp
  have "sp_size (getBody r) \<le> length (snd (request_encode r []))"
    unfolding e using ok(5) by (simp add: encode_rest_def)
  with ok(6) have "sp_size (getBody r) < 2 ^ 63" by simp
  then show ?thesis unfolding e by (rule encode_rest_wire)
qed

end
