(* ===== verification/Http_Properties.thy ===== *)
theory Http_Properties
  imports Http
begin

text \<open>
  What the HTTP codec promises: a message that was printed is read back, whatever follows it in the
  buffer; a message that arrives in pieces is decoded as if it had arrived at once; and the length
  the peer announces is used unchecked.
\<close>

subsection \<open>The first line\<close>

lemma request_line_words:
  assumes "word_ok a" "word_ok b" "word_ok c" "wf_piece l" "toString l = a @ '' '' @ b @ '' '' @ c"
    and "eatWord l = (w1, l1)" "eatWord l1 = (w2, l2)" "eatWord l2 = (w3, l3)"
  shows "toString w1 = a" "toString w2 = b" "toString w3 = c"
proof -
  have sp: "isspace CHR '' ''" by (simp add: isspace_def)
  have w: "a \<noteq> []" "\<forall>x \<in> set a. \<not> isspace x" "b \<noteq> []" "\<forall>x \<in> set b. \<not> isspace x" "c \<noteq> []" "\<forall>x \<in> set c. \<not> isspace x"
    using assms(1-3) by (simp_all add: word_ok_def)
  note e1 = eatWord_word [OF assms(4,6), of "[]" a "'' '' @ b @ '' '' @ c"]
  have 1: "toString w1 = a" "toString l1 = '' '' @ b @ '' '' @ c" "wf_piece l1"
    using e1(1,2,4) w assms(5) sp by simp_all
  note e2 = eatWord_word [OF 1(3) assms(7), of "'' ''" b "'' '' @ c"]
  have 2: "toString w2 = b" "toString l2 = '' '' @ c" "wf_piece l2"
    using e2(1,2,4) w 1(2) sp by simp_all
  note e3 = eatWord_word [OF 2(3) assms(8), of "'' ''" c "[]"]
  show "toString w1 = a" "toString w2 = b" "toString w3 = c"
    using 1(1) 2(1) e3(1) w 2(2) sp by simp_all
qed

lemma request_line_ok: "request_ok r \<Longrightarrow> line_ok (request_line r)"
proof -
  assume "request_ok r"
  then have "line_ok (methodToString (rq_method r))" "line_ok (request_target r)" "line_ok (hm_version r)"
    using word_ok_line method_words(1) by (simp_all add: request_ok_def)
  then show ?thesis unfolding request_line_def line_ok_def by (simp add: ball_Un)
qed

subsection \<open>Round trips\<close>

lemma request_decodes:
  assumes "request_ok r"
  shows "\<exists>r'. request_tryDecode (sp_of_string (snd (request_encode r []) @ rest)) True request_new = Inr (Complete, r') \<and>
    rq_method r' = rq_method r \<and> rq_queryUrl r' = request_target r \<and>
    rq_url r' = takeWhile (\<lambda>c. c \<noteq> CHR ''?'') (request_target r) \<and>
    hm_version r' = hm_version r \<and> hm_body r' = toString (getBody r) \<and>
    hm_headers r' = foldl add_header [] (hm_headers r @ auto_headers (sp_size (getBody r))) \<and>
    int (getByte r') = fst (request_encode r [])"
proof -
  let ?hs = "hm_headers r @ auto_headers (sp_size (getBody r))" and ?b = "toString (getBody r)"
  have ok: "word_ok (methodToString (rq_method r))" "stringToMethod (methodToString (rq_method r)) = rq_method r"
    "word_ok (request_target r)" "word_ok (hm_version r)" "\<forall>h \<in> set ?hs. header_ok h" "wf_piece (getBody r)"
    and small: "length (snd (request_encode r [])) < 2 ^ 31"
    using assms method_words auto_headers_ok by (auto simp: request_ok_def)
  note enc = request_encode_wire [OF assms]
  have len: "sp_size (getBody r) = length ?b" using ok(6) by simp
  have size: "length (wire (request_line r) ?hs ?b) < 2 ^ 63" using small enc by simp
  have new: "\<not> hm_complete request_new" "hm_contentLen request_new = 0" "hm_scanned request_new = 0"
    "hm_headers request_new = []" by (simp_all add: request_new_def request_clear_def msg_clear_def)
  obtain l where l: "msg_tryDecode (sp_of_string (wire (request_line r) ?hs ?b @ rest)) True request_new =
      Inr (Complete, l, request_new\<lparr>hm_headers := foldl add_header [] ?hs, hm_contentLen := length ?b, hm_body := ?b,
        hm_complete := True, hm_scanned := length (wire (request_line r) ?hs ?b)\<rparr>)"
    "wf_piece l" "toString l = request_line r"
    using msg_decode_wire [OF new(1-3) request_line_ok [OF assms] ok(5) refl _ size, of rest]
      auto_headers_length [of _ "hm_headers r" "sp_size (getBody r)"] new(4) len by auto
  obtain w1 l1 w2 l2 w3 l3 where e: "eatWord l = (w1, l1)" "eatWord l1 = (w2, l2)" "eatWord l2 = (w3, l3)"
    by (metis surj_pair)
  note words = request_line_words [OF ok(1,3,4) l(2) _ e]
  have w: "toString w1 = methodToString (rq_method r)" "toString w2 = request_target r" "toString w3 = hm_version r"
    using words l(3) by (simp_all add: request_line_def)
  have "sp_size l \<noteq> 0" using l(2,3) request_line_ok [OF assms] by (auto simp: line_ok_def)
  moreover have "fst (request_encode r []) = int (length (snd (request_encode r [])))"
    using small by (simp add: request_encode_def Let_def)
  ultimately show ?thesis
    using l(1) e w ok(2) enc
    by (simp add: request_tryDecode_def parseUrlParams_fields getByte_def)
qed

text \<open>C20. A printed request is read back. For every request whose parts the grammar can carry
  (\<open>request_ok\<close>), decoding the bytes \<open>encode\<close> produced, followed by anything, completes, consumes
  exactly those bytes, and gives back the method, the target, the version, the body and the headers
  (with lower-case names, and with the two headers \<open>encode\<close> adds).\<close>

theorem request_roundtrip:
  assumes "request_ok r"
  shows "\<exists>r'. request_tryDecode (sp_of_string (snd (request_encode r []) @ rest)) True request_new = Inr (Complete, r') \<and>
    rq_method r' = rq_method r \<and> rq_queryUrl r' = request_target r \<and>
    rq_url r' = takeWhile (\<lambda>c. c \<noteq> CHR ''?'') (request_target r) \<and>
    hm_version r' = hm_version r \<and> hm_body r' = toString (getBody r) \<and>
    hm_headers r' = foldl add_header [] (hm_headers r @ auto_headers (sp_size (getBody r))) \<and>
    int (getByte r') = fst (request_encode r [])"
  by (rule request_decodes [OF assms])

theorem request_roundtrip_witness:
  "\<exists>r'. request_tryDecode (sp_of_string (snd (request_encode
      (request_new\<lparr>rq_method := M_POST, rq_queryUrl := ''/a?k=v'', hm_headers := [(''Host'', ''yy'')], hm_body := ''hi''\<rparr>) []) @ ''GET''))
      True request_new = Inr (Complete, r') \<and>
    rq_method r' = M_POST \<and> rq_url r' = ''/a'' \<and> hm_body r' = ''hi''"
proof -
  let ?r = "request_new\<lparr>rq_method := M_POST, rq_queryUrl := ''/a?k=v'', hm_headers := [(''Host'', ''yy'')], hm_body := ''hi''\<rparr>"
  have "length (snd (request_encode ?r [])) = 79" by code_simp
  moreover have "word_ok (request_target ?r)" "word_ok (hm_version ?r)" "\<forall>h \<in> set (hm_headers ?r). header_ok h"
    "length (request_line ?r) = 20" by code_simp+
  moreover have "wf_piece (getBody ?r)"
    by (simp add: getBody_def request_new_def request_clear_def msg_clear_def sp_empty_def sp_size_def)
  ultimately have "request_ok ?r" by (simp add: request_ok_def)
  from request_roundtrip [OF this, of "''GET''"]
  have "\<exists>r'. request_tryDecode (sp_of_string (snd (request_encode ?r []) @ ''GET'')) True request_new = Inr (Complete, r') \<and>
    rq_method r' = rq_method ?r \<and> rq_url r' = takeWhile (\<lambda>c. c \<noteq> CHR ''?'') (request_target ?r) \<and>
    hm_body r' = toString (getBody ?r)" by blast
  moreover have "takeWhile (\<lambda>c. c \<noteq> CHR ''?'') (request_target ?r) = ''/a''" "toString (getBody ?r) = ''hi''"
    by code_simp+
  ultimately show ?thesis by simp
qed

text \<open>The responses that survive printing.\<close>

definition status_line :: "http_response \<Rightarrow> string" where
  "status_line r = hm_version r @ '' '' @ dec_int (rp_status r) @ '' '' @ rp_statusMsg r"

definition response_ok :: "http_response \<Rightarrow> bool" where
  "response_ok r \<longleftrightarrow> word_ok (hm_version r) \<and> 0 \<le> rp_status r \<and> rp_status r < 2 ^ 31 \<and>
     line_ok (rp_statusMsg r) \<and> NUL \<notin> set (rp_statusMsg r) \<and>
     \<not> isspace (hd (rp_statusMsg r)) \<and> \<not> isspace (last (rp_statusMsg r)) \<and>
     (\<forall>h \<in> set (hm_headers r). header_ok h) \<and> length (status_line r) \<le> 4093 \<and>
     wf_piece (getBody r) \<and> length (snd (response_encode r [])) < 2 ^ 31"

lemma response_encode_wire:
  assumes "response_ok r"
  shows "snd (response_encode r []) =
    wire (status_line r) (hm_headers r @ auto_headers (sp_size (getBody r))) (toString (getBody r))"
proof -
  have ok: "word_ok (hm_version r)" "cstr (rp_statusMsg r) = rp_statusMsg r" "length (status_line r) \<le> 4093"
    "wf_piece (getBody r)" "length (snd (response_encode r [])) < 2 ^ 31"
    using assms by (auto simp: response_ok_def cstr_def takeWhile_eq_all_conv)
  have "snd (response_encode r []) = snprintf4096 (status_line r @ CRLF) @ encode_rest r"
    using ok(1,2) cstr_word by (simp add: response_encode_def status_line_def Let_def)
  also have "snprintf4096 (status_line r @ CRLF) = status_line r @ CRLF"
    using ok(3) by (simp add: snprintf4096_def CRLF_def)
  finally have e: "snd (response_encode r []) = status_line r @ CRLF @ encode_rest r" by simp
  have "sp_size (getBody r) \<le> length (snd (response_encode r []))"
    unfolding e using ok(4) by (simp add: encode_rest_def)
  with ok(5) have "sp_size (getBody r) < 2 ^ 63" by simp
  then show ?thesis unfolding e by (rule encode_rest_wire)
qed

lemma dec_int_word: "0 \<le> n \<Longrightarrow> dec_int n = dec (nat n)" "\<forall>c \<in> set (dec k). \<not> isspace c"
  using dec_digits(1) isdigit_not by (auto simp: dec_int_def)

lemma status_line_ok: "response_ok r \<Longrightarrow> line_ok (status_line r)"
proof -
  assume a: "response_ok r"
  then have "line_ok (hm_version r)" "line_ok (rp_statusMsg r)" using word_ok_line by (simp_all add: response_ok_def)
  moreover have "\<forall>c \<in> set (dec_int (rp_status r)). in_line c"
    using a dec_int_word isspace_in_line by (simp add: response_ok_def)
  ultimately show ?thesis unfolding status_line_def line_ok_def by (simp add: ball_Un)
qed

lemma status_line_words:
  assumes "response_ok r" "wf_piece l" "toString l = status_line r"
    and e: "eatWord l = (w1, l1)" "eatWord l1 = (w2, l2)"
  shows "toString w1 = hm_version r" "atoi (drop (pb w2) (mem w2)) = rp_status r"
    "toString (trimSpace l2) = rp_statusMsg r"
proof -
  let ?d = "dec_int (rp_status r)" and ?m = "rp_statusMsg r"
  have sp: "isspace CHR '' ''" "\<not> isdigit CHR '' ''" by (simp_all add: isspace_def isdigit_def)
  have v: "hm_version r \<noteq> []" "\<forall>x \<in> set (hm_version r). \<not> isspace x" and m: "?m \<noteq> []" "\<not> isspace (hd ?m)" "\<not> isspace (last ?m)"
    and st: "0 \<le> rp_status r" "rp_status r < 2 ^ 31"
    using assms(1) by (auto simp: response_ok_def word_ok_def line_ok_def)
  have d: "?d = dec (nat (rp_status r))" "?d \<noteq> []" "\<forall>x \<in> set ?d. \<not> isspace x"
    using dec_int_word st(1) dec_digits(2) by simp_all
  note e1 = eatWord_word [OF assms(2) e(1), of "[]" "hm_version r" "'' '' @ ?d @ '' '' @ ?m"]
  have 1: "toString w1 = hm_version r" "toString l1 = '' '' @ ?d @ '' '' @ ?m" "wf_piece l1"
    using e1(1,2,4) v assms(3) sp by (simp_all add: status_line_def)
  note e2 = eatWord_word [OF 1(3) e(2), of "'' ''" ?d "'' '' @ ?m"]
  have 2: "toString w2 = ?d" "toString l2 = '' '' @ ?m" "wf_piece w2" "wf_piece l2" "mem w2 = mem l2" "pe w2 = pb l2"
    using e2 d(2,3) 1(2) sp by simp_all
  have "drop (pb w2) (mem w2) = toString w2 @ drop (pb l2) (mem l2)" using toString_drop [OF 2(3)] 2(5,6) by simp
  also have "drop (pb l2) (mem l2) = ('' '' @ ?m) @ drop (pe l2) (mem l2)" using toString_drop [OF 2(4)] 2(2) by simp
  finally have "drop (pb w2) (mem w2) = dec (nat (rp_status r)) @ CHR '' '' # ?m @ drop (pe l2) (mem l2)"
    using 2(1) d(1) by simp
  moreover have "strtoll (dec (nat (rp_status r)) @ CHR '' '' # ?m @ drop (pe l2) (mem l2)) = int (nat (rp_status r))"
    by (rule strtoll_dec) (use st sp in simp_all)
  ultimately show "atoi (drop (pb w2) (mem w2)) = rp_status r" using st by (simp add: atoi_def)
  show "toString w1 = hm_version r" "toString (trimSpace l2) = ?m"
    using 1(1) 2(2) trimSpace_wf(3) [OF 2(4)] strip_space [OF m] by simp_all
qed

text \<open>C21. A printed response is read back: version, status number, status text, headers and body,
  and the decoder consumes exactly the printed bytes. The status number is read by \<open>atoi\<close> from the
  buffer beyond the word, which the space after it stops.\<close>

theorem response_roundtrip:
  assumes "response_ok r"
  shows "\<exists>r'. response_tryDecode (sp_of_string (snd (response_encode r []) @ rest)) True response_new = Inr (Complete, r') \<and>
    hm_version r' = hm_version r \<and> rp_status r' = rp_status r \<and> rp_statusMsg r' = rp_statusMsg r \<and>
    hm_body r' = toString (getBody r) \<and>
    hm_headers r' = foldl add_header [] (hm_headers r @ auto_headers (sp_size (getBody r))) \<and>
    int (getByte r') = fst (response_encode r [])"
proof -
  let ?hs = "hm_headers r @ auto_headers (sp_size (getBody r))" and ?b = "toString (getBody r)"
  have ok: "\<forall>h \<in> set ?hs. header_ok h" "wf_piece (getBody r)" and small: "length (snd (response_encode r [])) < 2 ^ 31"
    using assms auto_headers_ok by (auto simp: response_ok_def)
  note enc = response_encode_wire [OF assms]
  have len: "sp_size (getBody r) = length ?b" using ok(2) by simp
  have size: "length (wire (status_line r) ?hs ?b) < 2 ^ 63" using small enc by simp
  have new: "\<not> hm_complete response_new" "hm_contentLen response_new = 0" "hm_scanned response_new = 0"
    "hm_headers response_new = []" by (simp_all add: response_new_def response_clear_def msg_clear_def)
  obtain l where l: "msg_tryDecode (sp_of_string (wire (status_line r) ?hs ?b @ rest)) True response_new =
      Inr (Complete, l, response_new\<lparr>hm_headers := foldl add_header [] ?hs, hm_contentLen := length ?b, hm_body := ?b,
        hm_complete := True, hm_scanned := length (wire (status_line r) ?hs ?b)\<rparr>)"
    "wf_piece l" "toString l = status_line r"
    using msg_decode_wire [OF new(1-3) status_line_ok [OF assms] ok(1) refl _ size, of rest]
      auto_headers_length [of _ "hm_headers r" "sp_size (getBody r)"] new(4) len by auto
  obtain w1 l1 w2 l2 where e: "eatWord l = (w1, l1)" "eatWord l1 = (w2, l2)" by (metis surj_pair)
  note w = status_line_words [OF assms l(2,3) e]
  have "sp_size l \<noteq> 0" using l(2,3) status_line_ok [OF assms] by (auto simp: line_ok_def)
  moreover have "fst (response_encode r []) = int (length (snd (response_encode r [])))"
    using small by (simp add: response_encode_def Let_def)
  ultimately show ?thesis using l(1) e w enc by (simp add: response_tryDecode_def getByte_def)
qed

theorem response_roundtrip_witness:
  "\<exists>r'. response_tryDecode (sp_of_string (snd (response_encode (setNotFound response_new) []) @ ''x'')) True response_new =
      Inr (Complete, r') \<and> rp_status r' = 404 \<and> rp_statusMsg r' = ''Not Found'' \<and> hm_body r' = ''404 Not Found''"
proof -
  let ?r = "setNotFound response_new"
  have "length (snd (response_encode ?r [])) = 83" "length (status_line ?r) = 22" "word_ok (hm_version ?r)"
    "line_ok (rp_statusMsg ?r)" "hm_headers ?r = []" "rp_status ?r = 404" "rp_statusMsg ?r = ''Not Found''"
    by code_simp+
  moreover have "wf_piece (getBody ?r)"
    by (simp add: getBody_def setNotFound_def setStatus_def response_new_def response_clear_def msg_clear_def sp_empty_def sp_size_def)
  ultimately have "response_ok ?r" by (simp add: response_ok_def isspace_def)
  from response_roundtrip [OF this, of "''x''"]
  have "\<exists>r'. response_tryDecode (sp_of_string (snd (response_encode ?r []) @ ''x'')) True response_new = Inr (Complete, r') \<and>
    rp_status r' = rp_status ?r \<and> rp_statusMsg r' = rp_statusMsg ?r \<and> hm_body r' = toString (getBody ?r)" by blast
  moreover have "rp_status ?r = 404" "rp_statusMsg ?r = ''Not Found''" "toString (getBody ?r) = ''404 Not Found''"
    by code_simp+
  ultimately show ?thesis by simp
qed

subsection \<open>Messages that arrive in pieces\<close>

lemma scan_test_append:
  "sc + 4 \<le> length a \<Longrightarrow> prefix (CRLF @ CRLF) (drop sc (a @ b)) \<longleftrightarrow> prefix (CRLF @ CRLF) (drop sc a)"
  by (simp add: prefix_take CRLF_def)

lemma scan_header_step:
  "scan_header (sp_of_string s) sc =
    (if sc + 4 \<le> length s
     then (if prefix (CRLF @ CRLF) (drop sc s) then (True, sc) else scan_header (sp_of_string s) (Suc sc))
     else (False, sc))"
proof (cases "sc + 4 \<le> length s")
  case True
  have "sp_size (sp_of_string s) = length s" "wf_piece (sp_of_string s)" "toString (sp_of_string s) = s" by simp_all
  then show ?thesis using scan_test [of "sp_of_string s" sc] True by (simp add: scan_header.simps [of "sp_of_string s" sc])
next
  case False
  then show ?thesis by (simp add: scan_header.simps [of "sp_of_string s" sc])
qed

text \<open>The search resumes where it stopped and finds what a search from the start would find.\<close>

lemma scan_header_resume:
  "scan_header (sp_of_string (a @ b)) (snd (scan_header (sp_of_string a) sc)) = scan_header (sp_of_string (a @ b)) sc"
  "fst (scan_header (sp_of_string a) sc) \<Longrightarrow> scan_header (sp_of_string (a @ b)) sc = scan_header (sp_of_string a) sc"
proof (induction "length a - sc" arbitrary: sc)
  case 0
  {
    case 1
    then show ?case using 0 by (simp add: scan_header_step [of a sc])
  next
    case 2
    then show ?case using 0 by (simp add: scan_header_step [of a sc])
  }
next
  case (Suc n)
  have n: "n = length a - Suc sc" using Suc(3) by simp
  note ih = Suc(1,2) [OF n]
  {
    case 1
    then show ?case
      using ih(1) scan_test_append [of sc a b]
      by (simp add: scan_header_step [of a sc] scan_header_step [of "a @ b" sc])
  next
    case 2
    then show ?case
      using ih(2) scan_test_append [of sc a b]
      by (auto simp: scan_header_step [of a sc] scan_header_step [of "a @ b" sc] split: if_splits)
  }
qed

lemma scan_header_le: "fst (scan_header (sp_of_string s) sc) \<Longrightarrow> snd (scan_header (sp_of_string s) sc) + 4 \<le> length s"
proof (induction "length s - sc" arbitrary: sc)
  case 0
  then show ?case by (simp add: scan_header_step [of s sc])
next
  case (Suc n)
  then show ?case by (auto simp: scan_header_step [of s sc] split: if_splits)
qed

text \<open>The part of the decoder between the header and the body, as a function of the bytes.\<close>

lemma eatLine_eq:
  assumes "wf_piece x" "wf_piece y" "toString x = toString y" "eatLine x = (l, r)" "eatLine y = (l', r')"
  shows "toString l = toString l'" "header_loop r h = header_loop r' h" "wf_piece l" "wf_piece l'"
proof -
  note e = eatLine_wf [OF assms(1,4)] and e' = eatLine_wf [OF assms(2,5)]
  show "toString l = toString l'" "wf_piece l" "wf_piece l'" using e e' assms(3) by simp_all
  show "header_loop r h = header_loop r' h"
    using header_loop_parses [OF e(2)] header_loop_parses [OF e'(2)] e(8) e'(8) assms(3) by simp
qed

lemma decode_body_not_complete:
  assumes "decode_body buf c m = Inr (NotComplete, m')"
  shows "m' = m" "\<not> hm_complete m" "sp_size buf < uadd (hm_contentLen m) (hm_scanned m)"
  using assms by (auto simp: decode_body_def outcome_iff split: if_splits)

lemma msg_tryDecode_resume:
  fixes m :: "'a http_msg_scheme"
  assumes fresh: "\<not> hm_complete m" "hm_contentLen m = 0"
    and first: "msg_tryDecode (sp_of_string a) True m = Inr (NotComplete, l, m1)"
  shows "l = sp_empty \<and> \<not> hm_complete m1 \<and>
      msg_tryDecode (sp_of_string (a @ b)) True m1 = msg_tryDecode (sp_of_string (a @ b)) True m \<or>
    (\<exists>l'. wf_piece l \<and> wf_piece l' \<and> toString l' = toString l \<and> \<not> hm_complete m1 \<and> hm_contentLen m1 \<noteq> 0 \<and>
      msg_tryDecode (sp_of_string (a @ b)) True m =
        obind (decode_body (sp_of_string (a @ b)) True m1) (\<lambda>(r, m). Inr (r, l', m)))"
proof -
  let ?ab = "sp_of_string (a @ b)"
  obtain found sc where sc: "scan_header (sp_of_string a) (hm_scanned m) = (found, sc)" by fastforce
  have resume: "scan_header ?ab sc = scan_header ?ab (hm_scanned m)"
    using scan_header_resume(1) [of a b "hm_scanned m"] sc by simp
  show ?thesis
  proof (cases "found \<and> 0 < sc")
    case False
    then have "sp_is_empty (if found then sp_at (mem (sp_of_string a)) (pb (sp_of_string a)) sc else sp_empty)"
      by (auto simp: sp_is_empty_def sp_at_def sp_empty_def)
    then have "l = sp_empty" "m1 = m\<lparr>hm_scanned := sc\<rparr>"
      using first fresh sc by (simp_all add: msg_tryDecode_def Let_def del: if_split)
    moreover have "msg_tryDecode ?ab True (m\<lparr>hm_scanned := sc\<rparr>) = msg_tryDecode ?ab True m"
      using fresh resume by (simp add: msg_tryDecode_def)
    ultimately show ?thesis using fresh by simp
  next
    case True
    have full: "scan_header ?ab (hm_scanned m) = (True, sc)"
      using scan_header_resume(2) [of a "hm_scanned m" b] sc True by simp
    have le: "sc + 4 \<le> length a" using scan_header_le [of a "hm_scanned m"] sc True by simp
    let ?x = "sp_at a 0 sc" and ?y = "sp_at (a @ b) 0 sc"
    have xy: "wf_piece ?x" "wf_piece ?y" "toString ?x = toString ?y" "\<not> sp_is_empty ?x" "\<not> sp_is_empty ?y"
      using le True by (simp_all add: sp_at_def wf_piece_def toString_def segment_def sp_is_empty_def)
    obtain lx rx ly ry where e: "eatLine ?x = (lx, rx)" "eatLine ?y = (ly, ry)" by (metis surj_pair)
    note eq = eatLine_eq [OF xy(1-3) e]
    obtain ok hdrs where loop: "header_loop rx (hm_headers m) = (ok, hdrs)" by fastforce
    let ?m = "m\<lparr>hm_headers := hdrs, hm_scanned := sc + 4\<rparr>"
    have a: "msg_tryDecode (sp_of_string a) True m =
        (if \<not> ok then Inr (Parse_Error, lx, m\<lparr>hm_headers := hdrs, hm_scanned := sc\<rparr>) else after_headers (sp_of_string a) True lx ?m)"
      and ab: "msg_tryDecode ?ab True m =
        (if \<not> ok then Inr (Parse_Error, ly, m\<lparr>hm_headers := hdrs, hm_scanned := sc\<rparr>) else after_headers ?ab True ly ?m)"
      using fresh sc full True xy(4,5) e loop eq(2) by (simp_all add: msg_tryDecode_def sp_of_string_def)
    let ?n = "?m\<lparr>hm_contentLen := body_length ?m\<rparr>"
    have ok: "ok" and "after_headers (sp_of_string a) True lx ?m = Inr (NotComplete, l, m1)"
      using a first by (auto split: if_splits)
    then have n: "\<not> (sp_size (sp_of_string a) < uadd (hm_contentLen ?n) (hm_scanned ?n) \<and> getHeader ''expect'' ?n \<noteq> [])"
      "l = lx" "decode_body (sp_of_string a) True ?n = Inr (NotComplete, m1)"
      by (auto simp: after_headers_def Let_def outcome_iff split: if_splits)
    note nc = decode_body_not_complete [OF n(3)]
    have len: "hm_contentLen ?n \<noteq> 0"
    proof
      assume "hm_contentLen ?n = 0"
      then have "uadd (hm_contentLen ?n) (hm_scanned ?n) \<le> sc + 4" by (simp add: uadd_def)
      then show False using nc(3) le by simp
    qed
    have "getHeader ''expect'' ?n = []" using n(1) nc(3) by blast
    then have "after_headers ?ab True ly ?m = obind (decode_body ?ab True ?n) (\<lambda>(r, m). Inr (r, ly, m))"
      by (simp add: after_headers_def)
    then show ?thesis using ab ok n(2) nc(1,2) len eq by auto
  qed
qed

text \<open>What the request decoder does with the first line, as an update of the request.\<close>

definition set_line :: "string_piece \<Rightarrow> http_request \<Rightarrow> http_request" where
  "set_line line1 r =
     (if sp_size line1 \<noteq> 0 then
        let (methodView, line1) = eatWord line1; (urlView, line1) = eatWord line1; (verView, line1) = eatWord line1
        in parseUrlParams (r\<lparr>rq_method := stringToMethod (toString methodView),
             rq_queryUrl := toString urlView, hm_version := toString verView\<rparr>)
      else r)"

lemma request_tryDecode_set_line:
  "request_tryDecode buf c r = obind (msg_tryDecode buf c r) (\<lambda>(res, l, r). Inr (res, set_line l r))"
  unfolding request_tryDecode_def set_line_def by (rule obind_cong [OF refl]) (simp add: Let_def split: prod.split)

lemma set_line_eq:
  assumes "wf_piece x" "wf_piece y" "toString x = toString y"
  shows "set_line x r = set_line y r"
proof -
  obtain a1 b1 a2 b2 a3 b3 where x: "eatWord x = (a1, b1)" "eatWord b1 = (a2, b2)" "eatWord b2 = (a3, b3)"
    by (metis surj_pair)
  obtain c1 d1 c2 d2 c3 d3 where y: "eatWord y = (c1, d1)" "eatWord d1 = (c2, d2)" "eatWord d2 = (c3, d3)"
    by (metis surj_pair)
  note x1 = eatWord_wf [OF assms(1) x(1)] and y1 = eatWord_wf [OF assms(2) y(1)]
  note x2 = eatWord_wf [OF x1(2) x(2)] and y2 = eatWord_wf [OF y1(2) y(2)]
  note x3 = eatWord_wf [OF x2(2) x(3)] and y3 = eatWord_wf [OF y2(2) y(3)]
  have "toString a1 = toString c1" "toString a2 = toString c2" "toString a3 = toString c3"
    using x1 x2 x3 y1 y2 y3 assms(3) by simp_all
  moreover have "sp_size x = sp_size y" using assms by simp
  ultimately show ?thesis using x y by (simp add: set_line_def)
qed

lemma set_line_fields:
  "hm_complete (set_line l r) = hm_complete r" "hm_contentLen (set_line l r) = hm_contentLen r"
  "hm_scanned (set_line l r) = hm_scanned r"
  "set_line l (r\<lparr>hm_body := x, hm_complete := y, hm_scanned := z\<rparr>) = (set_line l r)\<lparr>hm_body := x, hm_complete := y, hm_scanned := z\<rparr>"
  by (cases r; simp add: set_line_def parseUrlParams_def Let_def case_prod_unfold split: option.split)+

lemma decode_body_set_line:
  "decode_body buf True (set_line l r) = obind (decode_body buf True r) (\<lambda>(res, r). Inr (res, set_line l r))"
  using set_line_fields
  by (auto simp: decode_body_def obind_assoc obind_def split: sum.split)

lemma request_resume:
  assumes fresh: "\<not> hm_complete r" "hm_contentLen r = 0"
    and first: "request_tryDecode (sp_of_string a) True r = Inr (NotComplete, r1)"
  shows "request_tryDecode (sp_of_string (a @ b)) True r1 = request_tryDecode (sp_of_string (a @ b)) True r"
proof -
  let ?ab = "sp_of_string (a @ b)"
  have sl0: "set_line sp_empty x = x" for x by (simp add: set_line_def sp_empty_def sp_size_def)
  obtain l m1 where m: "msg_tryDecode (sp_of_string a) True r = Inr (NotComplete, l, m1)" "r1 = set_line l m1"
    using first by (auto simp: request_tryDecode_set_line outcome_iff)
  from msg_tryDecode_resume [OF fresh m(1), of b] show ?thesis
  proof (elim disjE exE conjE)
    assume "l = sp_empty" "msg_tryDecode ?ab True m1 = msg_tryDecode ?ab True r"
    then show ?thesis using m(2) sl0 by (simp add: request_tryDecode_set_line)
  next
    fix l' assume l': "wf_piece l" "wf_piece l'" "toString l' = toString l"
      and m1: "\<not> hm_complete m1" "hm_contentLen m1 \<noteq> 0"
      and full: "msg_tryDecode ?ab True r = obind (decode_body ?ab True m1) (\<lambda>(r, m). Inr (r, l', m))"
    have "msg_tryDecode ?ab True r1 = obind (decode_body ?ab True r1) (\<lambda>(r, m). Inr (r, sp_empty, m))"
      using m(2) m1 set_line_fields by (simp add: msg_tryDecode_def)
    then have "request_tryDecode ?ab True r1 = obind (decode_body ?ab True r1) Inr"
      by (simp add: request_tryDecode_set_line obind_assoc case_prod_unfold sl0)
    also have "\<dots> = obind (decode_body ?ab True m1) (\<lambda>(res, r). Inr (res, set_line l r))"
      by (simp add: m(2) decode_body_set_line)
    also have "\<dots> = request_tryDecode ?ab True r"
      using set_line_eq [OF l'(1,2) l'(3) [symmetric]] by (simp add: request_tryDecode_set_line full obind_assoc case_prod_unfold)
    finally show ?thesis .
  qed
qed

lemma parseRequest_resume:
  assumes "\<not> hm_complete (ps_req p)" "hm_contentLen (ps_req p) = 0"
    and "parseRequest a True p = Inr (NotComplete, p1)"
  shows "parseRequest b True p1 = parseRequest (a @ b) True p"
proof -
  let ?ia = "ps_inputBuffer p @ a"
  obtain r1 where r1: "request_tryDecode (sp_of_string ?ia) True (ps_req p) = Inr (NotComplete, r1)"
    "p1 = p\<lparr>ps_inputBuffer := ?ia, ps_req := r1\<rparr>"
    using assms(3) by (auto simp: parseRequest_def Let_def outcome_iff)
  show ?thesis
    using request_resume [OF assms(1,2) r1(1), of b] r1(2) by (simp add: parseRequest_def)
qed

text \<open>Reads of a connection, handed to the parser one by one until it has a verdict.\<close>

fun feed :: "string list \<Rightarrow> http_parser \<Rightarrow> (parse_result \<times> http_parser) outcome" where
  "feed [] p = Inr (NotComplete, p)"
| "feed (d # ds) p = obind (parseRequest d True p) (\<lambda>(res, p). if res = NotComplete then feed ds p else Inr (res, p))"

lemma feed_verdict:
  assumes "\<not> (\<exists>q. parseRequest d True p = Inr (NotComplete, q))"
  shows "feed (d # ds) p = parseRequest d True p"
proof (cases "parseRequest d True p")
  case (Inr x)
  then show ?thesis using assms by (cases x) simp
qed simp

lemma feed_as_one:
  assumes "\<not> hm_complete (ps_req p)" "hm_contentLen (ps_req p) = 0"
    and "parseRequest a True p = Inr (NotComplete, p1)"
  shows "\<exists>k \<le> length ds. feed ds p1 = parseRequest (a @ concat (take k ds)) True p \<and>
    (k < length ds \<longrightarrow> \<not> (\<exists>q. feed ds p1 = Inr (NotComplete, q)))"
  using assms(3)
proof (induction ds arbitrary: a p1)
  case Nil
  then show ?case by simp
next
  case (Cons d ds)
  note one = parseRequest_resume [OF assms(1,2) Cons.prems, of d]
  show ?case
  proof (cases "\<exists>p2. parseRequest d True p1 = Inr (NotComplete, p2)")
    case True
    then obtain p2 where p2: "parseRequest (a @ d) True p = Inr (NotComplete, p2)" "feed (d # ds) p1 = feed ds p2"
      using one by auto
    from Cons.IH [OF p2(1)] obtain k where "k \<le> length ds" "feed ds p2 = parseRequest ((a @ d) @ concat (take k ds)) True p"
      "k < length ds \<longrightarrow> \<not> (\<exists>q. feed ds p2 = Inr (NotComplete, q))" by blast
    with p2(2) show ?thesis by (intro exI [of _ "Suc k"]) simp
  next
    case False
    then have "feed (d # ds) p1 = parseRequest d True p1" by (rule feed_verdict)
    then have "feed (d # ds) p1 = parseRequest (a @ d) True p" "\<not> (\<exists>q. feed (d # ds) p1 = Inr (NotComplete, q))"
      using one False by simp_all
    then show ?thesis by (intro exI [of _ 1]) simp
  qed
qed

text \<open>C22. How a request is cut into reads does not matter: handing the parser the reads one after the
  other until it says something other than \<open>NotComplete\<close> gives the verdict and the state that one
  call with the reads used so far, put together, gives. So the search that resumes at
  \<open>scanned_\<close> misses nothing and nothing is parsed twice.\<close>

theorem chunked_parse_as_one:
  "\<exists>k \<le> length ds. feed (d # ds) parser_new = parseRequest (d @ concat (take k ds)) True parser_new \<and>
    (k < length ds \<longrightarrow> \<not> (\<exists>q. feed (d # ds) parser_new = Inr (NotComplete, q)))"
proof (cases "\<exists>p1. parseRequest d True parser_new = Inr (NotComplete, p1)")
  case True
  have "\<not> hm_complete (ps_req parser_new)" "hm_contentLen (ps_req parser_new) = 0"
    by (simp_all add: parser_new_def request_new_def request_clear_def msg_clear_def)
  from feed_as_one [OF this] True show ?thesis by auto
next
  case False
  then have "feed (d # ds) parser_new = parseRequest d True parser_new" by (rule feed_verdict)
  with False show ?thesis by (intro exI [of _ 0]) simp
qed

theorem chunked_parse_as_one_witness:
  "\<exists>k \<le> 2. feed [''GE'', ''T / HTTP/1.1'', CRLF @ CRLF] parser_new =
     parseRequest (''GE'' @ concat (take k [''T / HTTP/1.1'', CRLF @ CRLF])) True parser_new"
proof -
  have "length [''T / HTTP/1.1'', CRLF @ CRLF] = 2" by simp
  then show ?thesis using chunked_parse_as_one [of "[''T / HTTP/1.1'', CRLF @ CRLF]" "''GE''"] by metis
qed

subsection \<open>A length the peer made up\<close>

lemma atoll_negative: "n < 2 ^ 63 \<Longrightarrow> atoll (CHR ''-'' # dec n) = - int n"
proof -
  assume n: "n < 2 ^ 63"
  have "takeWhile isdigit (dec n) = dec n" using dec_digits(1) by (simp add: takeWhile_eq_all_conv)
  then have "digits_value (dec n) = n" unfolding digits_value_def by (simp only: dec_value)
  then show ?thesis using n by (simp add: atoll_def strtoll_def isspace_def)
qed

definition negative_length :: "nat \<Rightarrow> string" where
  "negative_length n = wire ''GET / HTTP/1.1'' [(''Content-Length'', CHR ''-'' # dec n)] []"

lemma negative_header_ok: "header_ok (''Content-Length'', CHR ''-'' # dec n)"
proof -
  have d: "\<forall>c \<in> set (dec n). \<not> isspace c" and ne: "dec n \<noteq> []"
    using dec_digits isdigit_not by blast+
  have "\<not> isspace CHR ''-''" "\<forall>c \<in> set ''Content-Length''. \<not> isspace c" by (simp_all add: isspace_def)
  moreover have "line_ok (CHR ''-'' # dec n)" using d isspace_in_line by (simp add: line_ok_def)
  moreover have "\<not> isspace (last (CHR ''-'' # dec n))" using d ne by simp
  ultimately show ?thesis unfolding header_ok_def by simp
qed

text \<open>The announced length is used unchecked. In a request whose \<open>Content-Length\<close> is a negative
  number -n, the number becomes a \<open>size_t\<close> just below its maximum; the sum with \<open>scanned_\<close> wraps
  round, so the body counts as received, and copying it throws \<open>std::length_error\<close> out of the
  parser.\<close>

theorem negative_content_length_throws:
  assumes "0 < n" "n \<le> 32"
  shows "request_tryDecode (sp_of_string (negative_length n @ rest)) True request_new = Inl Length_error"
proof -
  let ?h = "(''Content-Length'', CHR ''-'' # dec n)" and ?w = "length (negative_length n)"
  let ?buf = "sp_of_string (negative_length n @ rest)"
  let ?m = "request_new\<lparr>hm_headers := [(''content-length'', CHR ''-'' # dec n)], hm_scanned := ?w\<rparr>"
  have new: "\<not> hm_complete request_new" "hm_contentLen request_new = 0" "hm_scanned request_new = 0"
    "hm_headers request_new = []" by (simp_all add: request_new_def request_clear_def msg_clear_def)
  have line: "line_ok ''GET / HTTP/1.1''" by (simp add: line_ok_def)
  have add: "foldl add_header [] [?h] = [(''content-length'', CHR ''-'' # dec n)]"
    using tolower_length by (simp add: add_header_def)
  obtain l where l: "msg_tryDecode ?buf True request_new = after_headers ?buf True l ?m"
    using msg_decode_head [OF new(1-3) line, of "[?h]" "negative_length n @ rest" "[]" rest]
      negative_header_ok new(4) add by (auto simp: negative_length_def)
  have len: "body_length ?m = 2 ^ 64 - n"
    using assms atoll_negative [of n]
    by (simp add: body_length_def getHeader_def smap_get_def to_size_def zmod_zminus1_eq_if nat_diff_distrib)
  have w: "33 \<le> ?w" "?w \<le> 60"
    using length_dec [of n 1] assms by (simp_all add: negative_length_def wire_def header_line_def CRLF_def)
  have wrap: "uadd (2 ^ 64 - n) ?w = ?w - n"
  proof -
    have "2 ^ 64 - n + ?w = (?w - n) + 2 ^ 64" using assms w by simp
    then have "uadd (2 ^ 64 - n) ?w = ((?w - n) + 2 ^ 64) mod 2 ^ 64" unfolding uadd_def by (rule arg_cong)
    then show ?thesis using w by simp
  qed
  have "after_headers ?buf True l ?m = Inl Length_error"
    using len wrap new(1) assms
    by (simp add: after_headers_def Let_def decode_body_def string_assign_def vector_max_def) arith
  with l show ?thesis by (simp add: request_tryDecode_def)
qed

theorem negative_content_length_throws_witness:
  "request_tryDecode (sp_of_string (negative_length 1 @ '''')) True request_new = Inl Length_error"
  using negative_content_length_throws [of 1 "''''"] by simp

end
