(* ===== verification/Http_Router.thy ===== *)
theory Http_Router
  imports Http
begin

text \<open>
  \<open>HttpRouter\<close> of \<open>Net/HTTP/http.h\<close> and \<open>Net/HTTP/http.cpp\<close>: the table of routes and the dispatch of
  a request. A handler is a function on the request, the response and the state it may change; an
  empty \<open>std::function\<close> is None.
\<close>

type_synonym 's http_handler = "http_request \<times> http_response \<times> 's \<Rightarrow> (http_request \<times> http_response \<times> 's) outcome"

record 's route_entry =
  re_url :: string
  re_method :: http_method
  re_handler :: "'s http_handler"

record 's http_router =
  routes :: "'s route_entry list"
  defaultHandler :: "'s http_handler"

definition defaultNotFoundHandler :: "'s http_handler" where
  "defaultNotFoundHandler = (\<lambda>(req, resp, s).
     let resp = (setStatus status_NOT_FOUND ''Not Found'' resp)\<lparr>hm_body := ''404 Not Found''\<rparr>
     in Inr (req, resp\<lparr>hm_headers := smap_set ''Content-Type'' ''text/plain'' (hm_headers resp)\<rparr>, s))"

definition router_new :: "'s http_router" where
  "router_new = \<lparr>routes = [], defaultHandler = defaultNotFoundHandler\<rparr>"

fun update_route :: "string \<Rightarrow> http_method \<Rightarrow> 's http_handler \<Rightarrow> 's route_entry list \<Rightarrow> 's route_entry list option" where
  "update_route url m h [] = None"
| "update_route url m h (e # es) =
     (if re_url e = url \<and> re_method e = m then Some (e\<lparr>re_handler := h\<rparr> # es)
      else map_option ((#) e) (update_route url m h es))"

definition route :: "string \<Rightarrow> http_method \<Rightarrow> 's http_handler option \<Rightarrow> 's http_router \<Rightarrow> 's http_router" where
  "route url m handler r = (case handler of
     None \<Rightarrow> r
   | Some h \<Rightarrow> (case update_route url m h (routes r) of
       Some es \<Rightarrow> r\<lparr>routes := es\<rparr>
     | None \<Rightarrow> r\<lparr>routes := routes r @ [\<lparr>re_url = url, re_method = m, re_handler = h\<rparr>]\<rparr>))"

definition router_get where "router_get url h = route url M_GET h"
definition router_post where "router_post url h = route url M_POST h"
definition router_put where "router_put url h = route url M_PUT h"
definition router_del where "router_del url h = route url M_DELETE h"
definition router_head where "router_head url h = route url M_HEAD h"

definition setDefaultHandler :: "'s http_handler option \<Rightarrow> 's http_router \<Rightarrow> 's http_router" where
  "setDefaultHandler handler r = (case handler of Some h \<Rightarrow> r\<lparr>defaultHandler := h\<rparr> | None \<Rightarrow> r)"

fun find_route :: "string \<Rightarrow> http_method \<Rightarrow> 's route_entry list \<Rightarrow> 's http_handler option" where
  "find_route url m [] = None"
| "find_route url m (e # es) =
     (if re_url e = url \<and> re_method e = m then Some (re_handler e) else find_route url m es)"

definition routeRequest ::
  "'s http_router \<Rightarrow> http_request \<times> http_response \<times> 's \<Rightarrow> (bool \<times> http_request \<times> http_response \<times> 's) outcome" where
  "routeRequest r = (\<lambda>(req, resp, s).
     case find_route (rq_url req) (rq_method req) (routes r) of
       Some h \<Rightarrow> obind (h (req, resp, s)) (\<lambda>x. Inr (True, x))
     | None \<Rightarrow> obind (defaultHandler r (req, resp, s)) (\<lambda>x. Inr (False, x)))"

definition router_clear :: "'s http_router \<Rightarrow> 's http_router" where
  "router_clear r = r\<lparr>routes := []\<rparr>"

definition router_size :: "'s http_router \<Rightarrow> nat" where
  "router_size r = length (routes r)"

subsection \<open>The routing table as a keyed table\<close>

definition route_key :: "'s route_entry \<Rightarrow> string \<times> http_method" where
  "route_key e = (re_url e, re_method e)"

definition router_inv :: "'s http_router \<Rightarrow> bool" where
  "router_inv r \<longleftrightarrow> distinct (map route_key (routes r))"

definition route_set :: "string \<times> http_method \<Rightarrow> 's http_handler \<Rightarrow> 's http_router \<Rightarrow> 's http_router" where
  "route_set k h r = route (fst k) (snd k) (Some h) r"

definition route_get :: "string \<times> http_method \<Rightarrow> 's http_router \<Rightarrow> 's http_handler option" where
  "route_get k r = find_route (fst k) (snd k) (routes r)"

lemma update_route_None: "update_route u m h es = None \<longleftrightarrow> (u, m) \<notin> route_key ` set es"
  by (induction es) (auto simp: route_key_def)

lemma update_route_Some:
  "update_route u m h es = Some es' \<Longrightarrow>
   map route_key es' = map route_key es \<and>
   (\<forall>u' m'. find_route u' m' es' = (if (u', m') = (u, m) then Some h else find_route u' m' es))"
  by (induction es arbitrary: es') (auto simp: route_key_def split: if_splits)

lemma find_route_append:
  "find_route u m (es @ fs) = (case find_route u m es of Some h \<Rightarrow> Some h | None \<Rightarrow> find_route u m fs)"
  by (induction es) auto

lemma find_route_None: "find_route u m es = None \<longleftrightarrow> (u, m) \<notin> route_key ` set es"
  by (induction es) (auto simp: route_key_def)

lemma route_get_set: "route_get k (route_set k' h r) = (if k = k' then Some h else route_get k r)"
proof (cases "update_route (fst k') (snd k') h (routes r)")
  case None
  then have "find_route (fst k') (snd k') (routes r) = None"
    by (simp add: update_route_None find_route_None)
  with None show ?thesis
    by (auto simp: route_get_def route_set_def route_def find_route_append prod_eq_iff split: option.split)
next
  case (Some es)
  then show ?thesis
    using update_route_Some [OF Some] by (auto simp: route_get_def route_set_def route_def prod_eq_iff)
qed

interpretation routes: keyed_table route_set route_get
  by unfold_locales (rule route_get_set)

lemma route_inv: "router_inv r \<Longrightarrow> router_inv (route u m h r)"
proof (cases h)
  case (Some f)
  assume inv: "router_inv r"
  show ?thesis
  proof (cases "update_route u m f (routes r)")
    case None
    then have "(u, m) \<notin> route_key ` set (routes r)" by (simp add: update_route_None)
    then show ?thesis
      using inv Some None by (auto simp: router_inv_def route_def route_key_def [of "\<lparr>re_url = u, re_method = m, re_handler = f\<rparr>"])
  next
    case S: (Some es)
    then show ?thesis using inv Some update_route_Some [OF S] by (simp add: router_inv_def route_def)
  qed
qed (simp add: route_def)

lemma route_default: "defaultHandler (route u m h r) = defaultHandler r"
  by (simp add: route_def split: option.split)

lemma router_new_inv: "router_inv router_new" "defaultHandler router_new = defaultNotFoundHandler"
  by (simp_all add: router_new_def router_inv_def)

subsection \<open>Properties\<close>

text \<open>C23. Whatever sequence of registrations is made, a request is given to the handler registered
  last for its path and method, and to the default handler when there was none; a path and method
  never occupy two entries, so the table does not grow on re-registration.\<close>

theorem router_last_registration_wins:
  fixes kvs :: "((string \<times> http_method) \<times> 's http_handler) list"
  shows "let r = foldl (\<lambda>r ((u, m), h). route u m (Some h) r) router_new kvs in
    router_inv r \<and> router_size r = card (fst ` set kvs) \<and>
    routeRequest r (req, resp, s) =
      (case map_of (rev kvs) (rq_url req, rq_method req) of
         Some h \<Rightarrow> obind (h (req, resp, s)) (\<lambda>x. Inr (True, x))
       | None \<Rightarrow> obind (defaultNotFoundHandler (req, resp, s)) (\<lambda>x. Inr (False, x)))"
proof -
  define r where "r = foldl (\<lambda>r ((u, m), h). route u m (Some h) r) router_new kvs"
  have r: "r = foldl (\<lambda>t (k, v). route_set k v t) router_new kvs"
    unfolding r_def by (rule arg_cong [of _ _ "\<lambda>f. foldl f router_new kvs"]) (auto simp: route_set_def fun_eq_iff)
  have get: "route_get k r = map_of (rev kvs) k" for k
    using routes.get_upds [of k router_new kvs] unfolding r
    by (simp add: router_new_def route_get_def split: option.splits)
  have inv: "router_inv (foldl (\<lambda>t (k, v). route_set k v t) router_new kvs) \<and>
      defaultHandler (foldl (\<lambda>t (k, v). route_set k v t) router_new kvs) = (defaultNotFoundHandler :: 's http_handler)"
    by (induction kvs rule: rev_induct) (auto simp: router_new_inv route_set_def route_inv route_default)
  have "set (map route_key (routes r)) = {k. route_get k r \<noteq> None}"
    by (auto simp: route_get_def find_route_None)
  also have "\<dots> = fst ` set kvs"
    unfolding get by (auto simp: map_of_eq_None_iff dest: map_of_SomeD)
  finally have "card (fst ` set kvs) = length (map route_key (routes r))"
    using inv distinct_card unfolding r router_inv_def by metis
  then show ?thesis
    using inv get [of "(rq_url req, rq_method req)"] unfolding r_def [symmetric] r [symmetric]
    by (simp add: router_size_def routeRequest_def route_get_def split: option.split)
qed

end
