(* ===== verification/Tcp_Connection.thy ===== *)
theory Tcp_Connection
  imports Event_Loop Tcp_Buffer
begin

text \<open>
  \<open>Net/include/TcpConnection.h\<close>, \<open>Net/src/TcpConnection.cpp\<close> and \<open>Net/include/AutoContext.h\<close>: a TCP
  connection on its event loop. Connections are shared objects: they live in a table indexed by
  their address, next to the kernel state, and a destroyed one is None, which is what
  \<open>weak_from_this().lock()\<close> sees. The closures a connection hands to its loop are the values of
  \<open>conn_task\<close> and \<open>conn_cb\<close>; the ones of the application, and the system calls, are parameters,
  grouped in the record \<open>net\<close>. \<open>errno\<close> is the one of the loop's thread.
\<close>

subsection \<open>State\<close>

text \<open>\<open>AutoContext\<close>: one object per type, made on first use.\<close>

type_synonym 'd auto_context = "nat \<rightharpoonup> 'd"

definition context_of :: "nat \<Rightarrow> 'd \<Rightarrow> 'd auto_context \<Rightarrow> 'd \<times> 'd auto_context" where
  "context_of ty fresh ctx =
     (case ctx ty of Some d \<Rightarrow> (d, ctx) | None \<Rightarrow> (fresh, ctx(ty \<mapsto> fresh)))"

datatype conn_status = Connecting | Connected | DisConnecting | DisConnected

type_synonym cid = nat

record 'm tcp_connection =
  tc_fd :: int
  tc_addr :: string
  tc_loop :: bool
  RecvBuffer :: tcp_buffer
  SendBuffer :: tcp_buffer
  SmessageCallBack :: "'m option"
  ScloseCallBack :: "'m option"
  destructCallBack :: "'m option"
  SerrorCallBack :: "'m option"
  SexceptCallBack :: "'m option"
  Connstatus :: conn_status
  tc_handler :: hid
  isET :: bool

datatype 'm conn_task =
    CT_disconnect cid | CT_setWriting cid | CT_send cid string | CT_ETRead cid | CT_destruct cid | CT_app 'm

datatype 'm conn_cb =
    CC_read cid | CC_ETRead cid | CC_write cid | CC_close cid | CC_error cid | CC_except cid | CC_app 'm

record ('m, 'k, 's) net_world =
  nw_kernel :: 'k
  nw_errno :: errno
  nw_conns :: "cid \<Rightarrow> 'm tcp_connection option"
  nw_app :: 's

type_synonym ('m, 'k, 's) net_loop = "('m conn_task, 'm conn_cb, ('m, 'k, 's) net_world) event_loop"

record ('m, 'k, 's) net =
  net_os :: "'k os"
  net_send :: "int \<Rightarrow> char list \<Rightarrow> 'k \<Rightarrow> (errno + nat) \<times> 'k"
  net_readv :: "int \<Rightarrow> nat list \<Rightarrow> 'k \<Rightarrow> (errno + char list) \<times> 'k"
  net_recv_oob :: "int \<Rightarrow> nat \<Rightarrow> 'k \<Rightarrow> (errno + char list) \<times> 'k"
  net_shutdown :: "int \<Rightarrow> 'k \<Rightarrow> 'k"
  net_close :: "int \<Rightarrow> 'k \<Rightarrow> 'k"
  net_nonblocking :: "int \<Rightarrow> 'k \<Rightarrow> bool"
  net_dequeue :: "'m conn_task task list \<Rightarrow> ('m conn_task task \<times> 'm conn_task task list) option"
  net_call :: "'m \<Rightarrow> cid \<Rightarrow> ('m, 'k, 's) net_loop \<Rightarrow> ('m, 'k, 's) net_loop outcome"
  net_app :: "'m \<Rightarrow> ('m, 'k, 's) net_loop \<Rightarrow> ('m, 'k, 's) net_loop outcome"

subsection \<open>Access to the world\<close>

definition world :: "('u, 'c, 'w) event_loop \<Rightarrow> 'w" where
  "world l = ep_kernel (el_poller l)"

definition on_world :: "('w \<Rightarrow> 'w) \<Rightarrow> ('u, 'c, 'w) event_loop \<Rightarrow> ('u, 'c, 'w) event_loop" where
  "on_world f l = l\<lparr>el_poller := (el_poller l)\<lparr>ep_kernel := f (ep_kernel (el_poller l))\<rparr>\<rparr>"

text \<open>The event loop's system calls work on the kernel part of the world.\<close>

definition lift_os :: "'k os \<Rightarrow> ('m, 'k, 's) net_world os" where
  "lift_os os = \<lparr>
     os_epoll_ctl = (\<lambda>oper fd m h w. let (r, k) = os_epoll_ctl os oper fd m h (nw_kernel w) in (r, w\<lparr>nw_kernel := k\<rparr>)),
     os_epoll_wait = (\<lambda>n t w. let (r, k) = os_epoll_wait os n t (nw_kernel w) in (r, w\<lparr>nw_kernel := k\<rparr>)),
     os_eventfd_write = (\<lambda>fd v w. let (r, k) = os_eventfd_write os fd v (nw_kernel w) in (r, w\<lparr>nw_kernel := k\<rparr>)),
     os_eventfd_read = (\<lambda>fd w. let (r, k) = os_eventfd_read os fd (nw_kernel w) in (r, w\<lparr>nw_kernel := k\<rparr>))\<rparr>"

definition with_conn :: "cid \<Rightarrow> ('m tcp_connection \<Rightarrow> 'a outcome) \<Rightarrow> ('m, 'k, 's) net_loop \<Rightarrow> 'a outcome" where
  "with_conn c f l = (case nw_conns (world l) c of None \<Rightarrow> Inl Null_pointer | Some x \<Rightarrow> f x)"

definition upd_conn :: "cid \<Rightarrow> ('m tcp_connection \<Rightarrow> 'm tcp_connection) \<Rightarrow> ('m, 'k, 's) net_loop \<Rightarrow> ('m, 'k, 's) net_loop" where
  "upd_conn c f l = on_world (\<lambda>w. w\<lparr>nw_conns := (nw_conns w)(c := map_option f (nw_conns w c))\<rparr>) l"

text \<open>The result of a system call: the new kernel state, and \<open>errno\<close> when it failed.\<close>

definition syscall :: "(errno + 'a) \<times> 'k \<Rightarrow> ('m, 'k, 's) net_loop \<Rightarrow> ('m, 'k, 's) net_loop" where
  "syscall rk l = on_world (\<lambda>w. (case fst rk of Inl e \<Rightarrow> w\<lparr>nw_kernel := snd rk, nw_errno := e\<rparr>
     | Inr _ \<Rightarrow> w\<lparr>nw_kernel := snd rk\<rparr>)) l"

definition on_kernel :: "('k \<Rightarrow> 'k) \<Rightarrow> ('m, 'k, 's) net_loop \<Rightarrow> ('m, 'k, 's) net_loop" where
  "on_kernel f l = on_world (\<lambda>w. w\<lparr>nw_kernel := f (nw_kernel w)\<rparr>) l"

text \<open>
  The environment in which the loop runs. A closure of the connection runs on the loop's thread,
  where it never submits anything inline; so the operations that run there need only the part
  without the two dispatch functions.
\<close>

definition conn_base :: "('m, 'k, 's) net \<Rightarrow> ('m conn_task, 'm conn_cb, ('m, 'k, 's) net_world) env" where
  "conn_base net = \<lparr>env_os = lift_os (net_os net), env_callback = (\<lambda>_ _. Inl Empty_function),
     env_user = (\<lambda>_ _. Inl Empty_function), env_dequeue = net_dequeue net\<rparr>"

definition call_app :: "('m, 'k, 's) net \<Rightarrow> 'm option \<Rightarrow> cid \<Rightarrow> ('m, 'k, 's) net_loop \<Rightarrow> ('m, 'k, 's) net_loop outcome" where
  "call_app net cb c l = (case cb of None \<Rightarrow> Inl Empty_function | Some m \<Rightarrow> net_call net m c l)"

definition call_if_set :: "('m, 'k, 's) net \<Rightarrow> 'm option \<Rightarrow> cid \<Rightarrow> ('m, 'k, 's) net_loop \<Rightarrow> ('m, 'k, 's) net_loop outcome" where
  "call_if_set net cb c l = (case cb of None \<Rightarrow> Inr l | Some m \<Rightarrow> net_call net m c l)"

subsection \<open>Setting callbacks\<close>

definition setMessageCallBack where "setMessageCallBack m c = upd_conn c (\<lambda>x. x\<lparr>SmessageCallBack := m\<rparr>)"
definition conn_setErrorCallBack where "conn_setErrorCallBack m c = upd_conn c (\<lambda>x. x\<lparr>SerrorCallBack := m\<rparr>)"
definition conn_setExceptCallBack where "conn_setExceptCallBack m c = upd_conn c (\<lambda>x. x\<lparr>SexceptCallBack := m\<rparr>)"
definition conn_setCloseCallBack where "conn_setCloseCallBack m c = upd_conn c (\<lambda>x. x\<lparr>ScloseCallBack := m\<rparr>)"
definition setDestructorCallBack where "setDestructorCallBack m c = upd_conn c (\<lambda>x. x\<lparr>destructCallBack := m\<rparr>)"

definition read_cb :: "bool \<Rightarrow> cid \<Rightarrow> 'm conn_cb loop_cb" where
  "read_cb et c = CB_user (if et then CC_ETRead c else CC_read c)"

text \<open>The five lambdas both constructors install.\<close>

definition install_callbacks :: "cid \<Rightarrow> bool \<Rightarrow> 'm conn_cb loop_cb event_handler \<Rightarrow> 'm conn_cb loop_cb event_handler" where
  "install_callbacks c et h =
     setErrorCallBack (CB_user (CC_error c)) (setCloseCallBack (CB_user (CC_close c))
       (setWriteCallBack (CB_user (CC_write c)) (setExceptCallBack (CB_user (CC_except c))
         (setReadCallBack (read_cb et c) h))))"

subsection \<open>Errors, closing, reading\<close>

definition handleError :: "('m, 'k, 's) net \<Rightarrow> cid \<Rightarrow> ('m, 'k, 's) net_loop \<Rightarrow> ('m, 'k, 's) net_loop outcome" where
  "handleError net c l =
     with_conn c (\<lambda>x.
       let e = nw_errno (world l) in
       if e = EPIPE \<or> e = ECONNRESET then Inr l
       else if e = ESHUTDOWN then Inr l
       else if e = EAGAIN then Inr l
       else call_if_set net (SerrorCallBack x) c l) l"

definition handleClose :: "('m, 'k, 's) net \<Rightarrow> nat \<Rightarrow> cid \<Rightarrow> ('m, 'k, 's) net_loop \<Rightarrow> ('m, 'k, 's) net_loop outcome" where
  "handleClose net tid c l =
     assertC (isInLoopThread tid l) (with_conn c (\<lambda>x.
       assertC (Connstatus x = Connected \<or> Connstatus x = DisConnecting)
         (obind (removeListen (conn_base net) tid (tc_handler x) l) (\<lambda>l.
          let l = upd_conn c (\<lambda>x. x\<lparr>Connstatus := DisConnected\<rparr>) l in
          obind (with_conn c (\<lambda>x. call_if_set net (ScloseCallBack x) c l) l) (\<lambda>l.
          with_conn c (\<lambda>x. assertC (destructCallBack x \<noteq> None)
            (DelayedExecution (conn_base net) (T_user (CT_destruct c)) l)) l)))) l)"

text \<open>\<open>RecvBuffer_.appendFormFd(handler_.fd())\<close>.\<close>

definition conn_recv :: "('m, 'k, 's) net \<Rightarrow> cid \<Rightarrow> ('m, 'k, 's) net_loop \<Rightarrow> ((errno + nat) \<times> ('m, 'k, 's) net_loop) outcome" where
  "conn_recv net c l =
     with_conn c (\<lambda>x.
       let fd = h_fd (el_handler (tc_handler x) l); k = nw_kernel (world l) in
       obind (appendFormFd (\<lambda>iov. fst (net_readv net fd iov k)) (RecvBuffer x)) (\<lambda>(b, r).
       Inr (r, upd_conn c (\<lambda>x. x\<lparr>RecvBuffer := b\<rparr>) (syscall (net_readv net fd (read_iov (RecvBuffer x)) k) l)))) l"

definition MaxReadNum :: nat where "MaxReadNum = 100"

text \<open>The loop of the edge-triggered read; True when it ended because of the limit. A read that is
  interrupted is repeated without being counted, so the number of rounds has a bound of its own.\<close>

fun et_read_loop ::
  "('m, 'k, 's) net \<Rightarrow> nat \<Rightarrow> cid \<Rightarrow> nat \<Rightarrow> nat \<Rightarrow> ('m, 'k, 's) net_loop \<Rightarrow> (bool \<times> ('m, 'k, 's) net_loop) outcome" where
  "et_read_loop net tid c 0 ReadNum l = Inl Out_of_fuel"
| "et_read_loop net tid c (Suc f) ReadNum l =
     (if ReadNum < MaxReadNum then
        obind (conn_recv net c l) (\<lambda>(r, l).
        case r of
          Inr n \<Rightarrow>
            if n > 0 then obind (with_conn c (\<lambda>x. call_app net (SmessageCallBack x) c l) l)
                            (et_read_loop net tid c f (ReadNum + 1))
            else obind (handleClose net tid c l) (\<lambda>l. Inr (False, l))
        | Inl e \<Rightarrow>
            if e = EAGAIN then Inr (False, l)
            else if e = EINTR then et_read_loop net tid c f ReadNum l
            else obind (handleError net c l) (\<lambda>l. Inr (False, l)))
      else Inr (True, l))"

definition handleETRead ::
  "('m, 'k, 's) net \<Rightarrow> nat \<Rightarrow> cid \<Rightarrow> nat \<Rightarrow> ('m, 'k, 's) net_loop \<Rightarrow> ('m, 'k, 's) net_loop outcome" where
  "handleETRead net tid c fuel l =
     assertC (isInLoopThread tid l) (obind (et_read_loop net tid c fuel 0 l) (\<lambda>(more, l).
     if more then DelayedExecution (conn_base net) (T_user (CT_ETRead c)) l else Inr l))"

definition handleRead :: "('m, 'k, 's) net \<Rightarrow> nat \<Rightarrow> cid \<Rightarrow> ('m, 'k, 's) net_loop \<Rightarrow> ('m, 'k, 's) net_loop outcome" where
  "handleRead net tid c l =
     assertC (isInLoopThread tid l) (with_conn c (\<lambda>x. assertC (SmessageCallBack x \<noteq> None)
       (obind (conn_recv net c l) (\<lambda>(r, l).
        case r of
          Inr n \<Rightarrow> if n > 0 then with_conn c (\<lambda>x. call_app net (SmessageCallBack x) c l) l
                   else handleClose net tid c l
        | Inl e \<Rightarrow> if e = EAGAIN \<or> e = EINTR then handleError net c l else Inr l))) l)"

text \<open>Urgent data. The received byte goes to the free part of the buffer, whose write index stays.\<close>

fun handleException ::
  "('m, 'k, 's) net \<Rightarrow> nat \<Rightarrow> cid \<Rightarrow> nat \<Rightarrow> ('m, 'k, 's) net_loop \<Rightarrow> ('m, 'k, 's) net_loop outcome" where
  "handleException net tid c 0 l = Inl Out_of_fuel"
| "handleException net tid c (Suc f) l =
     with_conn c (\<lambda>x.
       let fd = h_fd (el_handler (tc_handler x) l);
           res = net_recv_oob net fd (writable_size (RecvBuffer x)) (nw_kernel (world l));
           l = syscall res l
       in case fst res of
            Inr d \<Rightarrow>
              if length d > 0 then
                obind (store (tb_BeginWrite (RecvBuffer x)) d (buffer (RecvBuffer x))) (\<lambda>v.
                let l = upd_conn c (\<lambda>x. x\<lparr>RecvBuffer := (RecvBuffer x)\<lparr>buffer := v\<rparr>\<rparr>) l in
                obind (with_conn c (\<lambda>x. call_if_set net (SexceptCallBack x) c l) l)
                  (handleException net tid c f))
              else handleClose net tid c l
          | Inl e \<Rightarrow> if e = EINTR then handleException net tid c f l else handleError net c l) l"

subsection \<open>Sending\<close>

definition ensure_writing :: "('m, 'k, 's) net \<Rightarrow> nat \<Rightarrow> cid \<Rightarrow> ('m, 'k, 's) net_loop \<Rightarrow> ('m, 'k, 's) net_loop outcome" where
  "ensure_writing net tid c l =
     with_conn c (\<lambda>x. if \<not> isWriting (el_handler (tc_handler x) l)
       then setWriting (conn_base net) tid (tc_handler x) l else Inr l) l"

definition append_pending :: "cid \<Rightarrow> char list \<Rightarrow> ('m, 'k, 's) net_loop \<Rightarrow> ('m, 'k, 's) net_loop outcome" where
  "append_pending c d l =
     with_conn c (\<lambda>x. obind (tb_append d (SendBuffer x)) (\<lambda>b. Inr (upd_conn c (\<lambda>x. x\<lparr>SendBuffer := b\<rparr>) l))) l"

definition sendInLoop ::
  "('m, 'k, 's) net \<Rightarrow> nat \<Rightarrow> cid \<Rightarrow> char list \<Rightarrow> ('m, 'k, 's) net_loop \<Rightarrow> ('m, 'k, 's) net_loop outcome" where
  "sendInLoop net tid c message l =
     assertC (isInLoopThread tid l) (with_conn c (\<lambda>x.
       let res = net_send net (h_fd (el_handler (tc_handler x) l)) message (nw_kernel (world l));
           l = syscall res l
       in case fst res of
            Inr n \<Rightarrow>
              if n < length message
              then obind (append_pending c (drop n message) l) (ensure_writing net tid c)
              else Inr l
          | Inl e \<Rightarrow>
              if e = EAGAIN then obind (append_pending c message l) (ensure_writing net tid c)
              else handleError net c l) l)"

definition handleWrite :: "('m, 'k, 's) net \<Rightarrow> nat \<Rightarrow> cid \<Rightarrow> ('m, 'k, 's) net_loop \<Rightarrow> ('m, 'k, 's) net_loop outcome" where
  "handleWrite net tid c l =
     assertC (isInLoopThread tid l) (with_conn c (\<lambda>x.
       let len = readable_size (SendBuffer x);
           fd = h_fd (el_handler (tc_handler x) l) in
       obind (load (tb_peek (SendBuffer x)) len (buffer (SendBuffer x))) (\<lambda>d.
       let res = net_send net fd d (nw_kernel (world l));
           l = syscall res l
       in case fst res of
            Inr n \<Rightarrow>
              if n > 0 then
                obind (if n = len then
                         (let l = (if Connstatus x = DisConnecting then on_kernel (net_shutdown net fd) l else l)
                          in if isWriting (el_handler (tc_handler x) l)
                             then cancelWriting (conn_base net) tid (tc_handler x) l else Inr l)
                       else Inr l) (\<lambda>l.
                with_conn c (\<lambda>x. obind (consume n (SendBuffer x)) (\<lambda>b.
                Inr (upd_conn c (\<lambda>x. x\<lparr>SendBuffer := b\<rparr>) l))) l)
              else handleError net c l
          | Inl e \<Rightarrow> handleError net c l)) l)"

subsection \<open>Disconnecting\<close>

definition disconnectInLoop :: "('m, 'k, 's) net \<Rightarrow> nat \<Rightarrow> cid \<Rightarrow> ('m, 'k, 's) net_loop \<Rightarrow> ('m, 'k, 's) net_loop outcome" where
  "disconnectInLoop net tid c l =
     assertC (isInLoopThread tid l) (with_conn c (\<lambda>x.
       if Connstatus x = Connected then
         (let l = upd_conn c (\<lambda>x. x\<lparr>Connstatus := DisConnecting\<rparr>) l
          in if readable_size (SendBuffer x) = 0 then Inr (on_kernel (net_shutdown net (tc_fd x)) l)
             else ensure_writing net tid c l)
       else Inr l) l)"

subsection \<open>The closures of a connection\<close>

definition if_alive :: "cid \<Rightarrow> (('m, 'k, 's) net_loop \<Rightarrow> ('m, 'k, 's) net_loop outcome) \<Rightarrow>
    ('m, 'k, 's) net_loop \<Rightarrow> ('m, 'k, 's) net_loop outcome" where
  "if_alive c f l = (if nw_conns (world l) c = None then Inr l else f l)"

definition conn_task ::
  "('m, 'k, 's) net \<Rightarrow> nat \<Rightarrow> nat \<Rightarrow> 'm conn_task \<Rightarrow> ('m, 'k, 's) net_loop \<Rightarrow> ('m, 'k, 's) net_loop outcome" where
  "conn_task net tid fuel t l = (case t of
     CT_disconnect c \<Rightarrow> if_alive c (disconnectInLoop net tid c) l
   | CT_setWriting c \<Rightarrow> if_alive c (ensure_writing net tid c) l
   | CT_send c s \<Rightarrow> if_alive c (sendInLoop net tid c s) l
   | CT_ETRead c \<Rightarrow> if_alive c (handleETRead net tid c fuel) l
   | CT_destruct c \<Rightarrow> with_conn c (\<lambda>x. call_app net (destructCallBack x) c l) l
   | CT_app m \<Rightarrow> net_app net m l)"

definition conn_callback ::
  "('m, 'k, 's) net \<Rightarrow> nat \<Rightarrow> nat \<Rightarrow> 'm conn_cb \<Rightarrow> ('m, 'k, 's) net_loop \<Rightarrow> ('m, 'k, 's) net_loop outcome" where
  "conn_callback net tid fuel cb l = (case cb of
     CC_read c \<Rightarrow> handleRead net tid c l
   | CC_ETRead c \<Rightarrow> handleETRead net tid c fuel l
   | CC_write c \<Rightarrow> handleWrite net tid c l
   | CC_close c \<Rightarrow> handleClose net tid c l
   | CC_error c \<Rightarrow> handleError net c l
   | CC_except c \<Rightarrow> handleException net tid c fuel l
   | CC_app m \<Rightarrow> net_app net m l)"

definition conn_env ::
  "('m, 'k, 's) net \<Rightarrow> nat \<Rightarrow> nat \<Rightarrow> ('m conn_task, 'm conn_cb, ('m, 'k, 's) net_world) env" where
  "conn_env net tid fuel = (conn_base net)\<lparr>env_user := conn_task net tid fuel, env_callback := conn_callback net tid fuel\<rparr>"

subsection \<open>Operations for any thread\<close>

definition disconnect ::
  "('m, 'k, 's) net \<Rightarrow> nat \<Rightarrow> nat \<Rightarrow> cid \<Rightarrow> ('m, 'k, 's) net_loop \<Rightarrow> ('m, 'k, 's) net_loop outcome" where
  "disconnect net tid fuel c l =
     with_conn c (\<lambda>x. if readable_size (SendBuffer x) = 0
       then submit (conn_env net tid fuel) tid (T_user (CT_disconnect c)) l
       else submit (conn_env net tid fuel) tid (T_user (CT_setWriting c)) l) l"

definition conn_send ::
  "('m, 'k, 's) net \<Rightarrow> nat \<Rightarrow> nat \<Rightarrow> cid \<Rightarrow> char list \<Rightarrow> ('m, 'k, 's) net_loop \<Rightarrow> ('m, 'k, 's) net_loop outcome" where
  "conn_send net tid fuel c message l =
     (if isInLoopThread tid l then sendInLoop net tid c message l
      else submit (conn_env net tid fuel) tid (T_user (CT_send c message)) l)"

definition conn_send_string ::
  "('m, 'k, 's) net \<Rightarrow> nat \<Rightarrow> nat \<Rightarrow> cid \<Rightarrow> string \<Rightarrow> ('m, 'k, 's) net_loop \<Rightarrow> ('m, 'k, 's) net_loop outcome" where
  "conn_send_string net tid fuel c message l =
     with_conn c (\<lambda>x. if Connstatus x \<noteq> Connected then Inr l
       else submit (conn_env net tid fuel) tid (T_user (CT_send c message)) l) l"

definition sendOutput ::
  "('m, 'k, 's) net \<Rightarrow> nat \<Rightarrow> nat \<Rightarrow> cid \<Rightarrow> ('m, 'k, 's) net_loop \<Rightarrow> ('m, 'k, 's) net_loop outcome" where
  "sendOutput net tid fuel c l = submit (conn_env net tid fuel) tid (T_user (CT_setWriting c)) l"

definition conn_setReading where
  "conn_setReading net tid fuel c l = with_conn c (\<lambda>x. setReading (conn_env net tid fuel) tid (tc_handler x) l) l"

definition conn_setExcept where
  "conn_setExcept net tid fuel c l = with_conn c (\<lambda>x. setExcept (conn_env net tid fuel) tid (tc_handler x) l) l"

definition setEvent ::
  "('m, 'k, 's) net \<Rightarrow> nat \<Rightarrow> nat \<Rightarrow> cid \<Rightarrow> event \<Rightarrow> ('m, 'k, 's) net_loop \<Rightarrow> ('m, 'k, 's) net_loop outcome" where
  "setEvent net tid fuel c e l =
     with_conn c (\<lambda>x. obind (set_event (conn_env net tid fuel) tid (tc_handler x) e l) (\<lambda>l.
       if ev_has e ev_edge \<and> \<not> isET x
       then Inr (upd_conn c (\<lambda>x. x\<lparr>isET := True\<rparr>) (on_handler (tc_handler x) (setReadCallBack (read_cb True c)) l))
       else if \<not> ev_has e ev_edge \<and> isET x
       then Inr (upd_conn c (\<lambda>x. x\<lparr>isET := False\<rparr>) (on_handler (tc_handler x) (setReadCallBack (read_cb False c)) l))
       else Inr l)) l"

subsection \<open>Life cycle\<close>

definition set_conn :: "cid \<Rightarrow> 'm tcp_connection option \<Rightarrow> ('m, 'k, 's) net_loop \<Rightarrow> ('m, 'k, 's) net_loop" where
  "set_conn c x l = on_world (\<lambda>w. w\<lparr>nw_conns := (nw_conns w)(c := x)\<rparr>) l"

definition conn_record :: "int \<Rightarrow> string \<Rightarrow> bool \<Rightarrow> tcp_buffer \<Rightarrow> conn_status \<Rightarrow> hid \<Rightarrow> bool \<Rightarrow> 'm tcp_connection" where
  "conn_record fd addr lp b st h et = \<lparr>tc_fd = fd, tc_addr = addr, tc_loop = lp, RecvBuffer = b, SendBuffer = b,
     SmessageCallBack = None, ScloseCallBack = None, destructCallBack = None, SerrorCallBack = None,
     SexceptCallBack = None, Connstatus = st, tc_handler = h, isET = et\<rparr>"

definition conn_accept ::
  "('m, 'k, 's) net \<Rightarrow> nat \<Rightarrow> nat \<Rightarrow> cid \<Rightarrow> hid \<Rightarrow> int \<Rightarrow> string \<Rightarrow> event \<Rightarrow> ('m, 'k, 's) net_loop \<Rightarrow>
   ('m, 'k, 's) net_loop outcome" where
  "conn_accept net tid fuel c h fd addr e l =
     obind (tb_new 1024 8) (\<lambda>b.
     obind (handler_construct (conn_env net tid fuel) tid h fd e l) (\<lambda>l.
     let et = ev_has e ev_edge;
         l = set_conn c (Some (conn_record fd addr True b Connected h et)) l
     in assertC (et \<longrightarrow> net_nonblocking net fd (nw_kernel (world l)))
          (Inr (on_handler h (install_callbacks c et) l))))"

text \<open>The constructor for the pool of connections: no descriptor and no loop yet.\<close>

definition conn_pooled :: "cid \<Rightarrow> hid \<Rightarrow> event \<Rightarrow> ('m, 'k, 's) net_loop \<Rightarrow> ('m, 'k, 's) net_loop outcome" where
  "conn_pooled c h e l =
     obind (tb_new 1024 8) (\<lambda>b.
     let et = ev_has e ev_edge;
         l = set_conn c (Some (conn_record (-1) [] False b Connecting h et)) l
     in Inr (on_handler h (\<lambda>_. install_callbacks c et (handler_new e)) l))"

definition conn_init ::
  "('m, 'k, 's) net \<Rightarrow> nat \<Rightarrow> nat \<Rightarrow> cid \<Rightarrow> int \<Rightarrow> string \<Rightarrow> ('m, 'k, 's) net_loop \<Rightarrow> ('m, 'k, 's) net_loop outcome" where
  "conn_init net tid fuel c fd addr l =
     with_conn c (\<lambda>x.
       let ev = h_events (el_handler (tc_handler x) l) in
       assertC (\<not> ev_has ev ev_edge \<or> ev_has ev ev_edge \<and> net_nonblocking net fd (nw_kernel (world l)))
         (assertC (fd > 0) (assertC (Connstatus x = Connecting)
           (handler_init (conn_env net tid fuel) tid (tc_handler x) fd
             (upd_conn c (\<lambda>x. x\<lparr>Connstatus := Connected, tc_fd := fd, tc_loop := True, tc_addr := addr\<rparr>) l))))) l"

definition conn_reset :: "('m, 'k, 's) net \<Rightarrow> cid \<Rightarrow> ('m, 'k, 's) net_loop \<Rightarrow> ('m, 'k, 's) net_loop outcome" where
  "conn_reset net c l =
     with_conn c (\<lambda>x. Inr (upd_conn c (\<lambda>x. x\<lparr>tc_fd := -1, RecvBuffer := tb_reset (RecvBuffer x),
       SendBuffer := tb_reset (SendBuffer x), Connstatus := Connecting\<rparr>)
       (on_kernel (net_close net (tc_fd x)) l))) l"

definition conn_destroy :: "('m, 'k, 's) net \<Rightarrow> cid \<Rightarrow> ('m, 'k, 's) net_loop \<Rightarrow> ('m, 'k, 's) net_loop outcome" where
  "conn_destroy net c l =
     with_conn c (\<lambda>x. Inr (set_conn c None
       (if tc_fd x \<noteq> -1 then on_kernel (net_close net (tc_fd x)) l else l))) l"

end
