(* ===== verification/Tcp_Connection_Props.thy ===== *)
theory Tcp_Connection_Props
  imports Tcp_Connection
begin

text \<open>
  What a connection does with the bytes it is given and with a request to close. The kernel's side
  of a socket is a stream of accepted bytes; what the application has sent is that stream followed
  by the bytes still in the send buffer.
\<close>

named_theorems net_access \<open>reading the parts of a loop after an update\<close>

lemma world_access [net_access]:
  "world (on_world f l) = f (world l)"
  "el_handler h (on_world f l) = el_handler h l"
  "el_thread (on_world f l) = el_thread l"
  "el_functions (on_world f l) = el_functions l"
  "ep_handlers (el_poller (on_world f l)) = ep_handlers (el_poller l)"
  "world (on_handler h g l) = world l"
  "el_thread (on_handler h g l) = el_thread l"
  "el_handler h' (on_handler h g l) = (if h' = h then g (el_handler h l) else el_handler h' l)"
  "ep_handlers (el_poller (on_handler h g l)) = ep_handlers (el_poller l)"
  by (simp_all add: world_def on_world_def el_handler_def on_handler_def upd_handler_def)

lemma conn_access [net_access]:
  "nw_conns (world (upd_conn c f l)) = (nw_conns (world l))(c := map_option f (nw_conns (world l) c))"
  "nw_kernel (world (upd_conn c f l)) = nw_kernel (world l)"
  "nw_errno (world (upd_conn c f l)) = nw_errno (world l)"
  "el_handler h (upd_conn c f l) = el_handler h l"
  "el_thread (upd_conn c f l) = el_thread l"
  "ep_handlers (el_poller (upd_conn c f l)) = ep_handlers (el_poller l)"
  "nw_conns (world (syscall rk l)) = nw_conns (world l)"
  "nw_kernel (world (syscall rk l)) = snd rk"
  "el_handler h (syscall rk l) = el_handler h l"
  "el_thread (syscall rk l) = el_thread l"
  "ep_handlers (el_poller (syscall rk l)) = ep_handlers (el_poller l)"
  "nw_conns (world (on_kernel g l)) = nw_conns (world l)"
  "nw_kernel (world (on_kernel g l)) = g (nw_kernel (world l))"
  "el_handler h (on_kernel g l) = el_handler h l"
  "el_thread (on_kernel g l) = el_thread l"
  "ep_handlers (el_poller (on_kernel g l)) = ep_handlers (el_poller l)"
  by (simp_all add: upd_conn_def syscall_def on_kernel_def net_access split: sum.split)

lemma syscall_errno [net_access]: "nw_errno (world (syscall (Inl e, k) l)) = e"
  by (simp add: syscall_def net_access)

text \<open>A connection whose handler is watched by its loop, with the state the operations rely on.\<close>

definition ready :: "cid \<Rightarrow> 'm tcp_connection \<Rightarrow> ('m, 'k, 's) net_loop \<Rightarrow> bool" where
  "ready c x l \<longleftrightarrow> nw_conns (world l) c = Some x \<and> tb_inv (SendBuffer x) \<and>
     (let h = el_handler (tc_handler x) l in
      h_loop h \<and> h_status h = st_Added \<and> ep_handlers (el_poller l) (h_fd h) \<noteq> None \<and> ev_ok (h_events h))"

definition fd_of :: "'m tcp_connection \<Rightarrow> ('m, 'k, 's) net_loop \<Rightarrow> int" where
  "fd_of x l = h_fd (el_handler (tc_handler x) l)"

lemma ready_conn: "ready c x l \<Longrightarrow> with_conn c f l = f x"
  by (simp add: ready_def with_conn_def)

text \<open>Changing the interest of a watched handler touches its events and the kernel's table only.\<close>

definition same_but_events :: "hid \<Rightarrow> ('m, 'k, 's) net_loop \<Rightarrow> ('m, 'k, 's) net_loop \<Rightarrow> bool" where
  "same_but_events h l l' \<longleftrightarrow> nw_conns (world l') = nw_conns (world l) \<and> el_thread l' = el_thread l \<and>
     h_fd (el_handler h l') = h_fd (el_handler h l) \<and> h_loop (el_handler h l') = h_loop (el_handler h l) \<and>
     h_status (el_handler h l') = h_status (el_handler h l) \<and>
     ep_handlers (el_poller l') = ep_handlers (el_poller l)"

lemma change_events_ready:
  assumes "ready c x l" "isInLoopThread tid l" "f (h_events (el_handler (tc_handler x) l)) = Inr e"
  shows "\<exists>l'. change_events f (conn_base net) tid (tc_handler x) l = Inr l' \<and>
    same_but_events (tc_handler x) l l' \<and> h_events (el_handler (tc_handler x) l') = e \<and>
    nw_kernel (world l') = snd (os_epoll_ctl (net_os net) EPOLL_CTL_MOD (fd_of x l) (ev_value e) (tc_handler x) (nw_kernel (world l)))"
proof -
  obtain r k where k: "os_epoll_ctl (net_os net) EPOLL_CTL_MOD (fd_of x l) (ev_value e) (tc_handler x) (nw_kernel (world l)) = (r, k)"
    by fastforce
  show ?thesis
    using assms k
    by (auto simp: ready_def fd_of_def change_events_def handler_update_def el_update_listen_def isInLoopThread_def
        on_poller_def update_listen_def has_handler_def operator_epoll_def conn_base_def lift_os_def on_handler_def
        upd_handler_def el_handler_def world_def same_but_events_def Let_def log_errno_def split: option.split)
qed

text \<open>The interest in writing.\<close>

lemma ev_add_write: "ev_ok e \<Longrightarrow> \<exists>e'. ev_add ev_write e = Inr e' \<and> ev_ok e' \<and> ev_has e' ev_write"
  using ev_set_ops(1) [of ev_write e] ev_consts_valid(4) by (auto simp: ev_ok_set ev_has_set)

lemma ev_remove_write: "ev_ok e \<Longrightarrow> \<exists>e'. ev_remove ev_write e = Inr e' \<and> ev_ok e' \<and> \<not> ev_has e' ev_write"
  using ev_set_ops(2) [of ev_write e] ev_consts_valid(4) by (auto simp: ev_ok_set ev_has_set)

lemma ready_transfer:
  assumes "ready c x l" "same_but_events (tc_handler x) l l'" "ev_ok (h_events (el_handler (tc_handler x) l'))"
  shows "ready c x l'" "fd_of x l' = fd_of x l"
  using assms by (auto simp: ready_def same_but_events_def fd_of_def Let_def)

lemma ensure_writing_ready:
  assumes "ready c x l" "isInLoopThread tid l"
  shows "\<exists>l'. ensure_writing net tid c l = Inr l' \<and> ready c x l' \<and> isInLoopThread tid l' \<and> fd_of x l' = fd_of x l \<and>
    isWriting (el_handler (tc_handler x) l') \<and>
    (nw_kernel (world l') = nw_kernel (world l) \<or>
     (\<exists>m. nw_kernel (world l') = snd (os_epoll_ctl (net_os net) EPOLL_CTL_MOD (fd_of x l) m (tc_handler x) (nw_kernel (world l)))))"
proof (cases "isWriting (el_handler (tc_handler x) l)")
  case True
  then show ?thesis using assms by (simp add: ensure_writing_def ready_conn)
next
  case False
  have "ev_ok (h_events (el_handler (tc_handler x) l))" using assms(1) by (simp add: ready_def Let_def)
  then obtain e where e: "ev_add ev_write (h_events (el_handler (tc_handler x) l)) = Inr e" "ev_ok e" "ev_has e ev_write"
    using ev_add_write by blast
  obtain l' where l': "setWriting (conn_base net) tid (tc_handler x) l = Inr l'"
    "same_but_events (tc_handler x) l l'" "h_events (el_handler (tc_handler x) l') = e"
    "nw_kernel (world l') = snd (os_epoll_ctl (net_os net) EPOLL_CTL_MOD (fd_of x l) (ev_value e) (tc_handler x) (nw_kernel (world l)))"
    using change_events_ready [OF assms, where f = "ev_add ev_write", OF e(1)] unfolding setWriting_def by blast
  have "isInLoopThread tid l'" using assms(2) l'(2) by (simp add: isInLoopThread_def same_but_events_def)
  moreover have "isWriting (el_handler (tc_handler x) l')" using l'(3) e(3) by (simp add: isWriting_def)
  ultimately show ?thesis
    using False assms(1) l' e(2) ready_transfer [OF assms(1) l'(2)] by (auto simp: ensure_writing_def ready_conn)
qed

text \<open>What the library relies on of the kernel: \<open>send\<close> takes a prefix of what it is given.\<close>

definition send_spec :: "('m, 'k, 's) net \<Rightarrow> ('k \<Rightarrow> int \<Rightarrow> char list) \<Rightarrow> bool" where
  "send_spec net stream \<longleftrightarrow>
     (\<forall>fd d k. case net_send net fd d k of
        (Inr n, k') \<Rightarrow> n \<le> length d \<and> stream k' = (stream k)(fd := stream k fd @ take n d)
      | (Inl e, k') \<Rightarrow> stream k' = stream k) \<and>
     (\<forall>oper fd m h k. stream (snd (os_epoll_ctl (net_os net) oper fd m h k)) = stream k) \<and>
     (\<forall>fd k. stream (net_shutdown net fd k) = stream k)"

lemma send_specD:
  assumes "send_spec net stream"
  shows "net_send net fd d k = (Inr n, k') \<Longrightarrow> n \<le> length d \<and> stream k' = (stream k)(fd := stream k fd @ take n d)"
    "net_send net fd d k = (Inl e, k') \<Longrightarrow> stream k' = stream k"
    "stream (snd (os_epoll_ctl (net_os net) oper fd m h k)) = stream k"
    "stream (net_shutdown net fd k) = stream k"
proof -
  have send: "case net_send net fd d k of
      (Inr n, k') \<Rightarrow> n \<le> length d \<and> stream k' = (stream k)(fd := stream k fd @ take n d)
    | (Inl e, k') \<Rightarrow> stream k' = stream k"
    by (rule assms [unfolded send_spec_def, THEN conjunct1, THEN spec, THEN spec, THEN spec])
  show "net_send net fd d k = (Inr n, k') \<Longrightarrow> n \<le> length d \<and> stream k' = (stream k)(fd := stream k fd @ take n d)"
    "net_send net fd d k = (Inl e, k') \<Longrightarrow> stream k' = stream k" using send by simp_all
  show "stream (snd (os_epoll_ctl (net_os net) oper fd m h k)) = stream k" "stream (net_shutdown net fd k) = stream k"
    using assms unfolding send_spec_def by blast+
qed

text \<open>What the application has handed over: accepted by the kernel, then pending.\<close>

definition outgoing :: "('k \<Rightarrow> int \<Rightarrow> char list) \<Rightarrow> 'm tcp_connection \<Rightarrow> ('m, 'k, 's) net_loop \<Rightarrow> char list" where
  "outgoing stream x l = stream (nw_kernel (world l)) (fd_of x l) @ content (SendBuffer x)"

lemma ready_syscall: "ready c x l \<Longrightarrow> ready c x (syscall rk l) \<and> fd_of x (syscall rk l) = fd_of x l"
  by (simp add: ready_def fd_of_def net_access)

lemma append_pending_ready:
  assumes "ready c x l" "length (content (SendBuffer x)) + length d \<le> tb_cap (SendBuffer x)"
  shows "\<exists>b l'. append_pending c d l = Inr l' \<and> ready c (x\<lparr>SendBuffer := b\<rparr>) l' \<and>
    content b = content (SendBuffer x) @ d \<and> tb_cap b = tb_cap (SendBuffer x) \<and> el_thread l' = el_thread l \<and>
    nw_kernel (world l') = nw_kernel (world l) \<and> fd_of (x\<lparr>SendBuffer := b\<rparr>) l' = fd_of x l"
proof -
  have "tb_inv (SendBuffer x)" using assms(1) by (simp add: ready_def)
  from tbuf.put_law [OF this assms(2)] obtain b where
    b: "tb_append d (SendBuffer x) = Inr b" "tb_inv b" "content b = content (SendBuffer x) @ d" "tb_cap b = tb_cap (SendBuffer x)"
    by blast
  let ?l = "upd_conn c (\<lambda>x. x\<lparr>SendBuffer := b\<rparr>) l"
  have "append_pending c d l = Inr ?l" using b(1) assms(1) by (simp add: append_pending_def ready_conn)
  moreover have "ready c (x\<lparr>SendBuffer := b\<rparr>) ?l" "fd_of (x\<lparr>SendBuffer := b\<rparr>) ?l = fd_of x l"
    using assms(1) b(2) by (simp_all add: ready_def fd_of_def net_access Let_def)
  ultimately show ?thesis using b(3,4) by (intro exI [of _ b] exI [of _ ?l]) (simp add: net_access)
qed

text \<open>Queueing what the kernel did not take.\<close>

lemma queue_rest:
  assumes "ready c x l" "isInLoopThread tid l" "send_spec net stream"
    and "length (content (SendBuffer x)) + length d \<le> tb_cap (SendBuffer x)"
  shows "\<exists>b l'. obind (append_pending c d l) (ensure_writing net tid c) = Inr l' \<and>
    ready c (x\<lparr>SendBuffer := b\<rparr>) l' \<and> tb_cap b = tb_cap (SendBuffer x) \<and> isInLoopThread tid l' \<and>
    isWriting (el_handler (tc_handler x) l') \<and> content b = content (SendBuffer x) @ d \<and>
    outgoing stream (x\<lparr>SendBuffer := b\<rparr>) l' = outgoing stream x l @ d"
proof -
  obtain b l1 where 1: "append_pending c d l = Inr l1" "ready c (x\<lparr>SendBuffer := b\<rparr>) l1"
    "content b = content (SendBuffer x) @ d" "tb_cap b = tb_cap (SendBuffer x)" "el_thread l1 = el_thread l"
    "nw_kernel (world l1) = nw_kernel (world l)" "fd_of (x\<lparr>SendBuffer := b\<rparr>) l1 = fd_of x l"
    using append_pending_ready [OF assms(1,4)] by blast
  have "isInLoopThread tid l1" using assms(2) 1(5) by (simp add: isInLoopThread_def)
  from ensure_writing_ready [OF 1(2) this, of net] obtain l2 where
    2: "ensure_writing net tid c l1 = Inr l2" "ready c (x\<lparr>SendBuffer := b\<rparr>) l2" "isInLoopThread tid l2"
    "fd_of (x\<lparr>SendBuffer := b\<rparr>) l2 = fd_of (x\<lparr>SendBuffer := b\<rparr>) l1" "isWriting (el_handler (tc_handler x) l2)"
    and k: "stream (nw_kernel (world l2)) = stream (nw_kernel (world l1))"
    using send_specD(3) [OF assms(3)] by fastforce
  have "outgoing stream (x\<lparr>SendBuffer := b\<rparr>) l2 = outgoing stream x l @ d"
    using k 1(3,6,7) 2(4) by (simp add: outgoing_def)
  with 1 2 show ?thesis by auto
qed

text \<open>How many bytes of a message the kernel takes now; None when the call fails otherwise.\<close>

definition accepted :: "('m, 'k, 's) net \<Rightarrow> 'm tcp_connection \<Rightarrow> char list \<Rightarrow> ('m, 'k, 's) net_loop \<Rightarrow> nat option" where
  "accepted net x d l = (case fst (net_send net (fd_of x l) d (nw_kernel (world l))) of
     Inr n \<Rightarrow> Some n | Inl e \<Rightarrow> if e = EAGAIN then Some 0 else None)"

lemma send_effect:
  assumes "ready c x l" "isInLoopThread tid l" "send_spec net stream"
    and "length (content (SendBuffer x)) + length d \<le> tb_cap (SendBuffer x)"
    and "accepted net x d l = Some n"
  shows "\<exists>b l'. sendInLoop net tid c d l = Inr l' \<and> ready c (x\<lparr>SendBuffer := b\<rparr>) l' \<and> isInLoopThread tid l' \<and>
    tb_cap b = tb_cap (SendBuffer x) \<and> content b = content (SendBuffer x) @ drop n d \<and>
    outgoing stream (x\<lparr>SendBuffer := b\<rparr>) l' =
      stream (nw_kernel (world l)) (fd_of x l) @ take n d @ content (SendBuffer x) @ drop n d \<and>
    (n < length d \<longrightarrow> isWriting (el_handler (tc_handler x) l'))"
proof -
  obtain r k where rk: "net_send net (fd_of x l) d (nw_kernel (world l)) = (r, k)" by fastforce
  let ?l = "syscall (r, k) l" and ?fd = "fd_of x l"
  have l: "ready c x ?l" "isInLoopThread tid ?l" "fd_of x ?l = ?fd" "nw_kernel (world ?l) = k"
    using assms(2) ready_syscall [OF assms(1), of "(r, k)"] by (auto simp: isInLoopThread_def net_access)
  have s: "stream k = (stream (nw_kernel (world l)))(?fd := stream (nw_kernel (world l)) ?fd @ take n d)" and n: "n \<le> length d"
    using assms(5) send_specD(1,2) [OF assms(3)] rk
    by (auto simp: accepted_def split: sum.splits if_splits)
  have out: "outgoing stream x ?l = stream (nw_kernel (world l)) ?fd @ take n d @ content (SendBuffer x)"
    using s l(3,4) by (simp add: outgoing_def)
  have run: "sendInLoop net tid c d l =
      (if n < length d \<or> r = Inl EAGAIN then obind (append_pending c (drop n d) ?l) (ensure_writing net tid c) else Inr ?l)"
    using assms(1,2,5) rk by (auto simp: sendInLoop_def ready_conn accepted_def fd_of_def Let_def split: sum.splits if_splits)
  show ?thesis
  proof (cases "n < length d \<or> r = Inl EAGAIN")
    case True
    have "length (content (SendBuffer x)) + length (drop n d) \<le> tb_cap (SendBuffer x)" using assms(4) by simp
    from queue_rest [OF l(1,2) assms(3) this] show ?thesis using run out True by fastforce
  next
    case False
    then have "drop n d = []" "n = length d" using n by simp_all
    then show ?thesis using run out False l(1,2) by (intro exI [of _ "SendBuffer x"] exI [of _ ?l]) simp
  qed
qed

lemma send_failure:
  assumes "ready c x l" "isInLoopThread tid l" "send_spec net stream" "accepted net x d l = None"
  shows "\<exists>l'. sendInLoop net tid c d l = handleError net c l' \<and> ready c x l' \<and> outgoing stream x l' = outgoing stream x l"
proof -
  obtain r k where rk: "net_send net (fd_of x l) d (nw_kernel (world l)) = (r, k)" by fastforce
  then obtain e where e: "r = Inl e" "e \<noteq> EAGAIN" using assms(4) by (auto simp: accepted_def split: sum.splits if_splits)
  have "sendInLoop net tid c d l = handleError net c (syscall (r, k) l)"
    using assms(1,2) rk e by (simp add: sendInLoop_def ready_conn fd_of_def Let_def)
  moreover have "stream k = stream (nw_kernel (world l))" using send_specD(2) [OF assms(3)] rk e by blast
  ultimately show ?thesis
    using ready_syscall [OF assms(1), of "(r, k)"] by (intro exI [of _ "syscall (r, k) l"]) (simp add: outgoing_def net_access)
qed

lemma content_load: "tb_inv b \<Longrightarrow> load (tb_peek b) (readable_size b) (buffer b) = Inr (content b)"
  by (simp add: load_def content_def tb_defs tb_inv_def)

lemma ready_consume:
  assumes "ready c x l" "n \<le> length (content (SendBuffer x))"
  shows "\<exists>b. with_conn c (\<lambda>x. obind (consume n (SendBuffer x)) (\<lambda>b. Inr (upd_conn c (\<lambda>x. x\<lparr>SendBuffer := b\<rparr>) l))) l =
      Inr (upd_conn c (\<lambda>x. x\<lparr>SendBuffer := b\<rparr>) l) \<and> content b = drop n (content (SendBuffer x)) \<and>
      ready c (x\<lparr>SendBuffer := b\<rparr>) (upd_conn c (\<lambda>x. x\<lparr>SendBuffer := b\<rparr>) l) \<and>
      fd_of (x\<lparr>SendBuffer := b\<rparr>) (upd_conn c (\<lambda>x. x\<lparr>SendBuffer := b\<rparr>) l) = fd_of x l"
proof -
  have "tb_inv (SendBuffer x)" using assms(1) by (simp add: ready_def)
  from tbuf.take_law [OF this assms(2)] obtain b where b: "consume n (SendBuffer x) = Inr b" "tb_inv b" "content b = drop n (content (SendBuffer x))"
    by blast
  have "ready c (x\<lparr>SendBuffer := b\<rparr>) (upd_conn c (\<lambda>x. x\<lparr>SendBuffer := b\<rparr>) l)"
    using assms(1) b(2) by (simp add: ready_def net_access Let_def)
  then show ?thesis using b assms(1) by (intro exI [of _ b]) (simp add: ready_conn fd_of_def net_access)
qed

text \<open>Shutting down the writing side, as the kernel sees it.\<close>

definition shutdown_spec :: "('m, 'k, 's) net \<Rightarrow> ('k \<Rightarrow> int set) \<Rightarrow> bool" where
  "shutdown_spec net down \<longleftrightarrow> (\<forall>fd k. down (net_shutdown net fd k) = insert fd (down k)) \<and>
     (\<forall>fd d k. down (snd (net_send net fd d k)) = down k) \<and>
     (\<forall>oper fd m h k. down (snd (os_epoll_ctl (net_os net) oper fd m h k)) = down k)"

lemma shutdown_specD:
  assumes "shutdown_spec net down"
  shows "down (net_shutdown net fd k) = insert fd (down k)" "down (snd (net_send net fd d k)) = down k"
    "down (snd (os_epoll_ctl (net_os net) oper fd m h k)) = down k"
  using assms unfolding shutdown_spec_def by blast+

text \<open>The end of a flush: shut down if asked to, stop watching for room.\<close>

definition flush_done :: "('m, 'k, 's) net \<Rightarrow> nat \<Rightarrow> 'm tcp_connection \<Rightarrow> ('m, 'k, 's) net_loop \<Rightarrow> ('m, 'k, 's) net_loop outcome" where
  "flush_done net tid x l =
     (let l = (if Connstatus x = DisConnecting then on_kernel (net_shutdown net (fd_of x l)) l else l)
      in if isWriting (el_handler (tc_handler x) l) then cancelWriting (conn_base net) tid (tc_handler x) l else Inr l)"

lemma flush_done_ready:
  assumes "ready c x l" "isInLoopThread tid l" "send_spec net stream" "shutdown_spec net down"
  shows "\<exists>l'. flush_done net tid x l = Inr l' \<and> ready c x l' \<and> isInLoopThread tid l' \<and> fd_of x l' = fd_of x l \<and>
    stream (nw_kernel (world l')) = stream (nw_kernel (world l)) \<and> \<not> isWriting (el_handler (tc_handler x) l') \<and>
    down (nw_kernel (world l')) = (if Connstatus x = DisConnecting then insert (fd_of x l) (down (nw_kernel (world l)))
      else down (nw_kernel (world l)))"
proof -
  define l1 where "l1 = (if Connstatus x = DisConnecting then on_kernel (net_shutdown net (fd_of x l)) l else l)"
  have r: "ready c x l1" "isInLoopThread tid l1" "fd_of x l1 = fd_of x l"
    "stream (nw_kernel (world l1)) = stream (nw_kernel (world l))"
    "down (nw_kernel (world l1)) = (if Connstatus x = DisConnecting then insert (fd_of x l) (down (nw_kernel (world l)))
      else down (nw_kernel (world l)))"
    using assms(1,2) send_specD(4) [OF assms(3)] shutdown_specD(1) [OF assms(4)]
    by (simp_all add: l1_def ready_def fd_of_def isInLoopThread_def net_access)
  have run: "flush_done net tid x l =
      (if isWriting (el_handler (tc_handler x) l1) then cancelWriting (conn_base net) tid (tc_handler x) l1 else Inr l1)"
    by (simp add: flush_done_def l1_def Let_def)
  show ?thesis
  proof (cases "isWriting (el_handler (tc_handler x) l1)")
    case True
    have "ev_ok (h_events (el_handler (tc_handler x) l1))" using r(1) by (simp add: ready_def Let_def)
    then obtain e where e: "ev_remove ev_write (h_events (el_handler (tc_handler x) l1)) = Inr e" "ev_ok e" "\<not> ev_has e ev_write"
      using ev_remove_write by blast
    obtain l' where l': "cancelWriting (conn_base net) tid (tc_handler x) l1 = Inr l'"
      "same_but_events (tc_handler x) l1 l'" "h_events (el_handler (tc_handler x) l') = e"
      "nw_kernel (world l') = snd (os_epoll_ctl (net_os net) EPOLL_CTL_MOD (fd_of x l1) (ev_value e) (tc_handler x) (nw_kernel (world l1)))"
      using change_events_ready [OF r(1,2), where f = "ev_remove ev_write", OF e(1)] unfolding cancelWriting_def by blast
    have "isInLoopThread tid l'" using r(2) l'(2) by (simp add: isInLoopThread_def same_but_events_def)
    then show ?thesis
      using True run r l' e ready_transfer [OF r(1) l'(2)] send_specD(3) [OF assms(3)] shutdown_specD(3) [OF assms(4)]
      by (auto simp: isWriting_def)
  next
    case False
    then show ?thesis using run r by simp
  qed
qed

lemma write_effect:
  assumes "ready c x l" "isInLoopThread tid l" "send_spec net stream" "shutdown_spec net down"
    and "net_send net (fd_of x l) (content (SendBuffer x)) (nw_kernel (world l)) = (Inr n, k)" "0 < n"
  shows "\<exists>b l'. handleWrite net tid c l = Inr l' \<and> ready c (x\<lparr>SendBuffer := b\<rparr>) l' \<and> fd_of (x\<lparr>SendBuffer := b\<rparr>) l' = fd_of x l \<and>
    content b = drop n (content (SendBuffer x)) \<and> outgoing stream (x\<lparr>SendBuffer := b\<rparr>) l' = outgoing stream x l \<and>
    (content b = [] \<longrightarrow> \<not> isWriting (el_handler (tc_handler x) l')) \<and>
    down (nw_kernel (world l')) = (if content b = [] \<and> Connstatus x = DisConnecting
      then insert (fd_of x l) (down (nw_kernel (world l))) else down (nw_kernel (world l)))"
proof -
  let ?q = "content (SendBuffer x)" and ?l = "syscall (Inr n :: errno + nat, k) l"
  have inv: "tb_inv (SendBuffer x)" using assms(1) by (simp add: ready_def)
  have len: "readable_size (SendBuffer x) = length ?q" using inv by (auto simp: content_def tb_defs tb_inv_def min_def)
  have s: "n \<le> length ?q" "stream k = (stream (nw_kernel (world l)))(fd_of x l := stream (nw_kernel (world l)) (fd_of x l) @ take n ?q)"
    using send_specD(1) [OF assms(3,5)] by blast+
  have l: "ready c x ?l" "fd_of x ?l = fd_of x l" "isInLoopThread tid ?l" "nw_kernel (world ?l) = k"
    using assms(2) ready_syscall [OF assms(1), of "(Inr n :: errno + nat, k)"] by (auto simp: isInLoopThread_def net_access)
  have d: "down k = down (nw_kernel (world l))"
    using shutdown_specD(2) [OF assms(4), of "fd_of x l" ?q "nw_kernel (world l)"] assms(5) by simp
  have run: "handleWrite net tid c l = obind (if n = length ?q then flush_done net tid x ?l else Inr ?l) (\<lambda>l.
      with_conn c (\<lambda>x. obind (consume n (SendBuffer x)) (\<lambda>b. Inr (upd_conn c (\<lambda>x. x\<lparr>SendBuffer := b\<rparr>) l))) l)"
    using assms(1,2,5,6) content_load [OF inv] len l(2)
    by (simp add: handleWrite_def ready_conn flush_done_def fd_of_def Let_def conn_access(9))
  obtain l1 where l1: "(if n = length ?q then flush_done net tid x ?l else Inr ?l) = Inr l1" "ready c x l1"
    "fd_of x l1 = fd_of x l" "stream (nw_kernel (world l1)) = stream k"
    "n = length ?q \<longrightarrow> \<not> isWriting (el_handler (tc_handler x) l1)"
    "down (nw_kernel (world l1)) = (if n = length ?q \<and> Connstatus x = DisConnecting then insert (fd_of x l) (down k) else down k)"
    using flush_done_ready [OF l(1,3) assms(3,4)] l by (cases "n = length ?q") auto
  from ready_consume [OF l1(2) s(1)] obtain b where
    b: "handleWrite net tid c l = Inr (upd_conn c (\<lambda>x. x\<lparr>SendBuffer := b\<rparr>) l1)" "content b = drop n ?q"
    "ready c (x\<lparr>SendBuffer := b\<rparr>) (upd_conn c (\<lambda>x. x\<lparr>SendBuffer := b\<rparr>) l1)"
    "fd_of (x\<lparr>SendBuffer := b\<rparr>) (upd_conn c (\<lambda>x. x\<lparr>SendBuffer := b\<rparr>) l1) = fd_of x l1"
    using run l1(1) by auto
  have "content b = [] \<longleftrightarrow> n = length ?q" using b(2) s(1) by auto
  then show ?thesis
    using b l1 s(2) d by (intro exI [of _ b] exI [of _ "upd_conn c (\<lambda>x. x\<lparr>SendBuffer := b\<rparr>) l1"]) (simp add: outgoing_def net_access)
qed

subsection \<open>Properties\<close>

text \<open>C24. Order of the bytes. When the kernel takes n bytes of a message (none, if it is full), the rest
  is queued and the interest in writing is set; nothing is lost or duplicated. If nothing was
  pending, or the kernel took nothing, the outgoing bytes are extended by exactly the message. In
  general the n bytes go out before what was pending: \<open>sendInLoop\<close> calls \<open>send\<close> whether or not
  the send buffer is empty.\<close>

theorem sendInLoop_outgoing:
  assumes "ready c x l" "isInLoopThread tid l" "send_spec net stream"
    and "length (content (SendBuffer x)) + length d \<le> tb_cap (SendBuffer x)"
    and "accepted net x d l = Some n"
  shows "\<exists>b l'. sendInLoop net tid c d l = Inr l' \<and> ready c (x\<lparr>SendBuffer := b\<rparr>) l' \<and>
    content b = content (SendBuffer x) @ drop n d \<and>
    (n < length d \<longrightarrow> isWriting (el_handler (tc_handler x) l')) \<and>
    outgoing stream (x\<lparr>SendBuffer := b\<rparr>) l' =
      stream (nw_kernel (world l)) (fd_of x l) @ take n d @ content (SendBuffer x) @ drop n d \<and>
    (content (SendBuffer x) = [] \<or> n = 0 \<longrightarrow>
      outgoing stream (x\<lparr>SendBuffer := b\<rparr>) l' = outgoing stream x l @ d)"
  using send_effect [OF assms] by (fastforce simp: outgoing_def)

text \<open>A socket with a limited amount of room, for concrete runs.\<close>

type_synonym room_kernel = "(int \<Rightarrow> char list) \<times> nat \<times> int set"

definition room_net :: "(nat, room_kernel, unit) net" where
  "room_net = \<lparr>
     net_os = \<lparr>os_epoll_ctl = (\<lambda>_ _ _ _ k. (None, k)), os_epoll_wait = (\<lambda>_ _ k. (Inr [], k)),
       os_eventfd_write = (\<lambda>_ _ k. (8, k)), os_eventfd_read = (\<lambda>_ k. (8, k))\<rparr>,
     net_send = (\<lambda>fd d (s, room, dn). if room = 0 then (Inl EAGAIN, (s, room, dn))
       else let n = min room (length d) in (Inr n, (s(fd := s fd @ take n d), room - n, dn))),
     net_readv = (\<lambda>_ _ k. (Inl EAGAIN, k)), net_recv_oob = (\<lambda>_ _ k. (Inl EAGAIN, k)),
     net_shutdown = (\<lambda>fd (s, room, dn). (s, room, insert fd dn)), net_close = (\<lambda>_ k. k),
     net_nonblocking = (\<lambda>_ _. True), net_dequeue = fifo_dequeue,
     net_call = (\<lambda>_ _ l. Inr l), net_app = (\<lambda>_ l. Inr l)\<rparr>"

lemma room_net_spec: "send_spec room_net fst" "shutdown_spec room_net (\<lambda>k. snd (snd k))"
  by (auto simp: send_spec_def shutdown_spec_def room_net_def Let_def split: if_splits)

definition room_buffer :: "char list \<Rightarrow> tcp_buffer" where
  "room_buffer q = \<lparr>buffer = replicate 8 NUL @ q, prepend_size = 8, read_index = 8, write_index = 8 + length q\<rparr>"

definition room_conn :: "char list \<Rightarrow> nat tcp_connection" where
  "room_conn q = (conn_record 5 ''peer'' True (room_buffer q) Connected 1 False)\<lparr>destructCallBack := Some 0\<rparr>"

definition room_loop :: "char list \<Rightarrow> nat \<Rightarrow> (nat, room_kernel, unit) net_loop" where
  "room_loop q room = \<lparr>
     el_poller = \<lparr>ep_heap = (\<lambda>_. (handler_new ev_default)\<lparr>h_fd := 5, h_loop := True, h_status := st_Added\<rparr>),
       ep_handlers = [5 \<mapsto> 1], ep_events_size = 1024,
       ep_kernel = \<lparr>nw_kernel = (\<lambda>_. [], room, {}), nw_errno = EOTHER 0,
         nw_conns = (\<lambda>c. if c = 0 then Some (room_conn q) else None), nw_app = ()\<rparr>, ep_errors = []\<rparr>,
     el_id = 0, el_active = [], el_functions = [], el_thread = 7, el_status = ls_Looping, el_wake = 9\<rparr>"

lemma room_ready:
  assumes "length q \<le> 1000"
  shows "ready 0 (room_conn q) (room_loop q room)" "content (SendBuffer (room_conn q)) = q"
    "fd_of (room_conn q) (room_loop q room) = 5" "isInLoopThread 7 (room_loop q room)"
    "nw_kernel (world (room_loop q room)) = (\<lambda>_. [], room, {})" "tb_cap (SendBuffer (room_conn q)) = vector_max - 8"
proof -
  have "tb_inv (room_buffer q)" using assms by (simp add: tb_inv_def room_buffer_def vector_max_def)
  moreover have "ev_ok ev_default" by (simp add: ev_ok_def ev_default_def)
  ultimately show "ready 0 (room_conn q) (room_loop q room)"
    by (simp add: ready_def room_loop_def room_conn_def conn_record_def world_def el_handler_def handler_new_def)
  show "content (SendBuffer (room_conn q)) = q"
    by (simp add: room_conn_def conn_record_def room_buffer_def content_def segment_def)
  show "fd_of (room_conn q) (room_loop q room) = 5" "isInLoopThread 7 (room_loop q room)"
    "nw_kernel (world (room_loop q room)) = (\<lambda>_. [], room, {})" "tb_cap (SendBuffer (room_conn q)) = vector_max - 8"
    by (simp_all add: fd_of_def room_loop_def el_handler_def isInLoopThread_def world_def tb_cap_def room_conn_def
        conn_record_def room_buffer_def)
qed

theorem sendInLoop_outgoing_witness:
  "\<exists>b l'. sendInLoop room_net 7 0 ''abc'' (room_loop [] 2) = Inr l' \<and>
     content b = ''c'' \<and> outgoing fst ((room_conn [])\<lparr>SendBuffer := b\<rparr>) l' = ''abc''"
proof -
  have acc: "accepted room_net (room_conn []) ''abc'' (room_loop [] 2) = Some 2"
    using room_ready(3,5) [of "[]" 2] by (simp add: accepted_def room_net_def)
  have cap: "length (content (SendBuffer (room_conn []))) + length ''abc'' \<le> tb_cap (SendBuffer (room_conn []))"
    using room_ready(2,6) [of "[]"] by (simp add: vector_max_def)
  have "\<exists>b l'. sendInLoop room_net 7 0 ''abc'' (room_loop [] 2) = Inr l' \<and>
      content b = content (SendBuffer (room_conn [])) @ drop 2 ''abc'' \<and>
      (content (SendBuffer (room_conn [])) = [] \<or> (2::nat) = 0 \<longrightarrow>
        outgoing fst ((room_conn [])\<lparr>SendBuffer := b\<rparr>) l' = outgoing fst (room_conn []) (room_loop [] 2) @ ''abc'')"
    using sendInLoop_outgoing [OF room_ready(1,4) room_net_spec(1) cap acc] by fastforce
  then show ?thesis using room_ready(2) [of "[]"] room_ready(5) [of "[]" 2] by (simp add: outgoing_def)
qed

text \<open>A later message can overtake an earlier one. If bytes are still pending and the kernel has
  room again, the whole of a new message is accepted by the kernel while the earlier bytes stay in
  the send buffer: the peer receives the stream out of order.\<close>

theorem sendInLoop_overtakes_pending:
  assumes "ready c x l" "isInLoopThread tid l" "send_spec net stream"
    and "length (content (SendBuffer x)) + length d \<le> tb_cap (SendBuffer x)"
    and "accepted net x d l = Some (length d)"
  shows "\<exists>b l'. sendInLoop net tid c d l = Inr l' \<and> ready c (x\<lparr>SendBuffer := b\<rparr>) l' \<and>
    content b = content (SendBuffer x) \<and>
    outgoing stream (x\<lparr>SendBuffer := b\<rparr>) l' =
      stream (nw_kernel (world l)) (fd_of x l) @ d @ content (SendBuffer x)"
  using send_effect [OF assms] by fastforce

theorem sendInLoop_overtakes_pending_witness:
  "\<exists>b l'. sendInLoop room_net 7 0 ''second'' (room_loop ''first'' 9) = Inr l' \<and>
     outgoing fst ((room_conn ''first'')\<lparr>SendBuffer := b\<rparr>) l' = ''secondfirst''"
proof -
  have acc: "accepted room_net (room_conn ''first'') ''second'' (room_loop ''first'' 9) = Some (length ''second'')"
    using room_ready(3,5) [of "''first''" 9] by (simp add: accepted_def room_net_def)
  have cap: "length (content (SendBuffer (room_conn ''first''))) + length ''second'' \<le> tb_cap (SendBuffer (room_conn ''first''))"
    using room_ready(2,6) [of "''first''"] by (simp add: vector_max_def)
  have le: "length ''first'' \<le> 1000" by simp
  have out: "fst (nw_kernel (world (room_loop ''first'' 9))) (fd_of (room_conn ''first'') (room_loop ''first'' 9)) @
      ''second'' @ content (SendBuffer (room_conn ''first'')) = ''secondfirst''"
    using room_ready(2,5) [OF le] by simp
  show ?thesis
    using sendInLoop_overtakes_pending [OF room_ready(1,4) [OF le] room_net_spec(1) cap acc] unfolding out by blast
qed

text \<open>C25. Flushing. When the kernel takes n > 0 of the pending bytes, \<open>handleWrite\<close> removes exactly
  those from the send buffer, so the outgoing bytes stay the same; when the buffer becomes empty the
  interest in writing is dropped, and the socket is shut down exactly if the connection was
  disconnecting.\<close>

theorem handleWrite_flushes:
  assumes "ready c x l" "isInLoopThread tid l" "send_spec net stream" "shutdown_spec net down"
    and "net_send net (fd_of x l) (content (SendBuffer x)) (nw_kernel (world l)) = (Inr n, k)" "0 < n"
  shows "\<exists>b l'. handleWrite net tid c l = Inr l' \<and> ready c (x\<lparr>SendBuffer := b\<rparr>) l' \<and>
    content b = drop n (content (SendBuffer x)) \<and> outgoing stream (x\<lparr>SendBuffer := b\<rparr>) l' = outgoing stream x l \<and>
    (content b = [] \<longrightarrow> \<not> isWriting (el_handler (tc_handler x) l')) \<and>
    down (nw_kernel (world l')) = (if content b = [] \<and> Connstatus x = DisConnecting
      then insert (fd_of x l) (down (nw_kernel (world l))) else down (nw_kernel (world l)))"
  using write_effect [OF assms] by blast

theorem handleWrite_flushes_witness:
  "\<exists>b l'. handleWrite room_net 7 0 (room_loop ''first'' 9) = Inr l' \<and> content b = [] \<and>
     outgoing fst ((room_conn ''first'')\<lparr>SendBuffer := b\<rparr>) l' = ''first''"
proof -
  have le: "length ''first'' \<le> 1000" by simp
  note r = room_ready [OF le]
  have snd: "net_send room_net (fd_of (room_conn ''first'') (room_loop ''first'' 9)) (content (SendBuffer (room_conn ''first'')))
      (nw_kernel (world (room_loop ''first'' 9))) = (Inr 5, ((\<lambda>_. [])(5 := ''first''), 4, {}))"
    using r(2,3,5) by (simp add: room_net_def)
  have out: "outgoing fst (room_conn ''first'') (room_loop ''first'' 9) = ''first''" "drop 5 (content (SendBuffer (room_conn ''first''))) = []"
    using r(2,5) by (simp_all add: outgoing_def)
  show ?thesis
    using handleWrite_flushes [OF r(1,4) room_net_spec snd] unfolding out by fastforce
qed

text \<open>A request to disconnect is forgotten while output is pending. \<open>disconnect\<close> only sets the
  interest in writing then and leaves the status Connected; when the buffer has been flushed
  completely afterwards, the writing side is still open.\<close>

theorem disconnect_with_pending_never_shuts_down:
  assumes "ready c x l" "isInLoopThread tid l" "send_spec net stream" "shutdown_spec net down"
    and "content (SendBuffer x) \<noteq> []" "Connstatus x = Connected"
  shows "\<exists>l1. disconnect net tid fuel c l = Inr l1 \<and> ready c x l1 \<and> isWriting (el_handler (tc_handler x) l1) \<and>
    (\<forall>k. net_send net (fd_of x l1) (content (SendBuffer x)) (nw_kernel (world l1)) =
        (Inr (length (content (SendBuffer x))), k) \<longrightarrow>
      (\<exists>b l2. handleWrite net tid c l1 = Inr l2 \<and> ready c (x\<lparr>SendBuffer := b\<rparr>) l2 \<and> content b = [] \<and>
        down (nw_kernel (world l2)) = down (nw_kernel (world l))))"
proof -
  have "readable_size (SendBuffer x) \<noteq> 0"
    using assms(1,5) by (auto simp: ready_def content_def tb_defs tb_inv_def)
  moreover have "nw_conns (world l) c \<noteq> None" using assms(1) by (simp add: ready_def)
  ultimately have run: "disconnect net tid fuel c l = ensure_writing net tid c l"
    using assms(1,2) by (auto simp: disconnect_def ready_conn submit_def run_task_def conn_env_def conn_task_def if_alive_def)
  obtain l1 where l1: "ensure_writing net tid c l = Inr l1" "ready c x l1" "isInLoopThread tid l1"
    "isWriting (el_handler (tc_handler x) l1)" "down (nw_kernel (world l1)) = down (nw_kernel (world l))"
    using ensure_writing_ready [OF assms(1,2), of net] shutdown_specD(3) [OF assms(4)] by fastforce
  have flush: "\<exists>b l2. handleWrite net tid c l1 = Inr l2 \<and> ready c (x\<lparr>SendBuffer := b\<rparr>) l2 \<and> content b = [] \<and>
      down (nw_kernel (world l2)) = down (nw_kernel (world l))"
    if "net_send net (fd_of x l1) (content (SendBuffer x)) (nw_kernel (world l1)) = (Inr (length (content (SendBuffer x))), k)" for k
    using write_effect [OF l1(2,3) assms(3,4) that] assms(5,6) l1(5) by fastforce
  with l1 run show ?thesis by auto
qed

theorem disconnect_with_pending_never_shuts_down_witness:
  "\<exists>l1. disconnect room_net 7 0 0 (room_loop ''first'' 9) = Inr l1 \<and> isWriting (el_handler 1 l1)"
proof -
  have le: "length ''first'' \<le> 1000" by simp
  note r = room_ready [OF le]
  have "content (SendBuffer (room_conn ''first'')) \<noteq> []" "Connstatus (room_conn ''first'') = Connected" "tc_handler (room_conn ''first'') = 1"
    using r(2) by (simp_all add: room_conn_def conn_record_def)
  then show ?thesis
    using disconnect_with_pending_never_shuts_down [OF r(1,4) room_net_spec, where fuel = 0] by fastforce
qed




end
