(* ===== verification/Timer_Queue.thy ===== *)
theory Timer_Queue
  imports Prelude "HOL-Library.Product_Lexorder" "HOL-Library.Signed_Division"
begin

text \<open>
  \<open>Common/TimeStamp.h\<close>, \<open>Net/include/Timer.h\<close>, \<open>Net/include/TimerQueue.h\<close> and
  \<open>Net/include/TimerQueue.tpp\<close>: time stamps, timers, and the queue of timers of an event loop. A time
  point is a number of nanoseconds, the tick of both clocks; an interval counts seconds or
  microseconds. Timers are shared objects in a heap indexed by their address, and the ordered set of
  the queue holds pairs of a time point and such an address, as \<open>std::set<Entry>\<close> does. The clock,
  the timer descriptor and the callbacks are parameters.
\<close>

subsection \<open>Time stamps and intervals\<close>

datatype precision = LowPrecision | HighPrecision

text \<open>Nanoseconds per unit of an interval: seconds for the low precision, microseconds for the high.\<close>

definition period_ns :: "precision \<Rightarrow> int" where
  "period_ns p = (case p of LowPrecision \<Rightarrow> 10 ^ 9 | HighPrecision \<Rightarrow> 10 ^ 3)"

type_synonym time_stamp = int
type_synonym time_interval = int

definition ts_plus :: "precision \<Rightarrow> time_stamp \<Rightarrow> time_interval \<Rightarrow> time_stamp" where
  "ts_plus p lhs rhs = lhs + rhs * period_ns p"

definition ts_eq :: "time_stamp \<Rightarrow> time_stamp \<Rightarrow> bool" where "ts_eq lhs rhs \<longleftrightarrow> lhs = rhs"
definition ts_ne :: "time_stamp \<Rightarrow> time_stamp \<Rightarrow> bool" where "ts_ne lhs rhs \<longleftrightarrow> \<not> ts_eq lhs rhs"
definition ts_less :: "time_stamp \<Rightarrow> time_stamp \<Rightarrow> bool" where "ts_less lhs rhs \<longleftrightarrow> lhs < rhs"
definition ts_greater :: "time_stamp \<Rightarrow> time_stamp \<Rightarrow> bool" where "ts_greater lhs rhs \<longleftrightarrow> ts_less rhs lhs"
definition ts_le :: "time_stamp \<Rightarrow> time_stamp \<Rightarrow> bool" where "ts_le lhs rhs \<longleftrightarrow> \<not> ts_greater lhs rhs"
definition ts_ge :: "time_stamp \<Rightarrow> time_stamp \<Rightarrow> bool" where "ts_ge lhs rhs \<longleftrightarrow> \<not> ts_less lhs rhs"

text \<open>The difference of two time points is taken in clock ticks and read as interval units.\<close>

definition ts_minus :: "time_stamp \<Rightarrow> time_stamp \<Rightarrow> time_interval" where
  "ts_minus lhs rhs = lhs - rhs"

definition ti_less :: "time_interval \<Rightarrow> time_interval \<Rightarrow> bool" where "ti_less lhs rhs \<longleftrightarrow> lhs < rhs"
definition ti_greater :: "time_interval \<Rightarrow> time_interval \<Rightarrow> bool" where "ti_greater lhs rhs \<longleftrightarrow> lhs > rhs"
definition ti_le :: "time_interval \<Rightarrow> time_interval \<Rightarrow> bool" where "ti_le lhs rhs \<longleftrightarrow> \<not> ti_greater lhs rhs"
definition ti_ge :: "time_interval \<Rightarrow> time_interval \<Rightarrow> bool" where "ti_ge lhs rhs \<longleftrightarrow> \<not> ti_less lhs rhs"
definition ti_times :: "int \<Rightarrow> time_interval \<Rightarrow> time_interval" where "ti_times Count lhs = lhs * Count"

subsection \<open>Timers\<close>

definition FOREVER :: int where "FOREVER = -1"

record 'cb timer =
  tm_callback :: 'cb
  tm_interval :: time_interval
  execute_count :: int
  expiration :: time_stamp

definition timer_new :: "precision \<Rightarrow> 'cb \<Rightarrow> time_interval \<Rightarrow> int \<Rightarrow> time_stamp \<Rightarrow> 'cb timer outcome" where
  "timer_new p cb interval n now =
     assertC (n < 0 \<and> n = FOREVER \<or> n \<ge> 0)
       (Inr \<lparr>tm_callback = cb, tm_interval = interval, execute_count = n, expiration = ts_plus p now interval\<rparr>)"

definition remain_count :: "'cb timer \<Rightarrow> int" where "remain_count t = execute_count t"

definition modifyExecuteCount :: "nat \<Rightarrow> 'cb timer \<Rightarrow> 'cb timer" where
  "modifyExecuteCount n t = t\<lparr>execute_count := to_int32 (int n)\<rparr>"

definition setRemainCount :: "int \<Rightarrow> 'cb timer \<Rightarrow> 'cb timer" where
  "setRemainCount n t = t\<lparr>execute_count := n\<rparr>"

definition timer_cancel :: "'cb timer \<Rightarrow> 'cb timer" where
  "timer_cancel t = t\<lparr>execute_count := 0\<rparr>"

subsection \<open>The queue\<close>

type_synonym timer_entry = "time_stamp \<times> nat"

record ('cb, 'w) timer_queue =
  tq_timers :: "timer_entry list"
  tq_heap :: "nat \<Rightarrow> 'cb timer"
  tq_precision :: precision
  tq_thread :: nat
  tq_world :: 'w

record ('cb, 'w) timer_env =
  te_now :: "'w \<Rightarrow> time_stamp \<times> 'w"
  te_settime :: "int \<Rightarrow> int \<Rightarrow> 'w \<Rightarrow> int \<times> 'w"
  te_read :: "'w \<Rightarrow> 'w"
  te_call :: "'cb \<Rightarrow> ('cb, 'w) timer_queue \<Rightarrow> ('cb, 'w) timer_queue outcome"

text \<open>Insertion into \<open>std::set\<close>: an equal element is not inserted again.\<close>

fun set_insert :: "'a::linorder \<Rightarrow> 'a list \<Rightarrow> bool \<times> 'a list" where
  "set_insert x [] = (True, [x])"
| "set_insert x (y # ys) =
     (if x < y then (True, x # y # ys) else if x = y then (False, y # ys)
      else let (new, zs) = set_insert x ys in (new, y # zs))"

definition now :: "('cb, 'w) timer_env \<Rightarrow> ('cb, 'w) timer_queue \<Rightarrow> time_stamp \<times> ('cb, 'w) timer_queue" where
  "now env q = (let (t, w) = te_now env (tq_world q) in (t, q\<lparr>tq_world := w\<rparr>))"

definition upd_timer :: "nat \<Rightarrow> ('cb timer \<Rightarrow> 'cb timer) \<Rightarrow> ('cb, 'w) timer_queue \<Rightarrow> ('cb, 'w) timer_queue" where
  "upd_timer p f q = q\<lparr>tq_heap := (tq_heap q)(p := f (tq_heap q p))\<rparr>"

text \<open>\<open>Timer::execute\<close>; the callback runs before the new expiration is computed.\<close>

definition execute :: "('cb, 'w) timer_env \<Rightarrow> nat \<Rightarrow> ('cb, 'w) timer_queue \<Rightarrow> ('cb, 'w) timer_queue outcome" where
  "execute env p q =
     assertC (execute_count (tq_heap q p) \<noteq> 0)
       (let q = (if execute_count (tq_heap q p) \<noteq> FOREVER
                 then upd_timer p (\<lambda>t. t\<lparr>execute_count := execute_count t - 1\<rparr>) q else q) in
        obind (te_call env (tm_callback (tq_heap q p)) q) (\<lambda>q.
        let (t, q) = now env q in
        Inr (upd_timer p (\<lambda>x. x\<lparr>expiration := ts_plus (tq_precision q) t (tm_interval x)\<rparr>) q)))"

text \<open>The value \<open>timerfd_settime\<close> is given: the interval of the timer, from now.\<close>

definition settime_of :: "precision \<Rightarrow> 'cb timer \<Rightarrow> int \<times> int" where
  "settime_of p t = (let ns = tm_interval t * period_ns p in (ns sdiv 10 ^ 9, ns smod 10 ^ 9))"

text \<open>When setting the descriptor fails, the entry built from the timer's present expiration is
  erased and the function calls itself; it need not be the entry at the front, so the number of
  calls has a bound.\<close>

fun modifyTimerfd ::
  "('cb, 'w) timer_env \<Rightarrow> nat \<Rightarrow> nat \<Rightarrow> ('cb, 'w) timer_queue \<Rightarrow> ('cb, 'w) timer_queue outcome" where
  "modifyTimerfd env tid 0 q = Inl Out_of_fuel"
| "modifyTimerfd env tid (Suc f) q =
     assertC (tid = tq_thread q)
       (case tq_timers q of
          [] \<Rightarrow> Inr q
        | e # es \<Rightarrow>
            let p = snd e;
                (sec, nsec) = settime_of (tq_precision q) (tq_heap q p);
                (ret, w) = te_settime env sec nsec (tq_world q);
                q = q\<lparr>tq_world := w\<rparr>
            in if ret < 0
               then modifyTimerfd env tid f
                      (q\<lparr>tq_timers := removeAll (expiration (tq_heap q p), p) (tq_timers q)\<rparr>)
               else Inr q)"

definition insertInLoop ::
  "('cb, 'w) timer_env \<Rightarrow> nat \<Rightarrow> nat \<Rightarrow> nat \<Rightarrow> ('cb, 'w) timer_queue \<Rightarrow> ('cb, 'w) timer_queue outcome" where
  "insertInLoop env tid fuel p q =
     assertC (tid = tq_thread q) (assertC (p \<noteq> 0)
       (let (new, es) = set_insert (expiration (tq_heap q p), p) (tq_timers q) in
        assertC new (modifyTimerfd env tid fuel (q\<lparr>tq_timers := es\<rparr>))))"

definition tq_insert ::
  "('cb, 'w) timer_env \<Rightarrow> nat \<Rightarrow> nat \<Rightarrow> nat \<Rightarrow> 'cb \<Rightarrow> time_interval \<Rightarrow> int \<Rightarrow> ('cb, 'w) timer_queue \<Rightarrow>
   ('cb, 'w) timer_queue outcome" where
  "tq_insert env tid fuel p cb interval n q =
     (let (t, q) = now env q in
      obind (timer_new (tq_precision q) cb interval n t) (\<lambda>x.
      insertInLoop env tid fuel p (upd_timer p (\<lambda>_. x) q)))"

definition cancelTimerInLoop :: "nat \<Rightarrow> nat \<Rightarrow> ('cb, 'w) timer_queue \<Rightarrow> ('cb, 'w) timer_queue outcome" where
  "cancelTimerInLoop tid p q =
     assertC (tid = tq_thread q) (assertC (p \<noteq> 0)
       (let e = (expiration (tq_heap q p), p) in
        assertC (e \<in> set (tq_timers q)) (Inr (q\<lparr>tq_timers := removeAll e (tq_timers q)\<rparr>))))"

definition cancelTimer :: "nat \<Rightarrow> nat \<Rightarrow> ('cb, 'w) timer_queue \<Rightarrow> ('cb, 'w) timer_queue outcome" where
  "cancelTimer tid p q = cancelTimerInLoop tid p q"

text \<open>The sentry pairs the present time with the null pointer, the least address.\<close>

definition getDueTasks ::
  "nat \<Rightarrow> time_stamp \<Rightarrow> ('cb, 'w) timer_queue \<Rightarrow> (timer_entry list \<times> ('cb, 'w) timer_queue) outcome" where
  "getDueTasks tid t q =
     assertC (tid = tq_thread q)
       (let expired = takeWhile (\<lambda>e. e \<le> (t, 0)) (tq_timers q);
            rest = dropWhile (\<lambda>e. e \<le> (t, 0)) (tq_timers q)
        in assertC (rest = [] \<or> t < fst (hd rest)) (Inr (expired, q\<lparr>tq_timers := rest\<rparr>)))"

definition ReadTimerfd :: "('cb, 'w) timer_env \<Rightarrow> nat \<Rightarrow> ('cb, 'w) timer_queue \<Rightarrow> ('cb, 'w) timer_queue outcome" where
  "ReadTimerfd env tid q = assertC (tid = tq_thread q) (Inr (q\<lparr>tq_world := te_read env (tq_world q)\<rparr>))"

fun run_expired ::
  "('cb, 'w) timer_env \<Rightarrow> timer_entry list \<Rightarrow> timer_entry list \<Rightarrow> ('cb, 'w) timer_queue \<Rightarrow>
   (timer_entry list \<times> ('cb, 'w) timer_queue) outcome" where
  "run_expired env [] NewTasks q = Inr (NewTasks, q)"
| "run_expired env (e # es) NewTasks q =
     (if remain_count (tq_heap q (snd e)) \<le> 0 then run_expired env es NewTasks q
      else obind (execute env (snd e) q) (\<lambda>q.
           run_expired env es (if remain_count (tq_heap q (snd e)) \<noteq> 0 then NewTasks @ [e] else NewTasks) q))"

definition handlerRead ::
  "('cb, 'w) timer_env \<Rightarrow> nat \<Rightarrow> nat \<Rightarrow> ('cb, 'w) timer_queue \<Rightarrow> ('cb, 'w) timer_queue outcome" where
  "handlerRead env tid fuel q =
     assertC (tid = tq_thread q) (obind (ReadTimerfd env tid q) (\<lambda>q.
     let (t, q) = now env q in
     obind (getDueTasks tid t q) (\<lambda>(expired, q).
     obind (run_expired env expired [] q) (\<lambda>(NewTasks, q).
     modifyTimerfd env tid fuel (q\<lparr>tq_timers := foldl (\<lambda>es e. snd (set_insert e es)) (tq_timers q) NewTasks\<rparr>)))))"

subsection \<open>The ordered set\<close>

definition tq_inv :: "('cb, 'w) timer_queue \<Rightarrow> bool" where
  "tq_inv q \<longleftrightarrow> sorted_wrt (<) (tq_timers q) \<and> (\<forall>e \<in> set (tq_timers q). snd e \<noteq> 0)"

lemma set_insert_Cons:
  "set_insert x (y # ys) = (if x < y then (True, x # y # ys) else if x = y then (False, y # ys)
     else (fst (set_insert x ys), y # snd (set_insert x ys)))"
  by (simp add: case_prod_unfold Let_def)

declare set_insert.simps(2) [simp del] set_insert_Cons [simp]

lemma set_insert_set: "set (snd (set_insert x xs)) = insert x (set xs)"
  by (induction xs) auto

lemma set_insert_sorted: "sorted_wrt (<) xs \<Longrightarrow> sorted_wrt (<) (snd (set_insert x xs))"
  by (induction xs) (auto simp: set_insert_set)

lemma set_insert_new: "sorted_wrt (<) xs \<Longrightarrow> fst (set_insert x xs) \<longleftrightarrow> x \<notin> set xs"
  by (induction xs) auto

lemma takeWhile_sorted:
  fixes xs :: "'a::linorder list"
  assumes "sorted_wrt (<) xs"
  shows "takeWhile (\<lambda>y. y \<le> s) xs = filter (\<lambda>y. y \<le> s) xs" "dropWhile (\<lambda>y. y \<le> s) xs = filter (\<lambda>y. s < y) xs"
proof -
  have *: "takeWhile (\<lambda>y. y \<le> s) xs = filter (\<lambda>y. y \<le> s) xs \<and> dropWhile (\<lambda>y. y \<le> s) xs = filter (\<lambda>y. s < y) xs"
    using assms
  proof (induction xs)
    case (Cons y ys)
    show ?case
    proof (cases "y \<le> s")
      case True
      then show ?thesis using Cons by (simp add: not_le [symmetric])
    next
      case False
      then have "\<forall>z \<in> set ys. s < z" using Cons.prems by auto
      moreover from this have "filter (\<lambda>y. y \<le> s) ys = []" "filter (\<lambda>y. s < y) ys = ys"
        by (auto simp: filter_empty_conv intro: filter_True)
      ultimately show ?thesis using False by simp
    qed
  qed simp
  then show "takeWhile (\<lambda>y. y \<le> s) xs = filter (\<lambda>y. y \<le> s) xs" "dropWhile (\<lambda>y. y \<le> s) xs = filter (\<lambda>y. s < y) xs"
    by simp_all
qed

lemma sentry_order: "snd e \<noteq> 0 \<Longrightarrow> e \<le> (t, 0) \<longleftrightarrow> fst e < t" "snd e \<noteq> 0 \<Longrightarrow> (t, 0) < e \<longleftrightarrow> t \<le> fst e"
  for e :: timer_entry
  by (cases e; auto simp: less_prod_def less_eq_prod_def)+

lemma due_split:
  assumes "tq_inv q"
  shows "takeWhile (\<lambda>e. e \<le> (t, 0)) (tq_timers q) = filter (\<lambda>e. fst e < t) (tq_timers q)"
    "dropWhile (\<lambda>e. e \<le> (t, 0)) (tq_timers q) = filter (\<lambda>e. t \<le> fst e) (tq_timers q)"
  using assms takeWhile_sorted [of "tq_timers q" "(t, 0)"] sentry_order
  by (auto simp: tq_inv_def intro!: filter_cong)

lemma sorted_fst: "sorted_wrt (<) (e # es) \<Longrightarrow> x \<in> set es \<Longrightarrow> fst e \<le> fst x" for e x :: timer_entry
  by (auto simp: less_prod_def)

text \<open>What is due: everything strictly before the present, if nothing is due exactly now.\<close>

lemma getDueTasks_split:
  assumes "tq_inv q" "tid = tq_thread q"
  shows "getDueTasks tid t q = (if t \<in> fst ` set (tq_timers q) then Inl Assertion
    else Inr (filter (\<lambda>e. fst e < t) (tq_timers q), q\<lparr>tq_timers := filter (\<lambda>e. t < fst e) (tq_timers q)\<rparr>))"
proof -
  let ?r = "filter (\<lambda>e. t \<le> fst e) (tq_timers q)"
  have run: "getDueTasks tid t q = assertC (?r = [] \<or> t < fst (hd ?r))
      (Inr (filter (\<lambda>e. fst e < t) (tq_timers q), q\<lparr>tq_timers := ?r\<rparr>))"
    using assms(2) by (simp add: getDueTasks_def due_split [OF assms(1)] Let_def)
  have srt: "sorted_wrt (<) ?r" using assms(1) by (simp add: tq_inv_def sorted_wrt_filter)
  show ?thesis
  proof (cases "t \<in> fst ` set (tq_timers q)")
    case True
    then obtain e where e: "e \<in> set ?r" "fst e = t" by auto
    then have ne: "?r \<noteq> []" by (metis empty_iff list.set(1))
    then obtain x xs where r: "?r = x # xs" by (cases ?r) auto
    then have "fst (hd ?r) \<le> fst e" using e(1) srt sorted_fst [of x xs e] by (cases "e = x") simp_all
    then show ?thesis using run True ne e(2) by (simp add: assertC_def)
  next
    case False
    then have "?r = filter (\<lambda>e. t < fst e) (tq_timers q)" by (intro filter_cong) (auto simp: order.order_iff_strict)
    moreover have "?r = [] \<or> t < fst (hd ?r)"
      using False hd_in_set [of ?r] by (auto simp: order.order_iff_strict image_iff)
    ultimately show ?thesis using run False by simp
  qed
qed

subsection \<open>Properties\<close>

text \<open>C27. Collecting the due timers. With a valid queue, \<open>getDueTasks\<close> removes exactly the timers
  whose time lies strictly in the past and returns them in the order of their times. A timer due at
  exactly the present instant is not taken: the sentry's null pointer orders before it, and the
  assertion after the search fails.\<close>

theorem getDueTasks_takes_past_aborts_on_now:
  assumes "tq_inv q" "tid = tq_thread q"
  shows "getDueTasks tid t q = (if t \<in> fst ` set (tq_timers q) then Inl Assertion
      else Inr (filter (\<lambda>e. fst e < t) (tq_timers q), q\<lparr>tq_timers := filter (\<lambda>e. t < fst e) (tq_timers q)\<rparr>)) \<and>
    sorted (map fst (filter (\<lambda>e. fst e < t) (tq_timers q)))"
proof -
  have "sorted_wrt (\<le>) (map fst (tq_timers q))"
    using assms(1) by (auto simp: tq_inv_def sorted_wrt_map less_prod_def elim!: sorted_wrt_mono_rel [rotated])
  then show ?thesis
    using getDueTasks_split [OF assms] by (simp add: sorted_filter)
qed

definition demo_queue :: "timer_entry list \<Rightarrow> int \<Rightarrow> (nat, int \<times> (int \<times> int) list) timer_queue" where
  "demo_queue es n = \<lparr>tq_timers = es,
     tq_heap = (\<lambda>p. \<lparr>tm_callback = p, tm_interval = 1, execute_count = n, expiration = 10 ^ 9\<rparr>),
     tq_precision = LowPrecision, tq_thread = 7, tq_world = (2 * 10 ^ 9, [])\<rparr>"

theorem getDueTasks_takes_past_aborts_on_now_witness:
  "getDueTasks 7 20 (demo_queue [(5, 3), (20, 4)] 1) = Inl Assertion \<and>
   (\<exists>q. getDueTasks 7 19 (demo_queue [(5, 3), (20, 4)] 1) = Inr ([(5, 3)], q) \<and> tq_timers q = [(20, 4)])"
proof -
  let ?q = "demo_queue [(5, 3), (20, 4)] 1"
  have q: "tq_inv ?q" "7 = tq_thread ?q" "tq_timers ?q = [(5, 3), (20, 4)]" by (simp_all add: demo_queue_def tq_inv_def)
  show ?thesis
    using getDueTasks_takes_past_aborts_on_now [OF q(1,2), of 20] getDueTasks_takes_past_aborts_on_now [OF q(1,2), of 19]
    by (simp add: q(3))
qed

lemma run_expired_forever:
  assumes "\<forall>e \<in> set es. execute_count (tq_heap q (snd e)) = FOREVER"
  shows "run_expired env es new q = Inr (new, q)"
  using assms by (induction es) (simp_all add: remain_count_def FOREVER_def)

text \<open>A timer that is to run for ever never runs. When the due timers have the count
  \<open>FOREVER\<close>, \<open>handlerRead\<close> skips them because the count is not positive: no callback is
  called, and they are gone from the queue afterwards.\<close>

theorem forever_timers_are_dropped:
  assumes "tq_inv q" "tid = tq_thread q" "te_now env (te_read env (tq_world q)) = (t, w)"
    and "t \<notin> fst ` set (tq_timers q)"
    and "\<forall>e \<in> set (tq_timers q). fst e < t \<longrightarrow> execute_count (tq_heap q (snd e)) = FOREVER"
  shows "handlerRead env tid fuel q =
    modifyTimerfd env tid fuel (q\<lparr>tq_world := w, tq_timers := filter (\<lambda>e. t < fst e) (tq_timers q)\<rparr>)"
proof -
  let ?q = "q\<lparr>tq_world := w\<rparr>"
  have "tq_inv ?q" "tid = tq_thread ?q" using assms(1,2) by (simp_all add: tq_inv_def)
  note due = getDueTasks_split [OF this, of t]
  have "run_expired env (filter (\<lambda>e. fst e < t) (tq_timers q)) [] (?q\<lparr>tq_timers := filter (\<lambda>e. t < fst e) (tq_timers q)\<rparr>) =
      Inr ([], ?q\<lparr>tq_timers := filter (\<lambda>e. t < fst e) (tq_timers q)\<rparr>)"
    by (rule run_expired_forever) (use assms(5) in auto)
  then show ?thesis
    using assms(2-4) due by (simp add: handlerRead_def ReadTimerfd_def now_def)
qed

definition demo_timer_env :: "(nat, int \<times> (int \<times> int) list) timer_env" where
  "demo_timer_env = \<lparr>te_now = (\<lambda>w. (fst w, w)), te_settime = (\<lambda>s n (t, xs). (0, (t, xs @ [(s, n)]))),
     te_read = (\<lambda>w. w), te_call = (\<lambda>cb q. Inr q)\<rparr>"

theorem forever_timers_are_dropped_witness:
  "\<exists>q. handlerRead demo_timer_env 7 1 (demo_queue [(10 ^ 9, 1)] FOREVER) = Inr q \<and> tq_timers q = []"
proof -
  let ?q = "demo_queue [(10 ^ 9, 1)] FOREVER"
  have "handlerRead demo_timer_env 7 1 ?q =
      modifyTimerfd demo_timer_env 7 1 (?q\<lparr>tq_world := (2 * 10 ^ 9, []), tq_timers := filter (\<lambda>e. 2 * 10 ^ 9 < fst e) (tq_timers ?q)\<rparr>)"
    by (rule forever_timers_are_dropped) (auto simp: demo_queue_def tq_inv_def demo_timer_env_def)
  then show ?thesis by (simp add: demo_queue_def)
qed

text \<open>The descriptor is armed with the whole interval of the earliest timer, counted from now. A timer
  inserted behind it therefore postpones it: it was due at its expiration, and the descriptor now
  fires by the time that has passed since it was made later.\<close>

theorem insert_postpones_first:
  assumes "tq_timers q = e # es" "tid = tq_thread q" "p \<noteq> 0"
    and "e < (expiration (tq_heap q p), p)" "(expiration (tq_heap q p), p) \<notin> set es" "sorted_wrt (<) es"
    and "te_settime env sec nsec (tq_world q) = (0, w)"
    and "settime_of (tq_precision q) (tq_heap q (snd e)) = (sec, nsec)"
    and "expiration (tq_heap q (snd e)) = ts_plus (tq_precision q) made (tm_interval (tq_heap q (snd e)))" "made < t"
  shows "\<exists>q'. insertInLoop env tid (Suc fuel) p q = Inr q' \<and> tq_world q' = w \<and> hd (tq_timers q') = e \<and>
    t + (sec * 10 ^ 9 + nsec) = expiration (tq_heap q (snd e)) + (t - made)"
proof -
  have "set_insert (expiration (tq_heap q p), p) (e # es) = (True, e # snd (set_insert (expiration (tq_heap q p), p) es))"
    using assms(4-6) set_insert_new by (auto simp: less_le_not_le)
  moreover have "sec * 10 ^ 9 + nsec = tm_interval (tq_heap q (snd e)) * period_ns (tq_precision q)"
    using assms(8) sdiv_mult_smod_eq [of _ "10 ^ 9 :: int"] by (auto simp: settime_of_def Let_def)
  ultimately show ?thesis
    using assms by (simp add: insertInLoop_def ts_plus_def)
qed

end
