(* ===== verification/Timer_Wheel.thy ===== *)
theory Timer_Wheel
  imports Timer_Queue
begin

text \<open>
  \<open>Net/include/TimerWheel.h\<close> and \<open>Net/src/TimerWheel.cpp\<close>: the timer wheel. A slot is the list of the
  nodes its linked list holds, front first. Nodes have an identity, because \<open>tick\<close> walks along the
  \<open>next\<close> pointers while callbacks insert new nodes at the front of the lists.
\<close>

record wheel_node =
  nd_id :: nat
  nd_timer :: nat
  nd_rotation :: int

record ('cb, 'w) timer_wheel =
  wh_maxSlots :: int
  wh_SI :: int
  wh_cur :: int
  wh_slots :: "wheel_node list list"
  wh_fresh :: nat
  wh_heap :: "nat \<Rightarrow> 'cb timer"
  wh_thread :: nat
  wh_submitted :: "(int \<times> wheel_node) list"
  wh_world :: 'w

record ('cb, 'w) wheel_env =
  we_now :: "'w \<Rightarrow> time_stamp \<times> 'w"
  we_read :: "'w \<Rightarrow> 'w"
  we_settime :: "int \<Rightarrow> int \<Rightarrow> 'w \<Rightarrow> 'w"
  we_call :: "'cb \<Rightarrow> ('cb, 'w) timer_wheel \<Rightarrow> ('cb, 'w) timer_wheel outcome"

text \<open>The constructor arms the descriptor: first after one second, then every \<open>SI\<close> seconds.\<close>

definition wheel_new :: "('cb, 'w) wheel_env \<Rightarrow> nat \<Rightarrow> (nat \<Rightarrow> 'cb timer) \<Rightarrow> int \<Rightarrow> int \<Rightarrow> 'w \<Rightarrow> ('cb, 'w) timer_wheel" where
  "wheel_new env tid heap maxSlots SI w = \<lparr>wh_maxSlots = maxSlots, wh_SI = SI, wh_cur = 0,
     wh_slots = replicate (nat maxSlots) [], wh_fresh = 0, wh_heap = heap, wh_thread = tid, wh_submitted = [],
     wh_world = we_settime env 1 SI w\<rparr>"

definition wheel_execute :: "('cb, 'w) wheel_env \<Rightarrow> nat \<Rightarrow> ('cb, 'w) timer_wheel \<Rightarrow> ('cb, 'w) timer_wheel outcome" where
  "wheel_execute env p w =
     assertC (execute_count (wh_heap w p) \<noteq> 0)
       (let w = (if execute_count (wh_heap w p) \<noteq> FOREVER
                 then w\<lparr>wh_heap := (wh_heap w)(p := (wh_heap w p)\<lparr>execute_count := execute_count (wh_heap w p) - 1\<rparr>)\<rparr> else w) in
        obind (we_call env (tm_callback (wh_heap w p)) w) (\<lambda>w.
        let (t, x) = we_now env (wh_world w) in
        Inr (w\<lparr>wh_world := x, wh_heap := (wh_heap w)(p := (wh_heap w p)
          \<lparr>expiration := ts_plus LowPrecision t (tm_interval (wh_heap w p))\<rparr>)\<rparr>)))"

text \<open>The closure \<open>insert\<close> submits: the node becomes the front of its slot.\<close>

definition place_node :: "int \<Rightarrow> wheel_node \<Rightarrow> ('cb, 'w) timer_wheel \<Rightarrow> ('cb, 'w) timer_wheel outcome" where
  "place_node ts n w =
     (if 0 \<le> ts \<and> nat ts < length (wh_slots w)
      then Inr (w\<lparr>wh_slots := (wh_slots w)[nat ts := n # wh_slots w ! nat ts]\<rparr>) else Inl Out_of_bounds)"

definition wheel_ticks :: "int \<Rightarrow> int \<Rightarrow> int outcome" where
  "wheel_ticks timeout SI =
     (if timeout < SI then Inr 1 else if SI = 0 then Inl Div_by_zero else Inr (timeout sdiv SI))"

definition wheel_insert :: "nat \<Rightarrow> nat \<Rightarrow> ('cb, 'w) timer_wheel \<Rightarrow> ('cb, 'w) timer_wheel outcome" where
  "wheel_insert tid p w =
     assertC (p \<noteq> 0)
       (obind (wheel_ticks (to_int32 (tm_interval (wh_heap w p))) (wh_SI w)) (\<lambda>ticks.
        if wh_maxSlots w = 0 then Inl Div_by_zero
        else let rotation = ticks sdiv wh_maxSlots w;
                 ts = (wh_cur w + ticks smod wh_maxSlots w) smod wh_maxSlots w;
                 n = \<lparr>nd_id = wh_fresh w, nd_timer = p, nd_rotation = rotation\<rparr>;
                 w = w\<lparr>wh_fresh := Suc (wh_fresh w)\<rparr>
             in if tid = wh_thread w then place_node ts n w
                else Inr (w\<lparr>wh_submitted := wh_submitted w @ [(ts, n)]\<rparr>)))"

text \<open>The loop runs the submitted insertions.\<close>

definition wheel_run_submitted :: "('cb, 'w) timer_wheel \<Rightarrow> ('cb, 'w) timer_wheel outcome" where
  "wheel_run_submitted w =
     ofold (\<lambda>(ts, n). place_node ts n) (wh_submitted w) (w\<lparr>wh_submitted := []\<rparr>)"

definition wheel_insert_new ::
  "('cb, 'w) wheel_env \<Rightarrow> nat \<Rightarrow> nat \<Rightarrow> 'cb \<Rightarrow> time_interval \<Rightarrow> int \<Rightarrow> ('cb, 'w) timer_wheel \<Rightarrow> ('cb, 'w) timer_wheel outcome" where
  "wheel_insert_new env tid p cb interval n w =
     (let (t, x) = we_now env (wh_world w) in
      obind (timer_new LowPrecision cb interval n t) (\<lambda>tm.
      wheel_insert tid p (w\<lparr>wh_world := x, wh_heap := (wh_heap w)(p := tm)\<rparr>)))"

definition on_cur :: "(wheel_node list \<Rightarrow> wheel_node list) \<Rightarrow> ('cb, 'w) timer_wheel \<Rightarrow> ('cb, 'w) timer_wheel" where
  "on_cur f w = w\<lparr>wh_slots := (wh_slots w)[nat (wh_cur w) := f (wh_slots w ! nat (wh_cur w))]\<rparr>"

definition dec_node :: "nat \<Rightarrow> wheel_node list \<Rightarrow> wheel_node list" where
  "dec_node i = map (\<lambda>n. if nd_id n = i then n\<lparr>nd_rotation := nd_rotation n - 1\<rparr> else n)"

definition unlink_node :: "nat \<Rightarrow> wheel_node list \<Rightarrow> wheel_node list" where
  "unlink_node i = filter (\<lambda>n. nd_id n \<noteq> i)"

text \<open>The walk along a slot, node by node. A node inserted meanwhile goes to the front of its slot, so
  it is not met by the walk.\<close>

fun wheel_walk :: "('cb, 'w) wheel_env \<Rightarrow> nat \<Rightarrow> wheel_node list \<Rightarrow> ('cb, 'w) timer_wheel \<Rightarrow> ('cb, 'w) timer_wheel outcome" where
  "wheel_walk env tid [] w = Inr w"
| "wheel_walk env tid (n # ns) w =
     (if nd_rotation n > 0 then wheel_walk env tid ns (on_cur (dec_node (nd_id n)) w)
      else assertC (nd_timer n \<noteq> 0)
        (obind (wheel_execute env (nd_timer n) w) (\<lambda>w.
         obind (if remain_count (wh_heap w (nd_timer n)) > 0 then wheel_insert tid (nd_timer n) w else Inr w) (\<lambda>w.
         wheel_walk env tid ns (on_cur (unlink_node (nd_id n)) w)))))"

definition tick :: "('cb, 'w) wheel_env \<Rightarrow> nat \<Rightarrow> ('cb, 'w) timer_wheel \<Rightarrow> ('cb, 'w) timer_wheel outcome" where
  "tick env tid w =
     (let w = w\<lparr>wh_world := we_read env (wh_world w)\<rparr> in
      if 0 \<le> wh_cur w \<and> nat (wh_cur w) < length (wh_slots w)
      then obind (wheel_walk env tid (wh_slots w ! nat (wh_cur w)) w) (\<lambda>w.
           Inr (w\<lparr>wh_cur := (wh_cur w + 1) smod wh_maxSlots w\<rparr>))
      else Inl Out_of_bounds)"

subsection \<open>What a tick does\<close>

definition wheel_inv :: "('cb, 'w) timer_wheel \<Rightarrow> bool" where
  "wheel_inv w \<longleftrightarrow> 0 < wh_SI w \<and> 0 < wh_maxSlots w \<and> int (length (wh_slots w)) = wh_maxSlots w \<and>
     0 \<le> wh_cur w \<and> wh_cur w < wh_maxSlots w"

text \<open>Callbacks that keep to their own part of the state, and a clock that only tells the time.\<close>

definition calm_wheel :: "('cb, 'w) wheel_env \<Rightarrow> ('cb \<Rightarrow> 'w \<Rightarrow> 'w) \<Rightarrow> bool" where
  "calm_wheel env act \<longleftrightarrow> (\<forall>cb w. we_call env cb w = Inr (w\<lparr>wh_world := act cb (wh_world w)\<rparr>)) \<and>
     (\<forall>x. snd (we_now env x) = x)"

lemma smod_pos: "0 \<le> (a::int) \<Longrightarrow> 0 < b \<Longrightarrow> a smod b = a mod b" "0 \<le> (a::int) \<Longrightarrow> 0 < b \<Longrightarrow> a sdiv b = a div b"
  by (cases "a = 0"; simp add: signed_modulo_int_def signed_divide_int_def)+

text \<open>The number of ticks an insertion asks for, and where the node goes.\<close>

definition ticks_of :: "('cb, 'w) timer_wheel \<Rightarrow> nat \<Rightarrow> int" where
  "ticks_of w p = (let t = to_int32 (tm_interval (wh_heap w p)) in if t < wh_SI w then 1 else t div wh_SI w)"

lemma ticks_of_pos: "0 < wh_SI w \<Longrightarrow> 0 < ticks_of w p"
  by (auto simp: ticks_of_def Let_def pos_imp_zdiv_pos_iff)

lemma wheel_insert_ok:
  assumes "wheel_inv w" "tid = wh_thread w" "p \<noteq> 0"
  shows "\<exists>w'. wheel_insert tid p w = Inr w' \<and>
    (let t = ticks_of w p; N = wh_maxSlots w; i = nat ((wh_cur w + t) mod N);
         n = \<lparr>nd_id = wh_fresh w, nd_timer = p, nd_rotation = t div N\<rparr>
     in w' = w\<lparr>wh_fresh := Suc (wh_fresh w), wh_slots := (wh_slots w)[i := n # wh_slots w ! i]\<rparr> \<and> i < length (wh_slots w))"
proof -
  let ?t = "ticks_of w p" and ?N = "wh_maxSlots w"
  have N: "0 < ?N" "0 \<le> wh_cur w" "int (length (wh_slots w)) = ?N" and SI: "0 < wh_SI w"
    using assms(1) by (simp_all add: wheel_inv_def)
  have t: "0 < ?t" using ticks_of_pos [OF SI] by simp
  have tk: "wheel_ticks (to_int32 (tm_interval (wh_heap w p))) (wh_SI w) = Inr ?t"
    using SI by (auto simp: wheel_ticks_def ticks_of_def Let_def smod_pos)
  have ts: "(wh_cur w + ?t smod ?N) smod ?N = (wh_cur w + ?t) mod ?N"
    using N t by (simp add: smod_pos mod_add_right_eq)
  have lt: "nat ((wh_cur w + ?t) mod ?N) < length (wh_slots w)"
    using N pos_mod_bound [of ?N "wh_cur w + ?t"] pos_mod_sign [of ?N "wh_cur w + ?t"] by linarith
  show ?thesis
    using assms(2,3) tk ts lt N t
    by (simp add: wheel_insert_def place_node_def Let_def smod_pos(2))
qed

text \<open>Running a timer changes its count and expiration only.\<close>

definition same_timers :: "(nat \<Rightarrow> 'cb timer) \<Rightarrow> (nat \<Rightarrow> 'cb timer) \<Rightarrow> bool" where
  "same_timers h h' \<longleftrightarrow> (\<forall>p. tm_callback (h' p) = tm_callback (h p) \<and> tm_interval (h' p) = tm_interval (h p))"

lemma wheel_execute_ok:
  assumes "calm_wheel env act" "execute_count (wh_heap w p) \<noteq> 0"
  shows "\<exists>h. wheel_execute env p w = Inr (w\<lparr>wh_heap := h, wh_world := act (tm_callback (wh_heap w p)) (wh_world w)\<rparr>) \<and>
    same_timers (wh_heap w) h \<and> (\<forall>q. q \<noteq> p \<longrightarrow> h q = wh_heap w q)"
proof -
  have n: "we_now env x = (fst (we_now env x), x)" for x using assms(1) by (metis calm_wheel_def prod.collapse)
  let ?w = "if execute_count (wh_heap w p) \<noteq> FOREVER
    then w\<lparr>wh_heap := (wh_heap w)(p := (wh_heap w p)\<lparr>execute_count := execute_count (wh_heap w p) - 1\<rparr>)\<rparr> else w"
  let ?x = "act (tm_callback (wh_heap w p)) (wh_world w)"
  let ?h = "(wh_heap ?w)(p := (wh_heap ?w p)\<lparr>expiration := ts_plus LowPrecision (fst (we_now env ?x)) (tm_interval (wh_heap ?w p))\<rparr>)"
  have "wheel_execute env p w = Inr (w\<lparr>wh_heap := ?h, wh_world := ?x\<rparr>)"
    using assms n [of ?x] by (auto simp: wheel_execute_def calm_wheel_def Let_def case_prod_unfold)
  moreover have "same_timers (wh_heap w) ?h" "\<forall>q. q \<noteq> p \<longrightarrow> ?h q = wh_heap w q" by (simp_all add: same_timers_def)
  ultimately show ?thesis by blast
qed

definition old :: "nat \<Rightarrow> wheel_node list \<Rightarrow> wheel_node list" where
  "old F = filter (\<lambda>n. nd_id n < F)"

text \<open>What the walk over the nodes \<open>ns\<close> leaves of a node.\<close>

definition survivor :: "wheel_node list \<Rightarrow> wheel_node \<Rightarrow> wheel_node list" where
  "survivor ns m = (if nd_id m \<notin> nd_id ` set ns then [m]
     else if \<exists>n \<in> set ns. nd_id n = nd_id m \<and> nd_rotation n > 0 then [m\<lparr>nd_rotation := nd_rotation m - 1\<rparr>] else [])"

lemma old_dec: "old F (dec_node i xs) = concat (map (\<lambda>m. if nd_id m = i then [m\<lparr>nd_rotation := nd_rotation m - 1\<rparr>] else [m]) (old F xs))"
  by (induction xs) (auto simp: old_def dec_node_def)

lemma old_unlink: "old F (unlink_node i xs) = concat (map (\<lambda>m. if nd_id m = i then [] else [m]) (old F xs))"
  by (induction xs) (auto simp: old_def unlink_node_def)

lemma survivor_Cons:
  assumes "nd_id n \<notin> nd_id ` set ns"
  shows "concat (map (survivor ns) (concat (map (\<lambda>m. if nd_id m = nd_id n
      then (if nd_rotation n > 0 then [m\<lparr>nd_rotation := nd_rotation m - 1\<rparr>] else []) else [m]) xs))) =
    concat (map (survivor (n # ns)) xs)"
proof (induction xs)
  case (Cons x xs)
  have "concat (map (survivor ns) (if nd_id x = nd_id n
      then (if nd_rotation n > 0 then [x\<lparr>nd_rotation := nd_rotation x - 1\<rparr>] else []) else [x])) = survivor (n # ns) x"
    using assms by (auto simp: survivor_def image_iff)
  with Cons show ?case by simp
qed simp

lemma old_other: "k < length xss \<Longrightarrow> \<not> nd_id n < F \<Longrightarrow> old F (xss[i := n # xss ! i] ! k) = old F (xss ! k)"
  by (cases "i = k") (simp_all add: old_def)

lemma same_timers_trans: "same_timers a b \<Longrightarrow> same_timers b c \<Longrightarrow> same_timers a c"
  by (simp add: same_timers_def)

text \<open>The part of the wheel that a walk leaves alone.\<close>

definition same_shape :: "('cb, 'w) timer_wheel \<Rightarrow> ('cb, 'w) timer_wheel \<Rightarrow> bool" where
  "same_shape w w' \<longleftrightarrow> wh_maxSlots w' = wh_maxSlots w \<and> wh_SI w' = wh_SI w \<and> wh_cur w' = wh_cur w \<and>
     wh_thread w' = wh_thread w \<and> length (wh_slots w') = length (wh_slots w) \<and> wh_fresh w \<le> wh_fresh w'"

lemma same_shape_trans: "same_shape a b \<Longrightarrow> same_shape b c \<Longrightarrow> same_shape a c"
  by (simp add: same_shape_def)

lemma same_shape_inv: "wheel_inv w \<Longrightarrow> same_shape w w' \<Longrightarrow> wheel_inv w'"
  by (simp add: wheel_inv_def same_shape_def)

text \<open>One node of the walk.\<close>

lemma fire_step:
  assumes "wheel_inv w" "tid = wh_thread w" "calm_wheel env act" "F \<le> wh_fresh w"
    and "nd_timer n \<noteq> 0" "execute_count (wh_heap w (nd_timer n)) \<noteq> 0"
  shows "\<exists>w'. obind (wheel_execute env (nd_timer n) w) (\<lambda>w.
      if remain_count (wh_heap w (nd_timer n)) > 0 then wheel_insert tid (nd_timer n) w else Inr w) = Inr w' \<and>
    same_shape w w' \<and> same_timers (wh_heap w) (wh_heap w') \<and>
    (\<forall>q. q \<noteq> nd_timer n \<longrightarrow> wh_heap w' q = wh_heap w q) \<and>
    (\<forall>k < length (wh_slots w). old F (wh_slots w' ! k) = old F (wh_slots w ! k)) \<and>
    wh_world w' = act (tm_callback (wh_heap w (nd_timer n))) (wh_world w)"
proof -
  obtain h where h: "wheel_execute env (nd_timer n) w = Inr (w\<lparr>wh_heap := h, wh_world := act (tm_callback (wh_heap w (nd_timer n))) (wh_world w)\<rparr>)"
    "same_timers (wh_heap w) h" "\<forall>q. q \<noteq> nd_timer n \<longrightarrow> h q = wh_heap w q"
    using wheel_execute_ok [OF assms(3,6)] by blast
  let ?w = "w\<lparr>wh_heap := h, wh_world := act (tm_callback (wh_heap w (nd_timer n))) (wh_world w)\<rparr>"
  have inv: "wheel_inv ?w" "tid = wh_thread ?w" using assms(1,2) by (simp_all add: wheel_inv_def)
  obtain w' where w': "wheel_insert tid (nd_timer n) ?w = Inr w'"
    "let t = ticks_of ?w (nd_timer n); N = wh_maxSlots ?w; i = nat ((wh_cur ?w + t) mod N);
         m = \<lparr>nd_id = wh_fresh ?w, nd_timer = nd_timer n, nd_rotation = t div N\<rparr>
     in w' = ?w\<lparr>wh_fresh := Suc (wh_fresh ?w), wh_slots := (wh_slots ?w)[i := m # wh_slots ?w ! i]\<rparr> \<and> i < length (wh_slots ?w)"
    using wheel_insert_ok [OF inv assms(5)] by blast
  show ?thesis
  proof (cases "remain_count (h (nd_timer n)) > 0")
    case True
    then show ?thesis using h w' assms(4) by (auto simp: same_shape_def Let_def old_other)
  next
    case False
    then show ?thesis using h by (auto simp: same_shape_def)
  qed
qed

definition firing :: "wheel_node list \<Rightarrow> wheel_node list" where
  "firing ns = filter (\<lambda>n. nd_rotation n \<le> 0) ns"

lemma old_on_cur:
  "wheel_inv w \<Longrightarrow> k < length (wh_slots w) \<Longrightarrow>
   old F (wh_slots (on_cur f w) ! k) = (if k = nat (wh_cur w) then old F (f (wh_slots w ! k)) else old F (wh_slots w ! k))"
  by (auto simp: on_cur_def)

lemma on_cur_same [simp]:
  "same_shape w (on_cur f w)" "wh_heap (on_cur f w) = wh_heap w" "wh_world (on_cur f w) = wh_world w"
  by (auto simp: on_cur_def same_shape_def)

text \<open>What the walk over one node does to a node of the slot.\<close>

definition walk_one :: "wheel_node \<Rightarrow> wheel_node \<Rightarrow> wheel_node list" where
  "walk_one n m = (if nd_id m = nd_id n
     then (if nd_rotation n > 0 then [m\<lparr>nd_rotation := nd_rotation m - 1\<rparr>] else []) else [m])"

lemma wheel_walk_step:
  assumes prems: "wheel_inv w" "tid = wh_thread w" "calm_wheel env act" "F \<le> wh_fresh w"
    "distinct (map nd_id (n # ns))" "distinct (map nd_timer (firing (n # ns)))"
    "\<forall>n \<in> set (firing (n # ns)). nd_timer n \<noteq> 0 \<and> execute_count (wh_heap w (nd_timer n)) \<noteq> 0"
  shows "\<exists>w1. wheel_walk env tid (n # ns) w = wheel_walk env tid ns w1 \<and> same_shape w w1 \<and>
      same_timers (wh_heap w) (wh_heap w1) \<and>
      (\<forall>m \<in> set (firing ns). wh_heap w1 (nd_timer m) = wh_heap w (nd_timer m)) \<and>
      (\<forall>k < length (wh_slots w). old F (wh_slots w1 ! k) =
        (if k = nat (wh_cur w) then concat (map (walk_one n) (old F (wh_slots w ! k))) else old F (wh_slots w ! k))) \<and>
      wh_world w1 = (if nd_rotation n > 0 then wh_world w else act (tm_callback (wh_heap w (nd_timer n))) (wh_world w))"
proof (cases "nd_rotation n > 0")
  case True
  let ?w = "on_cur (dec_node (nd_id n)) w"
  have "wheel_walk env tid (n # ns) w = wheel_walk env tid ns ?w" using True by simp
  moreover have "walk_one n = (\<lambda>m. if nd_id m = nd_id n then [m\<lparr>nd_rotation := nd_rotation m - 1\<rparr>] else [m])"
    using True by (auto simp: walk_one_def fun_eq_iff)
  ultimately show ?thesis
    using True by (intro exI [of _ ?w]) (simp add: old_dec old_on_cur [OF prems(1)] same_timers_def)
next
  case False
  then have fn: "n \<in> set (firing (n # ns))" by (simp add: firing_def)
  obtain w1 where w1: "obind (wheel_execute env (nd_timer n) w) (\<lambda>w.
      if remain_count (wh_heap w (nd_timer n)) > 0 then wheel_insert tid (nd_timer n) w else Inr w) = Inr w1"
    "same_shape w w1" "same_timers (wh_heap w) (wh_heap w1)" "\<forall>q. q \<noteq> nd_timer n \<longrightarrow> wh_heap w1 q = wh_heap w q"
    "\<forall>k < length (wh_slots w). old F (wh_slots w1 ! k) = old F (wh_slots w ! k)"
    "wh_world w1 = act (tm_callback (wh_heap w (nd_timer n))) (wh_world w)"
    using fire_step [OF prems(1-4), of n] prems(7) fn by blast
  have inv1: "wheel_inv w1" "length (wh_slots w1) = length (wh_slots w)" "wh_cur w1 = wh_cur w"
    using same_shape_inv [OF prems(1) w1(2)] w1(2) by (simp_all add: same_shape_def)
  let ?w = "on_cur (unlink_node (nd_id n)) w1"
  have "wheel_walk env tid (n # ns) w =
      obind (obind (wheel_execute env (nd_timer n) w) (\<lambda>w.
        if remain_count (wh_heap w (nd_timer n)) > 0 then wheel_insert tid (nd_timer n) w else Inr w))
        (\<lambda>w. wheel_walk env tid ns (on_cur (unlink_node (nd_id n)) w))"
    using False prems(7) fn by (simp add: obind_assoc)
  then have run: "wheel_walk env tid (n # ns) w = wheel_walk env tid ns ?w" using w1(1) by simp
  have other: "\<forall>m \<in> set (firing ns). nd_timer m \<noteq> nd_timer n" using prems(6) False by (force simp: firing_def image_iff)
  have "walk_one n = (\<lambda>m. if nd_id m = nd_id n then [] else [m])" using False by (auto simp: walk_one_def fun_eq_iff)
  then show ?thesis
    using run False w1(3-6) inv1 other same_shape_trans [OF w1(2) on_cur_same(1)]
    by (intro exI [of _ ?w]) (simp add: old_unlink old_on_cur [OF inv1(1)])
qed

lemma wheel_walk_ok:
  assumes "wheel_inv w" "tid = wh_thread w" "calm_wheel env act" "F \<le> wh_fresh w"
    and "distinct (map nd_id ns)" "distinct (map nd_timer (firing ns))"
    and "\<forall>n \<in> set (firing ns). nd_timer n \<noteq> 0 \<and> execute_count (wh_heap w (nd_timer n)) \<noteq> 0"
  shows "\<exists>w'. wheel_walk env tid ns w = Inr w' \<and> same_shape w w' \<and> same_timers (wh_heap w) (wh_heap w') \<and>
    (\<forall>k < length (wh_slots w). old F (wh_slots w' ! k) =
       (if k = nat (wh_cur w) then concat (map (survivor ns) (old F (wh_slots w ! k))) else old F (wh_slots w ! k))) \<and>
    wh_world w' = fold (\<lambda>n. act (tm_callback (wh_heap w (nd_timer n)))) (firing ns) (wh_world w)"
  using assms
proof (induction ns arbitrary: w)
  case Nil
  have "concat (map (survivor []) xs) = xs" for xs by (induction xs) (simp_all add: survivor_def)
  then show ?case by (simp add: same_shape_def same_timers_def firing_def)
next
  case (Cons n ns)
  note prems = Cons.prems
  have nid: "nd_id n \<notin> nd_id ` set ns" "distinct (map nd_id ns)" using prems(5) by auto
  obtain w1 where run: "wheel_walk env tid (n # ns) w = wheel_walk env tid ns w1"
    and sh: "same_shape w w1" and tm: "same_timers (wh_heap w) (wh_heap w1)"
    and hp: "\<forall>m \<in> set (firing ns). wh_heap w1 (nd_timer m) = wh_heap w (nd_timer m)"
    and ol: "\<And>k. k < length (wh_slots w) \<Longrightarrow> old F (wh_slots w1 ! k) =
        (if k = nat (wh_cur w) then concat (map (walk_one n) (old F (wh_slots w ! k))) else old F (wh_slots w ! k))"
    and wd: "wh_world w1 = (if nd_rotation n > 0 then wh_world w else act (tm_callback (wh_heap w (nd_timer n))) (wh_world w))"
    using wheel_walk_step [OF prems] by blast
  have eq: "length (wh_slots w1) = length (wh_slots w)" "wh_cur w1 = wh_cur w" "wh_thread w1 = wh_thread w" "wh_fresh w \<le> wh_fresh w1"
    using sh by (simp_all add: same_shape_def)
  have pre: "tid = wh_thread w1" "F \<le> wh_fresh w1" "distinct (map nd_timer (firing ns))"
    "\<forall>n \<in> set (firing ns). nd_timer n \<noteq> 0 \<and> execute_count (wh_heap w1 (nd_timer n)) \<noteq> 0"
    using prems(2,4,6,7) eq hp by (auto simp: firing_def split: if_splits)
  obtain w' where w': "wheel_walk env tid ns w1 = Inr w'" "same_shape w1 w'" "same_timers (wh_heap w1) (wh_heap w')"
    "\<forall>k < length (wh_slots w1). old F (wh_slots w' ! k) =
       (if k = nat (wh_cur w1) then concat (map (survivor ns) (old F (wh_slots w1 ! k))) else old F (wh_slots w1 ! k))"
    "wh_world w' = fold (\<lambda>n. act (tm_callback (wh_heap w1 (nd_timer n)))) (firing ns) (wh_world w1)"
    using Cons.IH [OF same_shape_inv [OF prems(1) sh] pre(1) prems(3) pre(2) nid(2) pre(3,4)] by blast
  have "concat (map (survivor ns) (concat (map (walk_one n) xs))) = concat (map (survivor (n # ns)) xs)" for xs
    using survivor_Cons [OF nid(1), of xs] by (simp add: walk_one_def [abs_def])
  moreover have "fold (\<lambda>n. act (tm_callback (wh_heap w1 (nd_timer n)))) (firing ns) x =
      fold (\<lambda>n. act (tm_callback (wh_heap w (nd_timer n)))) (firing ns) x" for x
    using tm by (simp add: same_timers_def)
  ultimately show ?case
    using run w' ol wd eq same_shape_trans [OF sh w'(2)] same_timers_trans [OF tm w'(3)]
    by (auto simp: firing_def)
qed

subsection \<open>Properties\<close>

text \<open>The number of ticks until a node of slot \<open>i\<close> fires.\<close>

definition due_in :: "('cb, 'w) timer_wheel \<Rightarrow> nat \<Rightarrow> wheel_node \<Rightarrow> int" where
  "due_in w i n = (int i - wh_cur w) mod wh_maxSlots w + nd_rotation n * wh_maxSlots w + 1"

definition nodes_ok :: "('cb, 'w) timer_wheel \<Rightarrow> bool" where
  "nodes_ok w \<longleftrightarrow> (\<forall>i < length (wh_slots w). distinct (map nd_id (wh_slots w ! i)) \<and>
     (\<forall>n \<in> set (wh_slots w ! i). nd_id n < wh_fresh w \<and> 0 \<le> nd_rotation n)) \<and>
   (let ns = firing (wh_slots w ! nat (wh_cur w)) in distinct (map nd_timer ns) \<and>
     (\<forall>n \<in> set ns. nd_timer n \<noteq> 0 \<and> execute_count (wh_heap w (nd_timer n)) \<noteq> 0))"

lemma mod_next:
  fixes i c N :: int
  assumes "0 \<le> i" "i < N" "0 \<le> c" "c < N"
  shows "(i - (c + 1) mod N) mod N = (if i = c then N - 1 else (i - c) mod N - 1)"
proof -
  have "(i - (c + 1) mod N) mod N = (i - c - 1) mod N" by (simp add: mod_diff_right_eq diff_diff_eq)
  also have "\<dots> = (if i = c then N - 1 else (i - c) mod N - 1)"
  proof (cases "c < i")
    case True
    then have "(i - c - 1) mod N = i - c - 1" "(i - c) mod N = i - c" using assms by (simp_all add: mod_pos_pos_trivial)
    then show ?thesis using True by simp
  next
    case False
    have "(i - c - 1) mod N = (i - c - 1 + N) mod N" by simp
    also have "\<dots> = i - c - 1 + N" using False assms by (intro mod_pos_pos_trivial) simp_all
    finally have 1: "(i - c - 1) mod N = i - c - 1 + N" .
    have "(i - c) mod N = i - c + N" if "i \<noteq> c"
    proof -
      have "(i - c) mod N = (i - c + N) mod N" by simp
      also have "\<dots> = i - c + N" using False that assms by (intro mod_pos_pos_trivial) simp_all
      finally show ?thesis .
    qed
    then show ?thesis using 1 by simp
  qed
  finally show ?thesis .
qed

lemma old_all: "(\<forall>n \<in> set xs. nd_id n < F) \<Longrightarrow> old F xs = xs"
  by (simp add: old_def)

lemma survivors_self:
  assumes "distinct (map nd_id xs)"
  shows "m \<in> set (concat (map (survivor xs) xs)) \<longleftrightarrow>
    (\<exists>n \<in> set xs. nd_rotation n > 0 \<and> m = n\<lparr>nd_rotation := nd_rotation n - 1\<rparr>)"
proof -
  have same: "a = b" if "a \<in> set xs" "b \<in> set xs" "nd_id a = nd_id b" for a b
    using assms that by (simp add: distinct_map inj_on_def)
  have "survivor xs n = (if nd_rotation n > 0 then [n\<lparr>nd_rotation := nd_rotation n - 1\<rparr>] else [])" if "n \<in> set xs" for n
    using same that by (auto simp: survivor_def)
  then show ?thesis by (auto split: if_splits)
qed

lemma nodes_okD:
  assumes "nodes_ok w" "i < length (wh_slots w)"
  shows "distinct (map nd_id (wh_slots w ! i))"
    "n \<in> set (wh_slots w ! i) \<Longrightarrow> nd_id n < wh_fresh w \<and> 0 \<le> nd_rotation n"
  using assms by (auto simp: nodes_ok_def)

lemma due_one_iff:
  assumes "wheel_inv w" "nodes_ok w" "i < length (wh_slots w)" "n \<in> set (wh_slots w ! i)"
  shows "due_in w i n = 1 \<longleftrightarrow> i = nat (wh_cur w) \<and> nd_rotation n = 0"
proof -
  let ?N = "wh_maxSlots w"
  have N: "0 < ?N" "int (length (wh_slots w)) = ?N" "0 \<le> wh_cur w" "wh_cur w < ?N" using assms(1) by (auto simp: wheel_inv_def)
  have r: "0 \<le> nd_rotation n" and i: "int i < ?N" using nodes_okD(2) [OF assms(2-4)] assms(3) N by auto
  have m: "0 \<le> (int i - wh_cur w) mod ?N" "0 \<le> nd_rotation n * ?N" using N r by simp_all
  have z: "(int i - wh_cur w) mod ?N = 0 \<longleftrightarrow> i = nat (wh_cur w)"
  proof
    assume "(int i - wh_cur w) mod ?N = 0"
    then have "?N dvd \<bar>int i - wh_cur w\<bar>" by (simp add: mod_eq_0_iff_dvd)
    moreover have "\<bar>int i - wh_cur w\<bar> < ?N" using N i by linarith
    ultimately have "\<bar>int i - wh_cur w\<bar> = 0" using zdvd_not_zless [of "\<bar>int i - wh_cur w\<bar>" ?N] by linarith
    then show "i = nat (wh_cur w)" by simp
  qed (use N in simp)
  show ?thesis using m z N by (auto simp: due_in_def add_nonneg_eq_0_iff)
qed

text \<open>What a tick does to one node, given what it does to the node's slot.\<close>

definition counted :: "('c, 'x) timer_wheel \<Rightarrow> ('c, 'x) timer_wheel \<Rightarrow> nat \<Rightarrow> wheel_node \<Rightarrow> bool" where
  "counted w w' i n \<longleftrightarrow>
     (if due_in w i n = 1 then \<forall>m \<in> set (wh_slots w' ! i). nd_id m \<noteq> nd_id n
      else \<exists>m \<in> set (wh_slots w' ! i). nd_id m = nd_id n \<and> nd_timer m = nd_timer n \<and> due_in w' i m = due_in w i n - 1)"

lemma due_in_next:
  assumes "wheel_inv w" "i < length (wh_slots w)" "wh_maxSlots w' = wh_maxSlots w" "wh_cur w' = (wh_cur w + 1) mod wh_maxSlots w"
  shows "(int i - wh_cur w') mod wh_maxSlots w' =
    (if i = nat (wh_cur w) then wh_maxSlots w - 1 else (int i - wh_cur w) mod wh_maxSlots w - 1)"
  using mod_next [of "int i" "wh_maxSlots w" "wh_cur w"] assms by (auto simp: wheel_inv_def)

lemma counted_current:
  assumes w: "wheel_inv w" "nodes_ok w" and i: "i < length (wh_slots w)" "i = nat (wh_cur w)" and n: "n \<in> set (wh_slots w ! i)"
    and shift: "wh_maxSlots w' = wh_maxSlots w" "wh_cur w' = (wh_cur w + 1) mod wh_maxSlots w"
    and slots: "old (wh_fresh w) (wh_slots w' ! i) = concat (map (survivor (wh_slots w ! i)) (wh_slots w ! i))"
  shows "counted w w' i n"
proof -
  note ok = nodes_okD [OF w(2) i(1)] and due = due_one_iff [OF w i(1) n]
  have mem: "m \<in> set (wh_slots w' ! i) \<and> nd_id m < wh_fresh w \<longleftrightarrow>
      (\<exists>n \<in> set (wh_slots w ! i). nd_rotation n > 0 \<and> m = n\<lparr>nd_rotation := nd_rotation n - 1\<rparr>)" for m
    using slots survivors_self [OF ok(1), of m] by (metis (mono_tags, lifting) mem_Collect_eq old_def set_filter)
  show ?thesis
  proof (cases "nd_rotation n = 0")
    case True
    have "nd_id m \<noteq> nd_id n" if m: "m \<in> set (wh_slots w' ! i)" for m
    proof
      assume same: "nd_id m = nd_id n"
      then obtain n' where n': "n' \<in> set (wh_slots w ! i)" "nd_rotation n' > 0" "nd_id m = nd_id n'"
        using mem [of m] m ok(2) [OF n] by auto
      then have "n' = n" using ok(1) n same by (simp add: distinct_map inj_on_def)
      with n'(2) True show False by simp
    qed
    then show ?thesis using due i(2) True by (simp add: counted_def)
  next
    case False
    let ?m = "n\<lparr>nd_rotation := nd_rotation n - 1\<rparr>"
    have "nd_rotation n > 0" using False ok(2) [OF n] by simp
    then have "?m \<in> set (wh_slots w' ! i)" using mem [of ?m] n by blast
    moreover have "due_in w' i ?m = due_in w i n - 1"
      using due_in_next [OF w(1) i(1) shift] i(2) w(1) shift(1) by (simp add: due_in_def wheel_inv_def algebra_simps)
    ultimately show ?thesis using due False by (auto simp: counted_def intro!: bexI [of _ ?m])
  qed
qed

lemma counted_other:
  assumes w: "wheel_inv w" "nodes_ok w" and i: "i < length (wh_slots w)" "i \<noteq> nat (wh_cur w)" and n: "n \<in> set (wh_slots w ! i)"
    and shift: "wh_maxSlots w' = wh_maxSlots w" "wh_cur w' = (wh_cur w + 1) mod wh_maxSlots w"
    and slots: "old (wh_fresh w) (wh_slots w' ! i) = wh_slots w ! i"
  shows "counted w w' i n"
proof -
  have "n \<in> set (old (wh_fresh w) (wh_slots w' ! i))" using n slots by simp
  then have "n \<in> set (wh_slots w' ! i)" by (simp add: old_def)
  moreover have "due_in w' i n = due_in w i n - 1"
    using due_in_next [OF w(1) i(1) shift] i(2) shift(1) by (simp add: due_in_def)
  ultimately show ?thesis using due_one_iff [OF w i(1) n] i(2) by (auto simp: counted_def)
qed

text \<open>C28. The wheel counts down. On every tick a node that is not due yet comes one tick closer, in the
  same slot; the nodes that are due, and only those, run their callbacks in slot order and leave
  the wheel.\<close>

theorem tick_counts_down:
  assumes "wheel_inv w" "nodes_ok w" "tid = wh_thread w" "calm_wheel env act"
  shows "\<exists>w'. tick env tid w = Inr w' \<and> wheel_inv w' \<and>
    wh_world w' = fold (\<lambda>n. act (tm_callback (wh_heap w (nd_timer n))))
      (filter (\<lambda>n. due_in w (nat (wh_cur w)) n = 1) (wh_slots w ! nat (wh_cur w))) (we_read env (wh_world w)) \<and>
    (\<forall>i < length (wh_slots w). \<forall>n \<in> set (wh_slots w ! i).
      if due_in w i n = 1 then \<forall>m \<in> set (wh_slots w' ! i). nd_id m \<noteq> nd_id n
      else \<exists>m \<in> set (wh_slots w' ! i). nd_id m = nd_id n \<and> nd_timer m = nd_timer n \<and> due_in w' i m = due_in w i n - 1)"
proof -
  let ?c = "nat (wh_cur w)" and ?F = "wh_fresh w" and ?w = "w\<lparr>wh_world := we_read env (wh_world w)\<rparr>"
  have N: "0 < wh_maxSlots w" "0 \<le> wh_cur w" and c: "?c < length (wh_slots w)" using assms(1) by (auto simp: wheel_inv_def)
  obtain w1 where w1: "wheel_walk env tid (wh_slots w ! ?c) ?w = Inr w1" "same_shape ?w w1"
    "\<forall>k < length (wh_slots w). old ?F (wh_slots w1 ! k) =
       (if k = ?c then concat (map (survivor (wh_slots w ! ?c)) (old ?F (wh_slots w ! k))) else old ?F (wh_slots w ! k))"
    "wh_world w1 = fold (\<lambda>n. act (tm_callback (wh_heap w (nd_timer n)))) (firing (wh_slots w ! ?c)) (we_read env (wh_world w))"
    using wheel_walk_ok [of ?w tid env act ?F "wh_slots w ! ?c"] assms nodes_okD(1) [OF assms(2) c]
    by (auto simp: nodes_ok_def wheel_inv_def Let_def)
  let ?w' = "w1\<lparr>wh_cur := (wh_cur w1 + 1) smod wh_maxSlots w1\<rparr>"
  have sh: "wh_maxSlots w1 = wh_maxSlots w" "wh_cur w1 = wh_cur w" "wh_SI w1 = wh_SI w" "length (wh_slots w1) = length (wh_slots w)"
    using w1(2) by (simp_all add: same_shape_def)
  have cur: "wh_maxSlots ?w' = wh_maxSlots w" "wh_cur ?w' = (wh_cur w + 1) mod wh_maxSlots w" using sh N by (simp_all add: smod_pos)
  have tick: "tick env tid w = Inr ?w'" using w1(1) c N by (simp add: tick_def)
  have inv: "wheel_inv ?w'" using assms(1) sh cur N by (simp add: wheel_inv_def)
  have fire: "firing (wh_slots w ! ?c) = filter (\<lambda>n. due_in w ?c n = 1) (wh_slots w ! ?c)"
    unfolding firing_def by (rule filter_cong) (use due_one_iff [OF assms(1,2) c] nodes_okD(2) [OF assms(2) c] in force)+
  have "counted w ?w' i n" if i: "i < length (wh_slots w)" and n: "n \<in> set (wh_slots w ! i)" for i n
  proof -
    have "old ?F (wh_slots w ! i) = wh_slots w ! i" using nodes_okD(2) [OF assms(2) i] by (intro old_all) blast
    then show ?thesis
      using w1(3) i n counted_current [OF assms(1,2) i _ n cur] counted_other [OF assms(1,2) i _ n cur] by (cases "i = ?c") auto
  qed
  then have "\<forall>i < length (wh_slots w). \<forall>n \<in> set (wh_slots w ! i). counted w ?w' i n" by blast
  then show ?thesis
    using w1(4) fire tick inv by (intro exI [of _ ?w'] conjI) (simp_all add: counted_def)
qed

definition demo_wheel :: "(string, string list) timer_wheel" where
  "demo_wheel = \<lparr>wh_maxSlots = 4, wh_SI = 1, wh_cur = 1,
     wh_slots = [[], [\<lparr>nd_id = 0, nd_timer = 1, nd_rotation = 0\<rparr>, \<lparr>nd_id = 1, nd_timer = 2, nd_rotation = 2\<rparr>], [], []],
     wh_fresh = 2, wh_heap = (\<lambda>p. \<lparr>tm_callback = (if p = 1 then ''a'' else ''b''), tm_interval = 4, execute_count = 1, expiration = 0\<rparr>),
     wh_thread = 7, wh_submitted = [], wh_world = []\<rparr>"

definition log_wheel_env :: "(string, string list) wheel_env" where
  "log_wheel_env = \<lparr>we_now = (\<lambda>x. (0, x)), we_read = (\<lambda>x. x), we_settime = (\<lambda>_ _ x. x),
     we_call = (\<lambda>cb w. Inr (w\<lparr>wh_world := wh_world w @ [cb]\<rparr>))\<rparr>"

theorem tick_counts_down_witness:
  "\<exists>w'. tick log_wheel_env 7 demo_wheel = Inr w' \<and> wh_world w' = [''a''] \<and>
    (\<exists>m \<in> set (wh_slots w' ! 1). nd_id m = 1 \<and> due_in w' 1 m = 8)"
proof -
  let ?n = "\<lparr>nd_id = 1, nd_timer = 2, nd_rotation = 2\<rparr> :: wheel_node"
  have pre: "wheel_inv demo_wheel" "nodes_ok demo_wheel" "7 = wh_thread demo_wheel"
    by (auto simp: wheel_inv_def nodes_ok_def demo_wheel_def firing_def less_Suc_eq)
  have calm: "calm_wheel log_wheel_env (\<lambda>cb x. x @ [cb])" by (simp add: calm_wheel_def log_wheel_env_def)
  have d: "due_in demo_wheel 1 ?n = 9" "?n \<in> set (wh_slots demo_wheel ! 1)" "1 < length (wh_slots demo_wheel)"
    by (simp_all add: due_in_def demo_wheel_def)
  have f: "fold (\<lambda>n x. x @ [tm_callback (wh_heap demo_wheel (nd_timer n))])
      (filter (\<lambda>n. due_in demo_wheel (nat (wh_cur demo_wheel)) n = 1) (wh_slots demo_wheel ! nat (wh_cur demo_wheel)))
      (we_read log_wheel_env (wh_world demo_wheel)) = [''a'']"
    by (simp add: due_in_def demo_wheel_def log_wheel_env_def)
  obtain w' where w': "tick log_wheel_env 7 demo_wheel = Inr w'" "wh_world w' = [''a'']"
    "\<forall>i < length (wh_slots demo_wheel). \<forall>n \<in> set (wh_slots demo_wheel ! i).
      if due_in demo_wheel i n = 1 then \<forall>m \<in> set (wh_slots w' ! i). nd_id m \<noteq> nd_id n
      else \<exists>m \<in> set (wh_slots w' ! i). nd_id m = nd_id n \<and> nd_timer m = nd_timer n \<and> due_in w' i m = due_in demo_wheel i n - 1"
    using tick_counts_down [OF pre calm] unfolding f by blast
  then have "\<exists>m \<in> set (wh_slots w' ! 1). nd_id m = nd_id ?n \<and> nd_timer m = nd_timer ?n \<and> due_in w' 1 m = due_in demo_wheel 1 ?n - 1"
    using d by fastforce
  with w'(1,2) d(1) show ?thesis by fastforce
qed

text \<open>Where an insertion puts a timer. Between ticks a timer that asks for t ticks is due on the
  tick t + 1. A timer inserted again while its slot is being walked is due t ticks later, except when
  t is a multiple of the number of slots: then it lands in the slot being walked and is due one
  whole rotation too late.\<close>

theorem wheel_insert_due:
  assumes "wheel_inv w" "tid = wh_thread w" "p \<noteq> 0"
  shows "\<exists>w' n i. wheel_insert tid p w = Inr w' \<and> i < length (wh_slots w') \<and> hd (wh_slots w' ! i) = n \<and>
    nd_timer n = p \<and> due_in w' i n = ticks_of w p + 1 \<and>
    due_in (w'\<lparr>wh_cur := (wh_cur w' + 1) smod wh_maxSlots w'\<rparr>) i n =
      ticks_of w p + (if ticks_of w p mod wh_maxSlots w = 0 then wh_maxSlots w else 0)"
proof -
  let ?t = "ticks_of w p" and ?N = "wh_maxSlots w"
  define i where "i = nat ((wh_cur w + ?t) mod ?N)"
  define n where "n = \<lparr>nd_id = wh_fresh w, nd_timer = p, nd_rotation = ?t div ?N\<rparr>"
  obtain w' where w': "wheel_insert tid p w = Inr w'"
    "w' = w\<lparr>wh_fresh := Suc (wh_fresh w), wh_slots := (wh_slots w)[i := n # wh_slots w ! i]\<rparr>" "i < length (wh_slots w)"
    using wheel_insert_ok [OF assms] by (auto simp: Let_def i_def n_def)
  have N: "0 < ?N" "0 \<le> wh_cur w" "wh_cur w < ?N" "int (length (wh_slots w)) = ?N" using assms(1) by (simp_all add: wheel_inv_def)
  have ii: "int i = (wh_cur w + ?t) mod ?N" using N by (simp add: i_def)
  have off: "(int i - wh_cur w) mod ?N = ?t mod ?N"
  proof -
    have "(int i - wh_cur w) mod ?N = ((wh_cur w + ?t) - wh_cur w) mod ?N" unfolding ii by (rule mod_diff_left_eq)
    then show ?thesis by simp
  qed
  have same: "int i = wh_cur w \<longleftrightarrow> ?t mod ?N = 0"
  proof
    assume "int i = wh_cur w"
    then show "?t mod ?N = 0" using off by simp
  next
    assume z: "?t mod ?N = 0"
    have "(wh_cur w + ?t mod ?N) mod ?N = (wh_cur w + ?t) mod ?N" by (rule mod_add_right_eq)
    then show "int i = wh_cur w" using ii z N by simp
  qed
  have sum: "?t mod ?N + ?t div ?N * ?N = ?t" by simp
  have 1: "due_in w' i n = ?t + 1" using off sum w'(2) by (simp add: due_in_def n_def)
  have nx: "(int i - (wh_cur w + 1) mod ?N) mod ?N = (if int i = wh_cur w then ?N - 1 else (int i - wh_cur w) mod ?N - 1)"
    using N w'(3) by (intro mod_next) simp_all
  have "due_in (w'\<lparr>wh_cur := (wh_cur w' + 1) smod wh_maxSlots w'\<rparr>) i n = ?t + (if ?t mod ?N = 0 then ?N else 0)"
    using nx same off sum w'(2) N by (auto simp: due_in_def n_def smod_pos)
  with 1 w' show ?thesis by (intro exI [of _ w'] exI [of _ n] exI [of _ i]) (simp add: n_def)
qed

theorem wheel_insert_due_witness:
  "\<exists>w' n i. wheel_insert 7 1 demo_wheel = Inr w' \<and> hd (wh_slots w' ! i) = n \<and> due_in w' i n = 5"
proof -
  have pre: "wheel_inv demo_wheel" "7 = wh_thread demo_wheel" by (simp_all add: wheel_inv_def demo_wheel_def)
  have "ticks_of demo_wheel 1 = 4" by (simp add: ticks_of_def demo_wheel_def)
  then show ?thesis using wheel_insert_due [OF pre, of 1] by fastforce
qed

end
