(* ===== verification/Http_Service.thy ===== *)
theory Http_Service
  imports Http_Router Tcp_Connection
begin

text \<open>
  \<open>Net/HTTP/HttpServer.h\<close> and \<open>Net/HTTP/HttpClient.h\<close>: the message callbacks that run the HTTP parser
  on the receive buffer of a connection, and the client's requests. They are callbacks of the
  application in the sense of the connection, so their state is the application part of the world:
  the context store of every connection for the server, the response under construction and the
  queue of pending requests for the client.
\<close>

subsection \<open>The server\<close>

record http_ctx =
  hc_parser :: http_parser
  hc_keepAlive :: bool

definition ctx_new :: http_ctx where "ctx_new = \<lparr>hc_parser = parser_new, hc_keepAlive = True\<rparr>"

record 's http_app =
  ha_data :: "cid \<Rightarrow> http_ctx auto_context"
  ha_state :: 's

type_synonym ('m, 'k, 's) http_loop = "('m, 'k, 's http_app) net_loop"

text \<open>\<open>context<HTTPConnectionContext>()\<close>; the type index is 0.\<close>

definition ctx_of :: "cid \<Rightarrow> ('m, 'k, 's) http_loop \<Rightarrow> http_ctx" where
  "ctx_of c l = fst (context_of 0 ctx_new (ha_data (nw_app (world l)) c))"

definition set_ctx :: "cid \<Rightarrow> http_ctx \<Rightarrow> ('m, 'k, 's) http_loop \<Rightarrow> ('m, 'k, 's) http_loop" where
  "set_ctx c x l = on_world (\<lambda>w. w\<lparr>nw_app := (nw_app w)
     \<lparr>ha_data := (ha_data (nw_app w))(c := (ha_data (nw_app w) c)(0 \<mapsto> x))\<rparr>\<rparr>) l"

definition set_state :: "'s \<Rightarrow> ('m, 'k, 's) http_loop \<Rightarrow> ('m, 'k, 's) http_loop" where
  "set_state s l = on_world (\<lambda>w. w\<lparr>nw_app := (nw_app w)\<lparr>ha_state := s\<rparr>\<rparr>) l"

definition onConnection :: "cid \<Rightarrow> ('m, 'k, 's) http_loop \<Rightarrow> ('m, 'k, 's) http_loop" where
  "onConnection c l = set_ctx c ctx_new l"

definition server_get where "server_get path cb r = router_get path cb r"
definition server_post where "server_post path cb r = router_post path cb r"
definition server_put where "server_put path cb r = router_put path cb r"
definition server_del where "server_del path cb r = router_del path cb r"
definition server_setDefaultHandler where "server_setDefaultHandler cb r = setDefaultHandler cb r"

definition bad_request_response :: http_response where
  "bad_request_response =
     (let resp = (setStatus status_BAD_REQUEST ''Bad Request'' response_new)\<lparr>hm_body := ''400 Bad Request''\<rparr>;
          resp = resp\<lparr>hm_headers := smap_set ''Content-Type'' ''text/plain'' (hm_headers resp)\<rparr>
      in resp\<lparr>hm_headers := smap_set ''Connection'' ''close'' (hm_headers resp)\<rparr>)"

definition continue_text :: string where "continue_text = ''HTTP/1.1 100 Continue'' @ CRLF @ CRLF"

definition recv_bytes :: "cid \<Rightarrow> ('m, 'k, 's) net_loop \<Rightarrow> char list outcome" where
  "recv_bytes c l = with_conn c (\<lambda>x. load (tb_peek (RecvBuffer x)) (readable_size (RecvBuffer x)) (buffer (RecvBuffer x))) l"

definition consume_recv :: "cid \<Rightarrow> nat \<Rightarrow> ('m, 'k, 's) net_loop \<Rightarrow> ('m, 'k, 's) net_loop outcome" where
  "consume_recv c n l = with_conn c (\<lambda>x. obind (consume n (RecvBuffer x)) (\<lambda>b.
     Inr (upd_conn c (\<lambda>x. x\<lparr>RecvBuffer := b\<rparr>) l))) l"

text \<open>The branch of a complete request; the handlers work on references to the parser's request.\<close>

definition serve_request ::
  "('m, 'k, 's http_app) net \<Rightarrow> 's http_router \<Rightarrow> nat \<Rightarrow> nat \<Rightarrow> cid \<Rightarrow> ('m, 'k, 's) http_loop \<Rightarrow>
   ('m, 'k, 's) http_loop outcome" where
  "serve_request net router tid fuel c l =
     (let ctx = ctx_of c l;
          req = ps_req (hc_parser ctx);
          ctx = ctx\<lparr>hc_keepAlive := getHeader ''connection'' req \<noteq> ''close''\<rparr> in
      obind (routeRequest router (req, response_new, ha_state (nw_app (world l)))) (\<lambda>(found, req, resp, s).
      let ctx = ctx\<lparr>hc_parser := (hc_parser ctx)\<lparr>ps_req := req\<rparr>\<rparr>;
          l = set_ctx c ctx (set_state s l);
          resp = resp\<lparr>hm_headers := smap_set ''Connection'' (if hc_keepAlive ctx then ''keep-alive'' else ''close'') (hm_headers resp)\<rparr>
      in obind (conn_send_string net tid fuel c (buildResponse resp) l) (\<lambda>l.
         obind (consume_recv c (getByte (ps_req (hc_parser (ctx_of c l)))) l) (\<lambda>l.
         if \<not> hc_keepAlive (ctx_of c l) then disconnect net tid fuel c l
         else Inr (set_ctx c ((ctx_of c l)\<lparr>hc_parser := parser_clear (hc_parser (ctx_of c l))\<rparr>) l)))))"

text \<open>One round of \<open>onMessage\<close> after the parser's verdict; \<open>again\<close> is the next round.\<close>

definition after_parse ::
  "('m, 'k, 's http_app) net \<Rightarrow> 's http_router \<Rightarrow> nat \<Rightarrow> nat \<Rightarrow> cid \<Rightarrow>
   (('m, 'k, 's) http_loop \<Rightarrow> ('m, 'k, 's) http_loop outcome) \<Rightarrow> ('m, 'k, 's) http_loop \<Rightarrow>
   parse_result \<times> http_parser \<Rightarrow> ('m, 'k, 's) http_loop outcome" where
  "after_parse net router tid fuel c again l = (\<lambda>(res, p).
     let l = set_ctx c ((ctx_of c l)\<lparr>hc_parser := p\<rparr>) l in
     case res of
       Parse_Error \<Rightarrow>
         obind (conn_send_string net tid fuel c (buildResponse bad_request_response) l) (disconnect net tid fuel c)
     | Continue100 \<Rightarrow> conn_send net tid fuel c continue_text l
     | NotComplete \<Rightarrow> Inr l
     | Complete \<Rightarrow> obind (serve_request net router tid fuel c l) again)"

text \<open>The \<open>while (true)\<close> of \<open>onMessage\<close>, with a bound on the rounds.\<close>

primrec server_onMessage ::
  "('m, 'k, 's http_app) net \<Rightarrow> 's http_router \<Rightarrow> nat \<Rightarrow> nat \<Rightarrow> cid \<Rightarrow> nat \<Rightarrow> ('m, 'k, 's) http_loop \<Rightarrow>
   ('m, 'k, 's) http_loop outcome" where
  "server_onMessage net router tid fuel c 0 = (\<lambda>l. Inl Out_of_fuel)"
| "server_onMessage net router tid fuel c (Suc rounds) = (\<lambda>l.
     obind (recv_bytes c l) (\<lambda>d.
     obind (parseRequest d True (hc_parser (ctx_of c l)))
       (after_parse net router tid fuel c (server_onMessage net router tid fuel c rounds) l)))"

subsection \<open>The client\<close>

record 'cb request_ctx =
  rc_method :: string
  rc_url :: string
  rc_headers :: "(string, string) smap"
  rc_callback :: "'cb option"

record ('cb, 's) client_app =
  ca_response :: http_response
  ca_pending :: "'cb request_ctx list"
  ca_state :: 's

type_synonym ('cb, 'm, 'k, 's) client_loop = "('m, 'k, ('cb, 's) client_app) net_loop"

definition on_client :: "(('cb, 's) client_app \<Rightarrow> ('cb, 's) client_app) \<Rightarrow> ('cb, 'm, 'k, 's) client_loop \<Rightarrow> ('cb, 'm, 'k, 's) client_loop" where
  "on_client f l = on_world (\<lambda>w. w\<lparr>nw_app := f (nw_app w)\<rparr>) l"

text \<open>The peer's address as text is a parameter; the host is what precedes its first colon.\<close>

definition client_request :: "string \<Rightarrow> string \<Rightarrow> string \<Rightarrow> string \<Rightarrow> (string, string) smap \<Rightarrow> http_request" where
  "client_request peer meth url body headers =
     (let req = request_new;
          req = (if meth = ''GET'' then req\<lparr>rq_method := M_GET\<rparr> else if meth = ''POST'' then req\<lparr>rq_method := M_POST\<rparr>
                 else if meth = ''PUT'' then req\<lparr>rq_method := M_PUT\<rparr>
                 else if meth = ''DELETE'' then req\<lparr>rq_method := M_DELETE\<rparr> else req);
          req = req\<lparr>rq_queryUrl := url, hm_version := ''HTTP/1.1''\<rparr>;
          req = req\<lparr>hm_headers := smap_set ''Host'' (takeWhile (\<lambda>ch. ch \<noteq> CHR '':'') peer) (hm_headers req)\<rparr>;
          req = req\<lparr>hm_headers := foldl (\<lambda>m (k, v). smap_set k v m) (hm_headers req) headers\<rparr>
      in if body = [] then req
         else req\<lparr>hm_body := body,
                hm_headers := smap_set ''Content-Type'' ''application/x-www-form-urlencoded'' (hm_headers req)\<rparr>)"

definition sendRequest ::
  "('m, 'k, ('cb, 's) client_app) net \<Rightarrow> nat \<Rightarrow> nat \<Rightarrow> cid \<Rightarrow> string \<Rightarrow> string \<Rightarrow> string \<Rightarrow> string \<Rightarrow> 'cb option \<Rightarrow>
   (string, string) smap \<Rightarrow> ('cb, 'm, 'k, 's) client_loop \<Rightarrow> ('cb, 'm, 'k, 's) client_loop outcome" where
  "sendRequest net tid fuel c peer meth url body cb headers l =
     obind (conn_send_string net tid fuel c (snd (request_encode (client_request peer meth url body headers) [])) l) (\<lambda>l.
     Inr (on_client (\<lambda>a. a\<lparr>ca_pending := ca_pending a @
       [\<lparr>rc_method = meth, rc_url = url, rc_headers = headers, rc_callback = cb\<rparr>]\<rparr>) l))"

definition client_get where "client_get net tid fuel c peer url cb = sendRequest net tid fuel c peer ''GET'' url [] cb []"
definition client_post where "client_post net tid fuel c peer url body headers cb = sendRequest net tid fuel c peer ''POST'' url body cb headers"
definition client_put where "client_put net tid fuel c peer url body headers cb = sendRequest net tid fuel c peer ''PUT'' url body cb headers"
definition client_del where "client_del net tid fuel c peer url cb = sendRequest net tid fuel c peer ''DELETE'' url [] cb []"

definition finish_response ::
  "('cb \<Rightarrow> http_response \<Rightarrow> ('cb, 'm, 'k, 's) client_loop \<Rightarrow> ('cb, 'm, 'k, 's) client_loop outcome) \<Rightarrow>
   ('m, 'k, ('cb, 's) client_app) net \<Rightarrow> nat \<Rightarrow> nat \<Rightarrow> cid \<Rightarrow> ('cb, 'm, 'k, 's) client_loop \<Rightarrow>
   ('cb, 'm, 'k, 's) client_loop outcome" where
  "finish_response call net tid fuel c l =
     obind (case ca_pending (nw_app (world l)) of
        [] \<Rightarrow> Inr l
      | ctx # rest \<Rightarrow>
          let l = on_client (\<lambda>a. a\<lparr>ca_pending := rest\<rparr>) l
          in (case rc_callback ctx of Some cb \<Rightarrow> call cb (ca_response (nw_app (world l))) l | None \<Rightarrow> Inr l)) (\<lambda>l.
     obind (consume_recv c (getByte (ca_response (nw_app (world l)))) l) (\<lambda>l.
     if getHeader ''connection'' (ca_response (nw_app (world l))) = ''close'' then disconnect net tid fuel c l
     else Inr (on_client (\<lambda>a. a\<lparr>ca_response := response_clear (ca_response a)\<rparr>) l)))"

text \<open>\<open>Continue100\<close> has no branch in the client: the loop goes round again.\<close>

fun client_onMessage ::
  "('cb \<Rightarrow> http_response \<Rightarrow> ('cb, 'm, 'k, 's) client_loop \<Rightarrow> ('cb, 'm, 'k, 's) client_loop outcome) \<Rightarrow>
   ('m, 'k, ('cb, 's) client_app) net \<Rightarrow> nat \<Rightarrow> nat \<Rightarrow> cid \<Rightarrow> nat \<Rightarrow> ('cb, 'm, 'k, 's) client_loop \<Rightarrow>
   ('cb, 'm, 'k, 's) client_loop outcome" where
  "client_onMessage call net tid fuel c 0 l = Inl Out_of_fuel"
| "client_onMessage call net tid fuel c (Suc rounds) l =
     with_conn c (\<lambda>x.
       let b = RecvBuffer x in
       obind (response_tryDecode (sp_at (buffer b) (tb_peek b) (readable_size b)) True (ca_response (nw_app (world l)))) (\<lambda>(res, resp).
       let l = on_client (\<lambda>a. a\<lparr>ca_response := resp\<rparr>) l in
       case res of
         Parse_Error \<Rightarrow> consume_recv c (readable_size b) l
       | NotComplete \<Rightarrow> Inr l
       | Complete \<Rightarrow> obind (finish_response call net tid fuel c l) (client_onMessage call net tid fuel c rounds)
       | Continue100 \<Rightarrow> client_onMessage call net tid fuel c rounds l)) l"

end
