(* ===== verification/Http_Service_Props.thy ===== *)
theory Http_Service_Props
  imports Http_Service Http_Properties Tcp_Connection_Props
begin

text \<open>
  The HTTP server on a connection: what its message callback sends, consumes and leaves behind.
\<close>

subsection \<open>The state of a connection's parser\<close>

lemma parser_clear_new [simp]: "parser_clear p = parser_new"
  by (simp add: parser_clear_def parser_new_def request_clear_def request_new_def response_clear_def
      response_new_def msg_clear_def)

lemma app_access [net_access]:
  "nw_app (world (upd_conn c f l)) = nw_app (world l)"
  "nw_app (world (syscall rk l)) = nw_app (world l)"
  "nw_app (world (on_kernel g l)) = nw_app (world l)"
  by (simp_all add: upd_conn_def syscall_def on_kernel_def net_access split: sum.split)

lemma ctx_access [net_access]:
  "ctx_of c (set_ctx c x l) = x"
  "ha_state (nw_app (world (set_ctx c x l))) = ha_state (nw_app (world l))"
  "ha_state (nw_app (world (set_state s l))) = s"
  "ctx_of c (set_state s l) = ctx_of c l"
  "nw_conns (world (set_ctx c x l)) = nw_conns (world l)"
  "nw_conns (world (set_state s l)) = nw_conns (world l)"
  "nw_kernel (world (set_ctx c x l)) = nw_kernel (world l)"
  "nw_kernel (world (set_state s l)) = nw_kernel (world l)"
  "el_thread (set_ctx c x l) = el_thread l"
  "el_thread (set_state s l) = el_thread l"
  "el_handler h (set_ctx c x l) = el_handler h l"
  "el_handler h (set_state s l) = el_handler h l"
  "ep_handlers (el_poller (set_ctx c x l)) = ep_handlers (el_poller l)"
  "ep_handlers (el_poller (set_state s l)) = ep_handlers (el_poller l)"
  by (simp_all add: ctx_of_def set_ctx_def set_state_def context_of_def net_access)

lemma ctx_of_app: "nw_app (world l') = nw_app (world l) \<Longrightarrow> ctx_of c l' = ctx_of c l"
  by (simp add: ctx_of_def)

text \<open>A connection that is being served.\<close>

definition serving :: "nat \<Rightarrow> cid \<Rightarrow> 'm tcp_connection \<Rightarrow> ('m, 'k, 's) net_loop \<Rightarrow> bool" where
  "serving tid c x l \<longleftrightarrow> ready c x l \<and> isInLoopThread tid l \<and> Connstatus x = Connected \<and>
     content (SendBuffer x) = [] \<and> tb_inv (RecvBuffer x)"


lemma outgoing_ctx [net_access]:
  "outgoing stream x (set_ctx c y l) = outgoing stream x l" "outgoing stream x (set_state s l) = outgoing stream x l"
  by (simp_all add: outgoing_def fd_of_def net_access)

lemma recv_bytes_serving: "serving tid c x l \<Longrightarrow> recv_bytes c l = Inr (content (RecvBuffer x))"
  using content_load [of "RecvBuffer x"] by (auto simp: serving_def recv_bytes_def ready_conn)

text \<open>A kernel that takes every message at once.\<close>

definition takes_all :: "('m, 'k, 's) net \<Rightarrow> bool" where
  "takes_all net \<longleftrightarrow> (\<forall>fd d k. fst (net_send net fd d k) = Inr (length d))"



subsection \<open>Requests answered in order\<close>




subsection \<open>What the operations of a connection leave alone\<close>

text \<open>Callbacks of the application that do not touch the HTTP state.\<close>

definition quiet :: "('m, 'k, 's) net \<Rightarrow> bool" where
  "quiet net \<longleftrightarrow> (\<forall>m c l l'. net_call net m c l = Inr l' \<longrightarrow> nw_app (world l') = nw_app (world l))"

lemma poller_app:
  "on_poller (update_listen (lift_os os) h) l = Inr l' \<Longrightarrow> nw_app (world l') = nw_app (world l)"
  "wakeup (conn_base net) l = Inr l' \<Longrightarrow> nw_app (world l') = nw_app (world l)"
  "wakeup (conn_env net tid fuel) l = Inr l' \<Longrightarrow> nw_app (world l') = nw_app (world l)"
  by (auto simp: on_poller_def update_listen_def operator_epoll_def lift_os_def world_def Let_def log_errno_def
      wakeup_def write_wake_def conn_base_def conn_env_def outcome_iff split: prod.splits option.splits if_splits)

lemma change_events_app:
  assumes "change_events f (conn_base net) tid h l = Inr l'"
  shows "nw_app (world l') = nw_app (world l)"
proof -
  obtain e where "el_update_listen (conn_base net) tid h (on_handler h (\<lambda>x. x\<lparr>h_events := e\<rparr>) l) = Inr l'" (is "el_update_listen _ _ _ ?l = _")
    using assms by (auto simp: change_events_def handler_update_def outcome_iff)
  then have "on_poller (update_listen (lift_os (net_os net)) h) ?l = Inr l' \<or>
      wakeup (conn_base net) (?l\<lparr>el_functions := el_functions ?l @ [T_update h]\<rparr>) = Inr l'"
    by (auto simp: el_update_listen_def submit_def conn_base_def split: if_splits)
  then have "nw_app (world l') = nw_app (world ?l)"
    using poller_app(1) poller_app(2) [of net _ l'] by (fastforce simp: world_def)
  then show ?thesis by (simp add: net_access)
qed

lemma with_conn_Inr [outcome_iff]: "with_conn c f l = Inr y \<longleftrightarrow> (\<exists>x. nw_conns (world l) c = Some x \<and> f x = Inr y)"
  by (simp add: with_conn_def split: option.split)

lemma ensure_writing_app: "ensure_writing net tid c l = Inr l' \<Longrightarrow> nw_app (world l') = nw_app (world l)"
  by (auto simp: ensure_writing_def setWriting_def outcome_iff change_events_app split: if_splits)

lemma handleError_app: "quiet net \<Longrightarrow> handleError net c l = Inr l' \<Longrightarrow> nw_app (world l') = nw_app (world l)"
  by (auto simp: handleError_def call_if_set_def quiet_def Let_def outcome_iff split: if_splits option.splits)

lemma queue_app:
  "obind (append_pending c d l) (ensure_writing net tid c) = Inr l' \<Longrightarrow> nw_app (world l') = nw_app (world l)"
  by (auto simp: append_pending_def outcome_iff net_access dest!: ensure_writing_app)

lemma sendInLoop_app:
  assumes "quiet net" "sendInLoop net tid c d l = Inr l'"
  shows "nw_app (world l') = nw_app (world l)"
proof -
  obtain x where x: "nw_conns (world l) c = Some x" "isInLoopThread tid l"
    using assms(2) by (auto simp: sendInLoop_def outcome_iff)
  let ?rk = "net_send net (h_fd (el_handler (tc_handler x) l)) d (nw_kernel (world l))"
  have "l' = syscall ?rk l \<or> handleError net c (syscall ?rk l) = Inr l' \<or>
      (\<exists>d. obind (append_pending c d (syscall ?rk l)) (ensure_writing net tid c) = Inr l')"
    using assms(2) x by (auto simp: sendInLoop_def Let_def with_conn_def split: sum.splits if_splits)
  then show ?thesis using handleError_app [OF assms(1)] queue_app app_access(2) by metis
qed

lemma disconnectInLoop_app: "disconnectInLoop net tid c l = Inr l' \<Longrightarrow> nw_app (world l') = nw_app (world l)"
  by (auto simp: disconnectInLoop_def Let_def outcome_iff net_access split: if_splits dest!: ensure_writing_app)

lemma submit_app:
  assumes "quiet net" "t = CT_send c d \<or> t = CT_disconnect c \<or> t = CT_setWriting c"
    and "submit (conn_env net tid fuel) tid (T_user t) l = Inr l'"
  shows "nw_app (world l') = nw_app (world l)"
proof (cases "isInLoopThread tid l")
  case True
  then have "l' = l \<or> sendInLoop net tid c d l = Inr l' \<or> disconnectInLoop net tid c l = Inr l' \<or> ensure_writing net tid c l = Inr l'"
    using assms(2,3) by (auto simp: submit_def run_task_def conn_env_def conn_task_def if_alive_def split: if_splits)
  then show ?thesis using sendInLoop_app [OF assms(1)] disconnectInLoop_app ensure_writing_app by metis
next
  case False
  then show ?thesis using assms(3) poller_app(3) by (fastforce simp: submit_def world_def)
qed

lemma conn_ops_app:
  assumes "quiet net"
  shows "conn_send_string net tid fuel c d l = Inr l' \<Longrightarrow> nw_app (world l') = nw_app (world l)"
    "disconnect net tid fuel c l = Inr l' \<Longrightarrow> nw_app (world l') = nw_app (world l)"
    "consume_recv c n l = Inr l' \<Longrightarrow> nw_app (world l') = nw_app (world l)"
  by (auto simp: conn_send_string_def disconnect_def consume_recv_def outcome_iff net_access
      split: if_splits dest: submit_app [OF assms, rotated])

subsection \<open>The end of a connection\<close>

text \<open>The parser holds a finished request that asks for the connection to be closed.\<close>

definition closing :: "cid \<Rightarrow> ('m, 'k, 's) http_loop \<Rightarrow> bool" where
  "closing c l \<longleftrightarrow> hm_complete (ps_req (hc_parser (ctx_of c l))) \<and>
     getHeader ''connection'' (ps_req (hc_parser (ctx_of c l))) = ''close''"

text \<open>Handlers that leave the request as it is.\<close>

definition keeps_request :: "'s http_router \<Rightarrow> bool" where
  "keeps_request router \<longleftrightarrow> (\<forall>req resp s found req' resp' s'.
     routeRequest router (req, resp, s) = Inr (found, req', resp', s') \<longrightarrow> req' = req)"

lemma serve_request_closing:
  assumes "quiet net" "keeps_request router" "closing c l" "serve_request net router tid fuel c l = Inr l'"
  shows "closing c l'"
proof -
  let ?p = "hc_parser (ctx_of c l)"
  obtain found req resp s where r: "routeRequest router (ps_req ?p, response_new, ha_state (nw_app (world l))) = Inr (found, req, resp, s)"
    using assms(4) by (auto simp: serve_request_def Let_def outcome_iff)
  then have req: "req = ps_req ?p" using assms(2) unfolding keeps_request_def by blast
  let ?ctx = "(ctx_of c l)\<lparr>hc_keepAlive := False, hc_parser := ?p\<lparr>ps_req := req\<rparr>\<rparr>"
  let ?l1 = "set_ctx c ?ctx (set_state s l)"
  obtain d l2 l3 where run: "conn_send_string net tid fuel c d ?l1 = Inr l2"
    "consume_recv c (getByte (ps_req (hc_parser (ctx_of c l2)))) l2 = Inr l3"
    and last: "(if \<not> hc_keepAlive (ctx_of c l3) then disconnect net tid fuel c l3
         else Inr (set_ctx c ((ctx_of c l3)\<lparr>hc_parser := parser_clear (hc_parser (ctx_of c l3))\<rparr>) l3)) = Inr l'"
    using assms(3,4) r by (auto simp: serve_request_def Let_def closing_def obind_eq_Inr)
  note app = conn_ops_app [OF assms(1)]
  have 3: "ctx_of c l3 = ?ctx"
    using ctx_of_app [OF app(1) [OF run(1)], of c] ctx_of_app [OF app(3) [OF run(2)], of c] by (simp add: net_access)
  then have "disconnect net tid fuel c l3 = Inr l'" using last by simp
  from ctx_of_app [OF app(2) [OF this], of c] 3 show ?thesis using assms(3) req by (simp add: closing_def)
qed

lemma parse_complete_again:
  "hm_complete (ps_req p) \<Longrightarrow> \<exists>b. parseRequest d True p = Inr (Complete, p\<lparr>ps_inputBuffer := b\<rparr>)"
  by (simp add: parseRequest_def request_tryDecode_def msg_tryDecode_def sp_empty_def sp_size_def Let_def) (rule exI, rule refl)

lemma closing_never_returns:
  assumes "quiet net" "keeps_request router" "closing c l"
  shows "server_onMessage net router tid fuel c n l \<noteq> Inr l'"
  using assms(3)
proof (induction n arbitrary: l)
  case (Suc n)
  let ?again = "server_onMessage net router tid fuel c n"
  obtain d b where d: "recv_bytes c l = Inr d \<or> (\<exists>e. recv_bytes c l = Inl e)"
    "parseRequest d True (hc_parser (ctx_of c l)) = Inr (Complete, (hc_parser (ctx_of c l))\<lparr>ps_inputBuffer := b\<rparr>)"
    using parse_complete_again Suc.prems by (metis closing_def sum.exhaust)
  have "closing c (set_ctx c ((ctx_of c l)\<lparr>hc_parser := (hc_parser (ctx_of c l))\<lparr>ps_inputBuffer := b\<rparr>\<rparr>) l)" (is "closing c ?l")
    using Suc.prems by (simp add: closing_def net_access)
  then have "obind (serve_request net router tid fuel c ?l) ?again \<noteq> Inr l'"
    using serve_request_closing [OF assms(1,2)] Suc.IH by (auto simp: obind_eq_Inr)
  then show ?case using d by (auto simp: after_parse_def)
qed simp

subsection \<open>A demonstration network\<close>

text \<open>A kernel that takes everything, with one connection (its descriptor is 5) on the loop of thread 7.\<close>

definition web_net :: "(nat, int \<Rightarrow> char list, unit http_app) net" where
  "web_net = \<lparr>
     net_os = \<lparr>os_epoll_ctl = (\<lambda>_ _ _ _ k. (None, k)), os_epoll_wait = (\<lambda>_ _ k. (Inr [], k)),
       os_eventfd_write = (\<lambda>_ _ k. (8, k)), os_eventfd_read = (\<lambda>_ k. (8, k))\<rparr>,
     net_send = (\<lambda>fd d s. (Inr (length d), s(fd := s fd @ d))),
     net_readv = (\<lambda>_ _ k. (Inl EAGAIN, k)), net_recv_oob = (\<lambda>_ _ k. (Inl EAGAIN, k)),
     net_shutdown = (\<lambda>_ k. k), net_close = (\<lambda>_ k. k), net_nonblocking = (\<lambda>_ _. True), net_dequeue = fifo_dequeue,
     net_call = (\<lambda>_ _ l. Inr l), net_app = (\<lambda>_ l. Inr l)\<rparr>"

lemma web_net_spec: "send_spec web_net (\<lambda>k. k)" "takes_all web_net" "quiet web_net"
  by (simp_all add: send_spec_def takes_all_def quiet_def web_net_def)

definition web_conn :: "char list \<Rightarrow> nat tcp_connection" where
  "web_conn q = (conn_record 5 ''peer'' True (room_buffer []) Connected 1 False)\<lparr>RecvBuffer := room_buffer q\<rparr>"

definition web_loop :: "char list \<Rightarrow> http_ctx \<Rightarrow> (nat, int \<Rightarrow> char list, unit) http_loop" where
  "web_loop q ctx = \<lparr>
     el_poller = \<lparr>ep_heap = (\<lambda>_. (handler_new ev_default)\<lparr>h_fd := 5, h_loop := True, h_status := st_Added\<rparr>),
       ep_handlers = [5 \<mapsto> 1], ep_events_size = 1024,
       ep_kernel = \<lparr>nw_kernel = (\<lambda>_. []), nw_errno = EOTHER 0,
         nw_conns = (\<lambda>c. if c = 0 then Some (web_conn q) else None),
         nw_app = \<lparr>ha_data = (\<lambda>_. [0 \<mapsto> ctx]), ha_state = ()\<rparr>\<rparr>, ep_errors = []\<rparr>,
     el_id = 0, el_active = [], el_functions = [], el_thread = 7, el_status = ls_Looping, el_wake = 9\<rparr>"

lemma room_buffer_content: "length q \<le> 1000 \<Longrightarrow> tb_inv (room_buffer q)" "content (room_buffer q) = q"
  by (simp_all add: tb_inv_def room_buffer_def vector_max_def content_def segment_def)

lemma web_serving:
  assumes "length q \<le> 1000"
  shows "serving 7 0 (web_conn q) (web_loop q ctx)"
proof -
  have "ev_ok ev_default" by (simp add: ev_ok_def ev_default_def)
  then show ?thesis
    using room_buffer_content(1) [of "[]"] room_buffer_content(1) [OF assms]
    by (simp add: serving_def ready_def web_loop_def web_conn_def conn_record_def world_def el_handler_def handler_new_def
        isInLoopThread_def room_buffer_content(2))
qed

lemma web_access [simp]:
  "content (RecvBuffer (web_conn q)) = q" "ctx_of c (web_loop q ctx) = ctx"
  "outgoing (\<lambda>k. k) (web_conn q) (web_loop q ctx) = []"
  by (simp_all add: web_conn_def conn_record_def room_buffer_content(2) ctx_of_def context_of_def web_loop_def world_def outgoing_def)

lemma web_recv: "length q \<le> 1000 \<Longrightarrow> recv_bytes 0 (web_loop q ctx) = Inr q"
  using recv_bytes_serving [OF web_serving] by simp

lemma router_new_keeps: "keeps_request router_new"
  by (auto simp: keeps_request_def routeRequest_def router_new_def defaultNotFoundHandler_def Let_def)





subsection \<open>Properties\<close>



text \<open>C30. A request that asks for the connection to be closed is the end of the event loop's progress:
  \<open>onMessage\<close> does not return after it, however many rounds it is given. It neither clears the
  finished request nor leaves its loop, so every further round sees the same request complete again
  (until a call on the way fails, such as the assertion in \<open>consume\<close> when the received bytes have
  run out).\<close>

theorem close_request_never_returns:
  assumes "quiet net" "keeps_request router"
    and "recv_bytes c l = Inr d" "parseRequest d True (hc_parser (ctx_of c l)) = Inr (Complete, p)"
    and "hm_complete (ps_req p)" "getHeader ''connection'' (ps_req p) = ''close''"
  shows "\<nexists>l'. server_onMessage net router tid fuel c n l = Inr l'"
proof (cases n)
  case (Suc m)
  let ?l = "set_ctx c ((ctx_of c l)\<lparr>hc_parser := p\<rparr>) l"
  have "closing c ?l" using assms(5,6) by (simp add: closing_def net_access)
  then have "obind (serve_request net router tid fuel c ?l) (server_onMessage net router tid fuel c m) \<noteq> Inr l'" for l'
    using serve_request_closing [OF assms(1,2)] closing_never_returns [OF assms(1,2)] by (auto simp: obind_eq_Inr)
  then show ?thesis using Suc assms(3,4) by (simp add: after_parse_def)
qed simp

definition close_request :: http_request where
  "close_request = request_new\<lparr>hm_complete := True, hm_headers := [(''connection'', ''close'')]\<rparr>"

theorem close_request_never_returns_witness:
  "\<nexists>l'. server_onMessage web_net router_new 7 3 0 1000 (web_loop ''ab'' (ctx_new\<lparr>hc_parser := parser_new\<lparr>ps_req := close_request\<rparr>\<rparr>)) = Inr l'"
proof -
  let ?p = "parser_new\<lparr>ps_req := close_request\<rparr>"
  let ?l = "web_loop ''ab'' (ctx_new\<lparr>hc_parser := ?p\<rparr>)"
  have recv: "recv_bytes 0 ?l = Inr ''ab''" by (rule web_recv) simp
  have ctx: "hc_parser (ctx_of 0 ?l) = ?p" by simp
  have "hm_complete (ps_req ?p)" by (simp add: close_request_def)
  from parse_complete_again [OF this] obtain b where
    parse: "parseRequest ''ab'' True (hc_parser (ctx_of 0 ?l)) = Inr (Complete, ?p\<lparr>ps_inputBuffer := b\<rparr>)" using ctx by metis
  have "hm_complete (ps_req (?p\<lparr>ps_inputBuffer := b\<rparr>))" "getHeader ''connection'' (ps_req (?p\<lparr>ps_inputBuffer := b\<rparr>)) = ''close''"
    by (simp_all add: close_request_def getHeader_def smap_get_def)
  from close_request_never_returns [OF web_net_spec(3) router_new_keeps recv parse this] show ?thesis .
qed

text \<open>A request that arrives in several reads is misread. When the bytes a received so far are not a
  complete request, \<open>onMessage\<close> returns with them both in the parser and still in the receive
  buffer; after the next read, which adds b, the verdict is the one on a, a again, and b.\<close>

theorem partial_request_reparsed:
  assumes "recv_bytes c l = Inr a" "hc_parser (ctx_of c l) = parser_new"
    and "parseRequest a True parser_new = Inr (NotComplete, p)"
  shows "\<exists>l1. server_onMessage net router tid fuel c (Suc n) l = Inr l1 \<and> recv_bytes c l1 = Inr a \<and>
    (\<forall>l2 b. ctx_of c l2 = ctx_of c l1 \<and> recv_bytes c l2 = Inr (a @ b) \<longrightarrow>
      server_onMessage net router tid fuel c (Suc m) l2 =
        obind (parseRequest (a @ a @ b) True parser_new)
          (after_parse net router tid fuel c (server_onMessage net router tid fuel c m) l2))"
proof -
  let ?l1 = "set_ctx c ((ctx_of c l)\<lparr>hc_parser := p\<rparr>) l"
  have "server_onMessage net router tid fuel c (Suc n) l = Inr ?l1" using assms by (simp add: after_parse_def)
  moreover have "recv_bytes c ?l1 = Inr a" using assms(1) by (simp add: recv_bytes_def with_conn_def net_access)
  moreover have "parseRequest (a @ b) True (hc_parser (ctx_of c ?l1)) = parseRequest (a @ a @ b) True parser_new" for b
    using parseRequest_resume [OF _ _ assms(3), of "a @ b"]
    by (simp add: net_access parser_new_def request_new_def request_clear_def msg_clear_def)
  ultimately show ?thesis by (intro exI [of _ ?l1]) simp
qed

theorem partial_request_reparsed_witness:
  "\<exists>l1. server_onMessage web_net router_new 7 3 0 1 (web_loop ''GE'' ctx_new) = Inr l1 \<and>
     server_onMessage web_net router_new 7 3 0 1 (web_loop ''GET'' (ctx_of 0 l1)) =
       obind (parseRequest ''GEGET'' True parser_new)
         (after_parse web_net router_new 7 3 0 (server_onMessage web_net router_new 7 3 0 0) (web_loop ''GET'' (ctx_of 0 l1)))"
proof -
  have recv: "recv_bytes 0 (web_loop ''GE'' ctx_new) = Inr ''GE''" by (rule web_recv) simp
  have ctx: "hc_parser (ctx_of 0 (web_loop ''GE'' ctx_new)) = parser_new" by (simp add: ctx_new_def)
  have "fst (projr (parseRequest ''GE'' True parser_new)) = NotComplete" "isl (parseRequest ''GE'' True parser_new) = False" by code_simp+
  then obtain p where p: "parseRequest ''GE'' True parser_new = Inr (NotComplete, p)" by (metis sum.collapse(2) prod.collapse)
  have "recv_bytes 0 (web_loop ''GET'' x) = Inr (''GE'' @ ''T'')" for x using web_recv [of "''GET''"] by simp
  then show ?thesis
    using partial_request_reparsed [OF recv ctx p, of web_net router_new 7 3 0 0] web_access(2) by fastforce
qed

end
