(* ===== verification/Thread_Pool.thy ===== *)
theory Thread_Pool
  imports Prelude
begin

text \<open>
  \<open>ThreadPool/BaseTask.h\<close>, \<open>BaseTask.cpp\<close>, \<open>Strategy.h\<close>, \<open>ThreadPool.h\<close> and \<open>ThreadPool.tpp\<close>: a pool of
  worker threads with local queues, a shared priority queue, work stealing, dependencies between
  tasks, and a monitor that adds and removes workers.

  The pool is a state machine. A thread's place in its code is its program counter; a piece of code
  that runs under one mutex, or one atomic access, is one step. The mutex of the worker table is held
  over several steps, so its owner is part of the state; the mutexes of the queues are not, because
  each protects a single step. Tasks and workers are objects with an identity: a task is its number,
  a worker its place in the list of all workers ever made, and the worker table holds such places.
  What a submitted function returns or throws is the parameter \<open>call\<close>.
\<close>

subsection \<open>Tasks\<close>

datatype task_status = TS_DEPENDENCY | TS_PENDING | TS_RUNNING | TS_COMPLETED | TS_FAILED

record ('e, 'r) task_result =
  tr_status :: task_status
  tr_exception :: "'e option"
  tr_value :: "'r option"

text \<open>Both strategies compare one number: the arrival time, or the priority.\<close>

record base_task =
  tk_status :: task_status
  tk_unresolved :: int
  tk_dependents :: "nat list"
  tk_key :: int

definition task_new :: "int \<Rightarrow> base_task" where
  "task_new key = \<lparr>tk_status = TS_PENDING, tk_unresolved = 0, tk_dependents = [], tk_key = key\<rparr>"

definition is_ready :: "base_task \<Rightarrow> bool" where "is_ready t \<longleftrightarrow> tk_status t = TS_PENDING"

text \<open>The two comparison objects; \<open>std::priority_queue\<close> puts on top an element no other one is above.\<close>

definition strategy_less :: "base_task \<Rightarrow> base_task \<Rightarrow> bool" where
  "strategy_less a b \<longleftrightarrow> tk_key a > tk_key b"

definition may_be_top :: "(nat \<Rightarrow> base_task) \<Rightarrow> nat \<Rightarrow> nat list \<Rightarrow> bool" where
  "may_be_top tasks t q \<longleftrightarrow> t \<in> set q \<and> (\<forall>u \<in> set q. \<not> strategy_less (tasks t) (tasks u))"

subsection \<open>Threads\<close>

datatype worker_status = WS_Init | WS_Running | WS_Stoping

text \<open>Where \<open>Worker::run\<close> is: at the loop's top, about to look into its own queue, the shared queue, to
  take the mutex of the worker table, at a victim, about to wait, with a task in hand, in
  \<open>BaseTask::execute\<close> at the dependents still to be handled, between the decrement and the test of a
  dependent's counter, about to mark and enqueue a dependent whose counter was zero, about to remove the task from the table, and returned.\<close>

datatype wpc =
    W_check | W_local | W_global | W_steal | W_stealing nat | W_wait
  | W_have nat | W_deps nat "nat list" | W_test nat "nat list" nat | W_store nat "nat list" nat | W_dereg nat | W_exit

record worker =
  lq :: "nat list"
  w_id :: nat
  w_status :: worker_status
  w_pc :: wpc

definition worker_new :: "nat \<Rightarrow> worker" where
  "worker_new i = \<lparr>lq = [], w_id = i, w_status = WS_Init, w_pc = W_check\<rparr>"

text \<open>A thread that uses the pool: in \<open>submit\<close> before \<open>try_add_task\<close>, at a worker of its loop before the
  test of the queue's size and before the push, before the push to the shared queue; between the two
  halves of \<open>add_dependency\<close>; waiting for the monitor, stopping and joining the workers in \<open>shutdown\<close>.\<close>

datatype cpc =
    C_idle | C_ready nat | C_adding nat nat | C_push nat nat | C_global nat | C_dep nat nat | C_monitor | C_stop nat | C_join nat

text \<open>The monitor in \<open>Adjust_Worker_Strategy\<close>: at a worker of its loop, joining one it removes, moving
  that one's tasks to the shared queue, at the test of the shared queue's size, in \<open>add_worker\<close>.\<close>

datatype mpc = M_idle | M_scan nat nat | M_join nat nat nat | M_requeue nat nat nat | M_size nat | M_add

datatype mutex_owner = O_client nat | O_worker nat | O_monitor

record ('e, 'r) pool =
  p_objs :: "worker list"
  p_slots :: "nat option list"
  p_wmutex :: "mutex_owner option"
  p_queue :: "nat list"
  p_tasks :: "nat \<Rightarrow> base_task"
  p_all :: "nat \<Rightarrow> bool"
  p_counter :: nat
  p_results :: "nat \<Rightarrow> ('e, 'r) task_result option"
  p_runs :: "nat list"
  p_crashed :: bool
  p_clients :: "cpc list"
  p_mon :: mpc
  p_running :: bool
  p_min :: nat
  p_max :: nat

definition queue_capacity :: nat where "queue_capacity = 2"

subsection \<open>Parts of the state\<close>

definition on_obj :: "nat \<Rightarrow> (worker \<Rightarrow> worker) \<Rightarrow> ('e, 'r) pool \<Rightarrow> ('e, 'r) pool" where
  "on_obj w f s = s\<lparr>p_objs := (p_objs s)[w := f (p_objs s ! w)]\<rparr>"

definition go :: "nat \<Rightarrow> wpc \<Rightarrow> ('e, 'r) pool \<Rightarrow> ('e, 'r) pool" where
  "go w pc = on_obj w (\<lambda>x. x\<lparr>w_pc := pc\<rparr>)"

definition set_client :: "nat \<Rightarrow> cpc \<Rightarrow> ('e, 'r) pool \<Rightarrow> ('e, 'r) pool" where
  "set_client j pc s = s\<lparr>p_clients := (p_clients s)[j := pc]\<rparr>"

definition on_task :: "nat \<Rightarrow> (base_task \<Rightarrow> base_task) \<Rightarrow> ('e, 'r) pool \<Rightarrow> ('e, 'r) pool" where
  "on_task t f s = s\<lparr>p_tasks := (p_tasks s)(t := f (p_tasks s t))\<rparr>"

definition entry :: "nat \<Rightarrow> nat option list \<Rightarrow> nat option" where
  "entry k xs = (if k < length xs then xs ! k else None)"

definition slot :: "nat \<Rightarrow> ('e, 'r) pool \<Rightarrow> nat option" where
  "slot k s = entry k (p_slots s)"

definition crash :: "('e, 'r) pool \<Rightarrow> ('e, 'r) pool" where "crash s = s\<lparr>p_crashed := True\<rparr>"

definition lock :: "mutex_owner \<Rightarrow> ('e, 'r) pool \<Rightarrow> ('e, 'r) pool option" where
  "lock o1 s = (if p_wmutex s = None then Some (s\<lparr>p_wmutex := Some o1\<rparr>) else None)"

definition unlock :: "('e, 'r) pool \<Rightarrow> ('e, 'r) pool" where "unlock s = s\<lparr>p_wmutex := None\<rparr>"

subsection \<open>The task table and the shared queue\<close>

definition register_task :: "nat \<Rightarrow> ('e, 'r) pool \<Rightarrow> ('e, 'r) pool" where
  "register_task t s = s\<lparr>p_all := (p_all s)(t := True)\<rparr>"

definition deregister_task :: "nat \<Rightarrow> ('e, 'r) pool \<Rightarrow> ('e, 'r) pool" where
  "deregister_task t s = s\<lparr>p_all := (p_all s)(t := False)\<rparr>"

definition enqueue_task :: "nat \<Rightarrow> ('e, 'r) pool \<Rightarrow> ('e, 'r) pool" where
  "enqueue_task t s = s\<lparr>p_queue := p_queue s @ [t]\<rparr>"

text \<open>\<open>generate_id\<close> and \<open>make_shared\<close>: a new task with the next number.\<close>

definition make_task :: "(base_task \<Rightarrow> base_task) \<Rightarrow> int \<Rightarrow> ('e, 'r) pool \<Rightarrow> nat \<times> ('e, 'r) pool" where
  "make_task f key s =
     (let t = p_counter s + 1 in (t, on_task t (\<lambda>_. f (task_new key)) (s\<lparr>p_counter := t\<rparr>)))"

text \<open>The closure \<open>submit\<close> makes: the result or the exception goes into the promise; a second
  \<open>set_value\<close> throws, also from the handler, and nothing catches it.\<close>

definition task_function :: "(nat \<Rightarrow> 'e + 'r) \<Rightarrow> nat \<Rightarrow> ('e, 'r) pool \<Rightarrow> ('e, 'r) pool" where
  "task_function call t s =
     (let s = s\<lparr>p_runs := p_runs s @ [t]\<rparr> in
      if p_results s t \<noteq> None then crash s
      else s\<lparr>p_results := (p_results s)(t \<mapsto> (case call t of
             Inr v \<Rightarrow> \<lparr>tr_status = TS_COMPLETED, tr_exception = None, tr_value = Some v\<rparr>
           | Inl e \<Rightarrow> \<lparr>tr_status = TS_FAILED, tr_exception = Some e, tr_value = None\<rparr>))\<rparr>)"

subsection \<open>Workers\<close>

definition worker_stop :: "nat \<Rightarrow> ('e, 'r) pool \<Rightarrow> ('e, 'r) pool" where
  "worker_stop w = on_obj w (\<lambda>x. x\<lparr>w_status := WS_Stoping\<rparr>)"

text \<open>\<open>try_steal_task\<close> at the victim k, with the mutex of the table held; the victim's mutex may be
  taken, then the try fails. The last entry of the victim's queue is the one stolen.\<close>

definition try_steal_task :: "bool \<Rightarrow> nat \<Rightarrow> nat \<Rightarrow> ('e, 'r) pool \<Rightarrow> ('e, 'r) pool" where
  "try_steal_task busy w k s =
     (if k < length (p_slots s) then
        (case p_slots s ! k of
           None \<Rightarrow> go w (W_stealing (k + 1)) s
         | Some v \<Rightarrow>
             if k = w_id (p_objs s ! w) \<or> busy \<or> lq (p_objs s ! v) = [] then go w (W_stealing (k + 1)) s
             else go w (W_have (last (lq (p_objs s ! v)))) (unlock (on_obj v (\<lambda>x. x\<lparr>lq := butlast (lq x)\<rparr>) s)))
      else go w W_wait (unlock s))"

text \<open>\<open>BaseTask::execute\<close> after the function: the dependents, in any order (a set of addresses).\<close>

definition handle_dependent :: "nat \<Rightarrow> nat \<Rightarrow> nat list \<Rightarrow> nat \<Rightarrow> ('e, 'r) pool \<Rightarrow> ('e, 'r) pool" where
  "handle_dependent w t rem d s =
     (if tk_status (p_tasks s d) \<noteq> TS_DEPENDENCY then crash s
      else go w (W_test t (remove1 d rem) d) (on_task d (\<lambda>x. x\<lparr>tk_unresolved := tk_unresolved x - 1\<rparr>) s))"

text \<open>The next step of a worker that needs no choice.\<close>

definition worker_run :: "(nat \<Rightarrow> 'e + 'r) \<Rightarrow> bool \<Rightarrow> nat \<Rightarrow> ('e, 'r) pool \<Rightarrow> ('e, 'r) pool option" where
  "worker_run call busy w s = (case w_pc (p_objs s ! w) of
     W_check \<Rightarrow> Some (go w (if w_status (p_objs s ! w) = WS_Stoping then W_exit else W_local) s)
   | W_local \<Rightarrow> Some (case lq (p_objs s ! w) of
        [] \<Rightarrow> go w W_global s
      | t # ts \<Rightarrow> go w (W_have t) (on_obj w (\<lambda>x. x\<lparr>lq := ts\<rparr>) s))
   | W_global \<Rightarrow> if p_queue s = [] then Some (go w W_steal s) else None
   | W_steal \<Rightarrow> map_option (go w (W_stealing 0)) (lock (O_worker w) s)
   | W_stealing k \<Rightarrow> Some (try_steal_task busy w k s)
   | W_wait \<Rightarrow> Some (go w W_check s)
   | W_have t \<Rightarrow> Some (go w (W_deps t (tk_dependents (p_tasks s t))) (task_function call t s))
   | W_deps t rem \<Rightarrow> if rem = [] then Some (go w (W_dereg t) s) else None
   | W_test t rem d \<Rightarrow> Some (go w (if tk_unresolved (p_tasks s d) = 0 then W_store t rem d else W_deps t rem) s)
   | W_store t rem d \<Rightarrow> Some (go w (W_deps t rem) (enqueue_task d (on_task d (\<lambda>x. x\<lparr>tk_status := TS_PENDING\<rparr>) s)))
   | W_dereg t \<Rightarrow> Some (go w W_check (deregister_task t s))
   | W_exit \<Rightarrow> None)"

text \<open>\<open>dequeue_task\<close> of a worker: the task on top of the shared queue.\<close>

definition dequeue_task :: "nat \<Rightarrow> nat \<Rightarrow> ('e, 'r) pool \<Rightarrow> ('e, 'r) pool option" where
  "dequeue_task w t s =
     (if w_pc (p_objs s ! w) = W_global \<and> may_be_top (p_tasks s) t (p_queue s)
      then Some (go w (W_have t) (s\<lparr>p_queue := remove1 t (p_queue s)\<rparr>)) else None)"

definition next_dependent :: "nat \<Rightarrow> nat \<Rightarrow> ('e, 'r) pool \<Rightarrow> ('e, 'r) pool option" where
  "next_dependent w d s = (case w_pc (p_objs s ! w) of
     W_deps t rem \<Rightarrow> if d \<in> set rem then Some (handle_dependent w t rem d s) else None
   | _ \<Rightarrow> None)"

subsection \<open>Users of the pool\<close>

text \<open>\<open>try_push_task\<close>: the test of the size, then the push.\<close>

definition try_push_task :: "nat \<Rightarrow> ('e, 'r) pool \<Rightarrow> bool" where
  "try_push_task w s \<longleftrightarrow> \<not> length (lq (p_objs s ! w)) \<ge> queue_capacity"

definition push_local :: "nat \<Rightarrow> nat \<Rightarrow> ('e, 'r) pool \<Rightarrow> ('e, 'r) pool" where
  "push_local w t = on_obj w (\<lambda>x. x\<lparr>lq := lq x @ [t]\<rparr>)"

definition try_add_task :: "nat \<Rightarrow> nat \<Rightarrow> nat \<Rightarrow> ('e, 'r) pool \<Rightarrow> ('e, 'r) pool" where
  "try_add_task j t k s =
     (if k < length (p_slots s) then
        (case p_slots s ! k of
           Some w \<Rightarrow> if try_push_task w s then set_client j (C_push t k) s else set_client j (C_adding t (k + 1)) s
         | None \<Rightarrow> set_client j (C_adding t (k + 1)) s)
      else set_client j (C_global t) (unlock s))"

definition pool_submit :: "nat \<Rightarrow> int \<Rightarrow> ('e, 'r) pool \<Rightarrow> ('e, 'r) pool" where
  "pool_submit j key s =
     (let (t, s) = make_task (\<lambda>x. x) key s; s = register_task t s
      in if is_ready (p_tasks s t) then set_client j (C_ready t) s else s)"

definition dep_submit :: "nat \<Rightarrow> int \<Rightarrow> ('e, 'r) pool \<Rightarrow> ('e, 'r) pool" where
  "dep_submit j key s =
     (let (t, s) = make_task (\<lambda>x. x\<lparr>tk_status := TS_DEPENDENCY\<rparr>) key s; s = register_task t s
      in if is_ready (p_tasks s t) then set_client j (C_ready t) s else s)"

text \<open>\<open>all_tasks[id]\<close> of an unknown task is a null pointer, which is then used.\<close>

definition pool_add_dependency :: "nat \<Rightarrow> nat \<Rightarrow> nat \<Rightarrow> ('e, 'r) pool \<Rightarrow> ('e, 'r) pool" where
  "pool_add_dependency j a b s =
     (if \<not> p_all s a then crash s
      else let s = on_task a (\<lambda>x. x\<lparr>tk_unresolved := tk_unresolved x + 1\<rparr>) s
           in if \<not> p_all s b then crash s else set_client j (C_dep a b) s)"

text \<open>\<open>shutdown_workers\<close>: stop every worker of the table, then wait for every one to return.\<close>

definition shutdown_workers :: "nat \<Rightarrow> ('e, 'r) pool \<Rightarrow> ('e, 'r) pool option" where
  "shutdown_workers j s = (case p_clients s ! j of
     C_stop k \<Rightarrow>
       if k < length (p_slots s)
       then Some (set_client j (C_stop (k + 1)) (case p_slots s ! k of Some w \<Rightarrow> worker_stop w s | None \<Rightarrow> s))
       else Some (set_client j (C_join 0) s)
   | C_join k \<Rightarrow>
       if k < length (p_slots s)
       then (case p_slots s ! k of
               Some w \<Rightarrow> if w_pc (p_objs s ! w) = W_exit then Some (set_client j (C_join (k + 1)) s) else None
             | None \<Rightarrow> Some (set_client j (C_join (k + 1)) s))
       else Some (set_client j C_idle s)
   | _ \<Rightarrow> None)"

text \<open>\<open>shutdown\<close> first ends the monitor's thread.\<close>

definition pool_shutdown :: "nat \<Rightarrow> ('e, 'r) pool \<Rightarrow> ('e, 'r) pool" where
  "pool_shutdown j s = set_client j C_monitor (s\<lparr>p_running := False\<rparr>)"

definition client_run :: "nat \<Rightarrow> ('e, 'r) pool \<Rightarrow> ('e, 'r) pool option" where
  "client_run j s = (case p_clients s ! j of
     C_idle \<Rightarrow> None
   | C_ready t \<Rightarrow> map_option (set_client j (C_adding t 0)) (lock (O_client j) s)
   | C_adding t k \<Rightarrow> Some (try_add_task j t k s)
   | C_push t k \<Rightarrow> (case slot k s of
        Some w \<Rightarrow> Some (set_client j C_idle (unlock (push_local w t s)))
      | None \<Rightarrow> None)
   | C_global t \<Rightarrow> Some (set_client j C_idle (enqueue_task t s))
   | C_dep a b \<Rightarrow> Some (set_client j C_idle (on_task b (\<lambda>x. x\<lparr>tk_dependents := List.insert a (tk_dependents x)\<rparr>) s))
   | C_monitor \<Rightarrow> if p_mon s = M_idle then Some (set_client j (C_stop 0) s) else None
   | C_stop k \<Rightarrow> shutdown_workers j s
   | C_join k \<Rightarrow> shutdown_workers j s)"

subsection \<open>The monitor\<close>

text \<open>\<open>add_worker\<close>: the first empty place of the table, or a new one; the new thread starts at once.\<close>

definition free_slot :: "nat option list \<Rightarrow> nat" where
  "free_slot xs = length (takeWhile (\<lambda>x. x \<noteq> None) xs)"

definition add_worker :: "('e, 'r) pool \<Rightarrow> ('e, 'r) pool" where
  "add_worker s =
     (let i = free_slot (p_slots s); w = length (p_objs s) in
      s\<lparr>p_objs := p_objs s @ [worker_new i],
        p_slots := (if i = length (p_slots s) then p_slots s @ [Some w] else (p_slots s)[i := Some w])\<rparr>)"

text \<open>\<open>remove_worker\<close> up to the join; the join ends when the worker's thread has returned.\<close>

definition remove_worker :: "nat \<Rightarrow> nat \<Rightarrow> ('e, 'r) pool \<Rightarrow> ('e, 'r) pool" where
  "remove_worker n i s = (case slot i s of
     None \<Rightarrow> s
   | Some w \<Rightarrow> worker_stop w (s\<lparr>p_slots := (p_slots s)[i := None], p_mon := M_join i n w\<rparr>))"

text \<open>\<open>Adjust_Worker_Strategy\<close>; \<open>idle\<close> is the outcome of the test of the worker's idle time. The table's
  mutex is held from the start to the end of the loop.\<close>

definition adjust_start :: "('e, 'r) pool \<Rightarrow> ('e, 'r) pool option" where
  "adjust_start s =
     (if p_running s \<and> p_mon s = M_idle
      then map_option (\<lambda>s. s\<lparr>p_mon := M_scan 0 (length (p_slots s))\<rparr>) (lock O_monitor s) else None)"

definition monitor_run :: "bool \<Rightarrow> ('e, 'r) pool \<Rightarrow> ('e, 'r) pool option" where
  "monitor_run idle s = (case p_mon s of
     M_idle \<Rightarrow> None
   | M_scan i n \<Rightarrow>
       if i < n then
         (case slot i s of
            None \<Rightarrow> Some (s\<lparr>p_mon := M_scan (i + 1) n\<rparr>)
          | Some w \<Rightarrow> if idle \<and> n > p_min s then Some (remove_worker n i s) else Some (s\<lparr>p_mon := M_scan (i + 1) n\<rparr>))
       else Some (unlock (s\<lparr>p_mon := M_size n\<rparr>))
   | M_join i n w \<Rightarrow> if w_pc (p_objs s ! w) = W_exit then Some (s\<lparr>p_mon := M_requeue i n w\<rparr>) else None
   | M_requeue i n w \<Rightarrow> (case lq (p_objs s ! w) of
        [] \<Rightarrow> Some (s\<lparr>p_mon := M_scan (i + 1) n\<rparr>)
      | t # ts \<Rightarrow> Some (enqueue_task t (on_obj w (\<lambda>x. x\<lparr>lq := ts\<rparr>) s)))
   | M_size n \<Rightarrow> Some (s\<lparr>p_mon := (if length (p_queue s) > 100 \<and> n < p_max s then M_add else M_idle)\<rparr>)
   | M_add \<Rightarrow> if p_wmutex s = None then Some (add_worker (s\<lparr>p_mon := M_idle\<rparr>)) else None)"

subsection \<open>The pool\<close>

definition pool_new :: "nat \<Rightarrow> nat \<Rightarrow> nat \<Rightarrow> ('e, 'r) pool" where
  "pool_new clients min_threads max_threads =
     (let m = max min_threads 1 in
      (add_worker ^^ m) \<lparr>p_objs = [], p_slots = [], p_wmutex = None, p_queue = [], p_tasks = (\<lambda>_. task_new 0),
        p_all = (\<lambda>_. False), p_counter = 0, p_results = (\<lambda>_. None), p_runs = [], p_crashed = False,
        p_clients = replicate clients C_idle, p_mon = M_idle, p_running = True, p_min = m, p_max = max max_threads min_threads\<rparr>)"

datatype act =
    A_submit nat int | A_dep_submit nat int | A_depend nat nat nat | A_shutdown nat | A_client nat
  | A_worker nat bool | A_take nat nat | A_dependent nat nat | A_adjust | A_monitor bool

definition idle_client :: "nat \<Rightarrow> ('e, 'r) pool \<Rightarrow> bool" where
  "idle_client j s \<longleftrightarrow> j < length (p_clients s) \<and> p_clients s ! j = C_idle"

fun pool_do :: "(nat \<Rightarrow> 'e + 'r) \<Rightarrow> act \<Rightarrow> ('e, 'r) pool \<Rightarrow> ('e, 'r) pool option" where
  "pool_do call (A_submit j key) s = (if idle_client j s then Some (pool_submit j key s) else None)"
| "pool_do call (A_dep_submit j key) s = (if idle_client j s then Some (dep_submit j key s) else None)"
| "pool_do call (A_depend j a b) s = (if idle_client j s then Some (pool_add_dependency j a b s) else None)"
| "pool_do call (A_shutdown j) s = (if idle_client j s then Some (pool_shutdown j s) else None)"
| "pool_do call (A_client j) s = (if j < length (p_clients s) then client_run j s else None)"
| "pool_do call (A_worker w busy) s = (if w < length (p_objs s) then worker_run call busy w s else None)"
| "pool_do call (A_take w t) s = (if w < length (p_objs s) then dequeue_task w t s else None)"
| "pool_do call (A_dependent w d) s = (if w < length (p_objs s) then next_dependent w d s else None)"
| "pool_do call A_adjust s = adjust_start s"
| "pool_do call (A_monitor idle) s = monitor_run idle s"

text \<open>Threads run until the program is aborted.\<close>

definition pool_step :: "(nat \<Rightarrow> 'e + 'r) \<Rightarrow> act \<Rightarrow> ('e, 'r) pool \<Rightarrow> ('e, 'r) pool option" where
  "pool_step call a s = (if p_crashed s then None else pool_do call a s)"

fun pool_run :: "(nat \<Rightarrow> 'e + 'r) \<Rightarrow> act list \<Rightarrow> ('e, 'r) pool \<Rightarrow> ('e, 'r) pool option" where
  "pool_run call [] s = Some s"
| "pool_run call (a # as) s = Option.bind (pool_step call a s) (pool_run call as)"

end
