(* ===== verification/Thread_Pool_Props.thy ===== *)
theory Thread_Pool_Props
  imports Thread_Pool
begin

text \<open>
  Invariants of the thread pool under every interleaving of its threads: the mutex of the worker table
  is held by one thread, local queues stay within their capacity, no task is lost or run twice as long
  as no dependencies are used; and the two ways in which the pool fails.
\<close>

subsection \<open>Access to the parts of the state\<close>

lemma nth_upd: "k < length xs \<Longrightarrow> xs[j := x] ! k = (if j = k then x else xs ! k)"
  by (cases "j < length xs") (auto simp: nth_list_update)

named_theorems pool_defs \<open>the updates a step is made of\<close>

declare on_obj_def [pool_defs] go_def [pool_defs] set_client_def [pool_defs] on_task_def [pool_defs]
  crash_def [pool_defs] unlock_def [pool_defs] register_task_def [pool_defs] deregister_task_def [pool_defs]
  enqueue_task_def [pool_defs] worker_stop_def [pool_defs] push_local_def [pool_defs]

subsection \<open>The mutex of the worker table\<close>

fun client_holds :: "cpc \<Rightarrow> bool" where
  "client_holds (C_adding t k) = True"
| "client_holds (C_push t k) = True"
| "client_holds _ = False"

fun worker_holds :: "wpc \<Rightarrow> bool" where
  "worker_holds (W_stealing k) = True"
| "worker_holds _ = False"

fun mon_holds :: "mpc \<Rightarrow> bool" where
  "mon_holds (M_scan i n) = True"
| "mon_holds (M_join i n w) = True"
| "mon_holds (M_requeue i n w) = True"
| "mon_holds _ = False"

fun mon_worker :: "mpc \<Rightarrow> nat option" where
  "mon_worker (M_join i n w) = Some w"
| "mon_worker (M_requeue i n w) = Some w"
| "mon_worker _ = None"

definition mutex_inv :: "('e, 'r) pool \<Rightarrow> bool" where
  "mutex_inv s \<longleftrightarrow>
     (\<forall>j < length (p_clients s). client_holds (p_clients s ! j) \<longrightarrow> p_wmutex s = Some (O_client j)) \<and>
     (\<forall>w < length (p_objs s). worker_holds (w_pc (p_objs s ! w)) \<longrightarrow> p_wmutex s = Some (O_worker w)) \<and>
     (mon_holds (p_mon s) \<longrightarrow> p_wmutex s = Some O_monitor)"

definition slots_inv :: "('e, 'r) pool \<Rightarrow> bool" where
  "slots_inv s \<longleftrightarrow> (\<forall>k v. slot k s = Some v \<longrightarrow> v < length (p_objs s)) \<and>
     (\<forall>w. mon_worker (p_mon s) = Some w \<longrightarrow> w < length (p_objs s))"

definition lq_of :: "nat \<Rightarrow> ('e, 'r) pool \<Rightarrow> nat list" where "lq_of v s = lq (p_objs s ! v)"

definition capacity_inv :: "('e, 'r) pool \<Rightarrow> bool" where
  "capacity_inv s \<longleftrightarrow>
     (\<forall>v < length (p_objs s). length (lq_of v s) \<le> queue_capacity) \<and>
     (\<forall>j < length (p_clients s). \<forall>t k v. p_clients s ! j = C_push t k \<longrightarrow> slot k s = Some v \<longrightarrow>
        length (lq_of v s) < queue_capacity)"

definition pool_inv :: "('e, 'r) pool \<Rightarrow> bool" where
  "pool_inv s \<longleftrightarrow> mutex_inv s \<and> slots_inv s \<and> capacity_inv s"

lemma pool_invD:
  assumes "pool_inv s"
  shows "j < length (p_clients s) \<Longrightarrow> client_holds (p_clients s ! j) \<Longrightarrow> p_wmutex s = Some (O_client j)"
    "w < length (p_objs s) \<Longrightarrow> worker_holds (w_pc (p_objs s ! w)) \<Longrightarrow> p_wmutex s = Some (O_worker w)"
    "mon_holds (p_mon s) \<Longrightarrow> p_wmutex s = Some O_monitor"
    "slot k s = Some v \<Longrightarrow> v < length (p_objs s)"
    "mon_worker (p_mon s) = Some w \<Longrightarrow> w < length (p_objs s)"
    "v < length (p_objs s) \<Longrightarrow> length (lq_of v s) \<le> queue_capacity"
    "j < length (p_clients s) \<Longrightarrow> p_clients s ! j = C_push t k \<Longrightarrow> slot k s = Some v \<Longrightarrow> length (lq_of v s) < queue_capacity"
  using assms unfolding pool_inv_def mutex_inv_def slots_inv_def capacity_inv_def by blast+

lemma pool_invI:
  assumes "\<And>j. j < length (p_clients s) \<Longrightarrow> client_holds (p_clients s ! j) \<Longrightarrow> p_wmutex s = Some (O_client j)"
    "\<And>w. w < length (p_objs s) \<Longrightarrow> worker_holds (w_pc (p_objs s ! w)) \<Longrightarrow> p_wmutex s = Some (O_worker w)"
    "mon_holds (p_mon s) \<Longrightarrow> p_wmutex s = Some O_monitor"
    "\<And>k v. slot k s = Some v \<Longrightarrow> v < length (p_objs s)"
    "\<And>w. mon_worker (p_mon s) = Some w \<Longrightarrow> w < length (p_objs s)"
    "\<And>v. v < length (p_objs s) \<Longrightarrow> length (lq_of v s) \<le> queue_capacity"
    "\<And>j t k v. j < length (p_clients s) \<Longrightarrow> p_clients s ! j = C_push t k \<Longrightarrow> slot k s = Some v \<Longrightarrow> length (lq_of v s) < queue_capacity"
  shows "pool_inv s"
  using assms unfolding pool_inv_def mutex_inv_def slots_inv_def capacity_inv_def by blast

text \<open>Reading the state after an update.\<close>

named_theorems pool_access \<open>reading the parts of a pool after an update\<close>

lemma go_access [pool_access]:
  "p_clients (go w pc s) = p_clients s" "p_wmutex (go w pc s) = p_wmutex s" "p_mon (go w pc s) = p_mon s"
  "slot k (go w pc s) = slot k s" "length (p_objs (go w pc s)) = length (p_objs s)"
  "v < length (p_objs s) \<Longrightarrow> w_pc (p_objs (go w pc s) ! v) = (if v = w then pc else w_pc (p_objs s ! v))"
  "lq_of v (go w pc s) = lq_of v s"
  by (simp_all add: pool_defs slot_def lq_of_def nth_upd)
    (metis list_update_beyond not_le nth_list_update worker.select_convs(1) worker.update_convs(4) worker.surjective)+

lemma obj_access [pool_access]:
  "p_clients (on_obj w f s) = p_clients s" "p_wmutex (on_obj w f s) = p_wmutex s" "p_mon (on_obj w f s) = p_mon s"
  "slot k (on_obj w f s) = slot k s" "length (p_objs (on_obj w f s)) = length (p_objs s)"
  "v < length (p_objs s) \<Longrightarrow> p_objs (on_obj w f s) ! v = (if v = w then f (p_objs s ! v) else p_objs s ! v)"
  by (simp_all add: pool_defs slot_def nth_upd)

lemma client_access [pool_access]:
  "p_objs (set_client j pc s) = p_objs s" "p_wmutex (set_client j pc s) = p_wmutex s" "p_mon (set_client j pc s) = p_mon s"
  "slot k (set_client j pc s) = slot k s" "length (p_clients (set_client j pc s)) = length (p_clients s)"
  "i < length (p_clients s) \<Longrightarrow> p_clients (set_client j pc s) ! i = (if i = j then pc else p_clients s ! i)"
  "lq_of v (set_client j pc s) = lq_of v s"
  by (simp_all add: pool_defs slot_def lq_of_def nth_upd)

lemma unlock_access [pool_access]:
  "p_objs (unlock s) = p_objs s" "p_wmutex (unlock s) = None" "p_mon (unlock s) = p_mon s"
  "slot k (unlock s) = slot k s" "p_clients (unlock s) = p_clients s" "lq_of v (unlock s) = lq_of v s"
  by (simp_all add: pool_defs slot_def lq_of_def)

text \<open>The updates that keep the invariant; the ones that take or give back the mutex come with their owner.\<close>

lemma pool_inv_cong:
  assumes "pool_inv s" "p_objs s' = p_objs s" "p_slots s' = p_slots s" "p_clients s' = p_clients s"
    "p_mon s' = p_mon s" "p_wmutex s' = p_wmutex s"
  shows "pool_inv s'"
  using assms(1) unfolding pool_inv_def mutex_inv_def slots_inv_def capacity_inv_def slot_def lq_of_def assms(2-6) .

lemma pool_inv_keep:
  assumes "pool_inv s"
  shows "pool_inv (on_task t g s)" "pool_inv (crash s)" "pool_inv (enqueue_task t s)" "pool_inv (deregister_task t s)"
    "pool_inv (register_task t s)" "pool_inv (task_function call t s)" "pool_inv (s\<lparr>p_queue := q\<rparr>)"
    "pool_inv (s\<lparr>p_counter := n\<rparr>)" "pool_inv (s\<lparr>p_running := b\<rparr>)"
  by (rule pool_inv_cong [OF assms]; simp add: pool_defs task_function_def Let_def)+

lemma pool_inv_go:
  assumes "pool_inv s" "worker_holds pc \<Longrightarrow> p_wmutex s = Some (O_worker w)"
  shows "pool_inv (go w pc s)"
  by (rule pool_invI) (use assms(2) in \<open>auto simp: pool_access split: if_splits dest: pool_invD [OF assms(1)]\<close>)

lemma pool_inv_obj:
  assumes "pool_inv s" "\<And>x. w_pc (f x) = w_pc x" "length (lq (f (p_objs s ! w))) \<le> length (lq_of w s)"
  shows "pool_inv (on_obj w f s)"
proof -
  have len: "v < length (p_objs s) \<Longrightarrow> length (lq_of v (on_obj w f s)) \<le> length (lq_of v s)" for v
    using assms(3) by (simp add: lq_of_def pool_access)
  show ?thesis
    by (rule pool_invI)
      (use assms(2) in \<open>auto simp: pool_access split: if_splits dest: pool_invD [OF assms(1)]
        intro: le_trans [OF len] le_less_trans [OF len]\<close>)
qed

lemma pool_inv_client:
  assumes "pool_inv s" "client_holds pc \<Longrightarrow> p_wmutex s = Some (O_client j)"
    and "\<And>t k v. pc = C_push t k \<Longrightarrow> slot k s = Some v \<Longrightarrow> length (lq_of v s) < queue_capacity"
  shows "pool_inv (set_client j pc s)"
  by (rule pool_invI) (use assms(2,3) in \<open>auto simp: pool_access split: if_splits dest: pool_invD [OF assms(1)]\<close>)

lemma pool_inv_lock:
  assumes "pool_inv s" "lock o1 s = Some s'"
  shows "pool_inv s'" "p_wmutex s' = Some o1"
proof -
  have s: "p_wmutex s = None" "s' = s\<lparr>p_wmutex := Some o1\<rparr>" using assms(2) by (auto simp: lock_def split: if_splits)
  show "pool_inv s'"
    by (rule pool_invI) (use s in \<open>auto simp: slot_def lq_of_def dest: pool_invD [OF assms(1), unfolded slot_def lq_of_def]\<close>)
  show "p_wmutex s' = Some o1" using s by simp
qed

lemma pool_inv_go_unlock:
  assumes "pool_inv s" "p_wmutex s = Some (O_worker w)" "\<not> worker_holds pc"
  shows "pool_inv (go w pc (unlock s))"
  by (rule pool_invI) (use assms(2,3) in \<open>auto simp: pool_access split: if_splits dest: pool_invD [OF assms(1)]\<close>)

lemma pool_inv_client_unlock:
  assumes "pool_inv s" "p_wmutex s = Some (O_client j)" "\<not> client_holds pc"
  shows "pool_inv (set_client j pc (unlock s))"
  by (rule pool_invI) (use assms(2,3) in \<open>auto simp: pool_access split: if_splits dest: pool_invD [OF assms(1)]\<close>)

subsection \<open>Every step keeps the invariant\<close>

lemma pool_inv_steal:
  assumes "pool_inv s" "p_wmutex s = Some (O_worker w)"
  shows "pool_inv (try_steal_task busy w k s)"
proof -
  have "pool_inv (on_obj v (\<lambda>x. x\<lparr>lq := butlast (lq x)\<rparr>) s)" for v
    by (rule pool_inv_obj [OF assms(1)]) (simp_all add: lq_of_def)
  then show ?thesis
    using assms(2) by (auto simp: try_steal_task_def pool_access split: option.split intro!: pool_inv_go_unlock assms(1) intro: pool_inv_go)
qed

lemma pool_inv_worker:
  assumes inv: "pool_inv s" and w: "w < length (p_objs s)" and run: "worker_run call busy w s = Some s'"
  shows "pool_inv s'"
proof (cases "w_pc (p_objs s ! w)")
  case W_local
  have "lq (p_objs s ! w) = t # ts \<Longrightarrow> pool_inv (on_obj w (\<lambda>x. x\<lparr>lq := ts\<rparr>) s)" for t ts
    by (rule pool_inv_obj [OF inv]) (simp_all add: lq_of_def)
  then show ?thesis using W_local run by (auto simp: worker_run_def split: list.splits intro!: pool_inv_go inv)
next
  case W_steal
  then show ?thesis using run pool_inv_lock [OF inv] by (auto simp: worker_run_def intro!: pool_inv_go)
next
  case (W_stealing k)
  then show ?thesis using run pool_inv_steal [OF inv pool_invD(2) [OF inv w]] by (auto simp: worker_run_def)
qed (use run in \<open>auto simp: worker_run_def split: if_splits intro!: pool_inv_go pool_inv_keep inv\<close>)

lemma pool_inv_take:
  assumes "pool_inv s" "dequeue_task w t s = Some s'"
  shows "pool_inv s'"
  using assms(2) by (auto simp: dequeue_task_def split: if_splits intro!: pool_inv_go pool_inv_keep assms(1))

lemma pool_inv_dependent:
  assumes "pool_inv s" "next_dependent w d s = Some s'"
  shows "pool_inv s'"
  using assms(2)
  by (auto simp: next_dependent_def handle_dependent_def split: if_splits wpc.splits intro!: pool_inv_go pool_inv_keep assms(1))

lemma pool_inv_push:
  assumes "pool_inv s" "j < length (p_clients s)" "p_clients s ! j = C_push t k" "slot k s = Some w"
  shows "pool_inv (set_client j C_idle (unlock (push_local w t s)))"
proof -
  note own = pool_invD(1) [OF assms(1,2)]
  have "length (lq_of w s) < queue_capacity" by (rule pool_invD(7) [OF assms])
  moreover have "lq_of v (push_local w t s) = (if v = w then lq_of v s @ [t] else lq_of v s)" if "v < length (p_objs s)" for v
    using that by (simp add: lq_of_def push_local_def pool_access)
  ultimately have "length (lq_of v (push_local w t s)) \<le> queue_capacity" if "v < length (p_objs s)" for v
    using that pool_invD(6) [OF assms(1)] by simp
  then show ?thesis
    by (intro pool_invI)
      (use assms(3) own in \<open>auto simp: pool_access push_local_def split: if_splits dest: pool_invD [OF assms(1)]\<close>)
qed

lemma pool_inv_add:
  assumes "pool_inv s" "j < length (p_clients s)" "p_wmutex s = Some (O_client j)"
  shows "pool_inv (try_add_task j t k s)"
proof -
  have "pool_inv (set_client j (C_push t k) s)" if "k < length (p_slots s)" "p_slots s ! k = Some w" "try_push_task w s" for w
    by (rule pool_inv_client [OF assms(1)]) (use that assms(3) in \<open>auto simp: slot_def entry_def try_push_task_def lq_of_def\<close>)
  then show ?thesis
    by (auto simp: try_add_task_def assms(3) split: option.split intro!: pool_inv_client_unlock assms(1) intro: pool_inv_client)
qed

lemma pool_inv_shutdown:
  assumes "pool_inv s" "shutdown_workers j s = Some s'"
  shows "pool_inv s'"
proof -
  have "pool_inv (worker_stop w s)" for w
    unfolding worker_stop_def by (rule pool_inv_obj [OF assms(1)]) (simp_all add: lq_of_def)
  then show ?thesis
    using assms(2) by (auto simp: shutdown_workers_def split: if_splits cpc.splits option.splits intro!: pool_inv_client assms(1))
qed

lemma pool_inv_client_run:
  assumes inv: "pool_inv s" and j: "j < length (p_clients s)" and run: "client_run j s = Some s'"
  shows "pool_inv s'"
proof (cases "p_clients s ! j")
  case (C_ready t)
  then show ?thesis using run pool_inv_lock [OF inv] by (auto simp: client_run_def intro!: pool_inv_client)
next
  case (C_adding t k)
  then have "p_wmutex s = Some (O_client j)" using pool_invD(1) [OF inv j] by simp
  then show ?thesis using C_adding run pool_inv_add [OF inv j] by (auto simp: client_run_def)
next
  case (C_push t k)
  then show ?thesis using run pool_inv_push [OF inv j] by (auto simp: client_run_def split: option.splits)
next
  case (C_stop k)
  then show ?thesis using run pool_inv_shutdown [OF inv] by (simp add: client_run_def)
next
  case (C_join k)
  then show ?thesis using run pool_inv_shutdown [OF inv] by (simp add: client_run_def)
qed (use run in \<open>auto simp: client_run_def split: if_splits intro!: pool_inv_client pool_inv_keep inv\<close>)

lemma pool_inv_user:
  assumes "pool_inv s"
  shows "pool_inv (pool_submit j key s)" "pool_inv (dep_submit j key s)" "pool_inv (pool_shutdown j s)"
    "pool_inv (pool_add_dependency j a b s)"
  by (auto simp: pool_submit_def dep_submit_def pool_shutdown_def pool_add_dependency_def make_task_def Let_def
      intro!: pool_inv_client pool_inv_keep assms)

lemma takeWhile_length_le: "length (takeWhile P xs) < length xs \<Longrightarrow> \<not> P (xs ! length (takeWhile P xs))"
  using nth_length_takeWhile by blast

lemma pool_inv_add_worker:
  assumes "pool_inv s" "p_wmutex s = None"
  shows "pool_inv (add_worker s)"
proof -
  let ?s = "add_worker s" and ?n = "length (p_objs s)"
  have slot: "slot k ?s = Some v \<Longrightarrow> slot k s = Some v \<or> v = ?n" for k v
    by (auto simp: add_worker_def slot_def entry_def Let_def nth_append nth_upd split: if_splits)
  have objs: "p_objs ?s = p_objs s @ [worker_new (free_slot (p_slots s))]" "p_clients ?s = p_clients s" "p_mon ?s = p_mon s"
    "p_wmutex ?s = None" using assms(2) by (simp_all add: add_worker_def Let_def)
  have lq: "v < ?n \<Longrightarrow> lq_of v ?s = lq_of v s" "lq_of ?n ?s = []" for v
    by (simp_all add: lq_of_def objs nth_append worker_new_def)
  have none: "j < length (p_clients s) \<Longrightarrow> \<not> client_holds (p_clients s ! j)" for j using pool_invD(1) [OF assms(1)] assms(2) by auto
  show ?thesis
  proof (rule pool_invI)
    fix w assume "w < length (p_objs ?s)" "worker_holds (w_pc (p_objs ?s ! w))"
    then show "p_wmutex ?s = Some (O_worker w)"
      using pool_invD(2) [OF assms(1), of w] assms(2) objs(1) by (cases "w = ?n") (auto simp: nth_append worker_new_def)
  next
    fix k v assume "slot k ?s = Some v"
    then show "v < length (p_objs ?s)" using slot pool_invD(4) [OF assms(1), of k v] objs(1) by fastforce
  next
    fix v assume "v < length (p_objs ?s)"
    then show "length (lq_of v ?s) \<le> queue_capacity" using lq pool_invD(6) [OF assms(1), of v] objs(1) by (cases "v = ?n") auto
  next
    fix j t k v assume "j < length (p_clients ?s)" "p_clients ?s ! j = C_push t k"
    then show "length (lq_of v ?s) < queue_capacity" using none [of j] objs(2) by simp
  qed (use none objs assms(2) in \<open>auto dest: pool_invD [OF assms(1)]\<close>)
qed

lemma pool_inv_mon:
  assumes "pool_inv s" "mon_holds m \<Longrightarrow> p_wmutex s = Some O_monitor" "\<And>w. mon_worker m = Some w \<Longrightarrow> w < length (p_objs s)"
  shows "pool_inv (s\<lparr>p_mon := m\<rparr>)"
  by (rule pool_invI)
    (use assms(2,3) in \<open>auto simp: slot_def lq_of_def dest: pool_invD [OF assms(1), unfolded slot_def lq_of_def]\<close>)

lemma pool_inv_mon_unlock:
  assumes "pool_inv s" "p_wmutex s = Some O_monitor" "\<not> mon_holds m" "mon_worker m = None"
  shows "pool_inv (unlock (s\<lparr>p_mon := m\<rparr>))"
  by (rule pool_invI)
    (use assms(2,3,4) in \<open>auto simp: unlock_def slot_def lq_of_def dest: pool_invD [OF assms(1), unfolded slot_def lq_of_def]\<close>)

lemma pool_inv_slot_None:
  assumes "pool_inv s" "p_wmutex s = Some O_monitor"
  shows "pool_inv (s\<lparr>p_slots := (p_slots s)[i := None]\<rparr>)"
proof -
  have e: "entry k ((p_slots s)[i := None]) = Some v \<Longrightarrow> slot k s = Some v" for k v
    by (auto simp: entry_def slot_def nth_upd split: if_splits)
  show ?thesis
    by (rule pool_invI)
      (use assms(2) in \<open>auto simp: slot_def lq_of_def dest!: e dest: pool_invD [OF assms(1), unfolded lq_of_def]\<close>)
qed

lemma pool_inv_remove:
  assumes "pool_inv s" "p_wmutex s = Some O_monitor" "slot i s = Some w"
  shows "pool_inv (remove_worker n i s)"
proof -
  have "pool_inv (s\<lparr>p_slots := (p_slots s)[i := None], p_mon := M_join i n w\<rparr>)"
    by (rule pool_inv_mon [OF pool_inv_slot_None [OF assms(1,2)]]) (use assms(2) pool_invD(4) [OF assms(1,3)] in simp_all)
  then have "pool_inv (worker_stop w (s\<lparr>p_slots := (p_slots s)[i := None], p_mon := M_join i n w\<rparr>))"
    unfolding worker_stop_def by (rule pool_inv_obj) (simp_all add: lq_of_def)
  then show ?thesis using assms(3) by (simp add: remove_worker_def)
qed

lemma pool_inv_monitor:
  assumes inv: "pool_inv s" and run: "monitor_run idle s = Some s'"
  shows "pool_inv s'"
proof (cases "p_mon s")
  case (M_scan i n)
  then have own: "p_wmutex s = Some O_monitor" using pool_invD(3) [OF inv] by simp
  show ?thesis
    using run M_scan own
    by (auto simp: monitor_run_def split: if_splits option.splits
        intro!: pool_inv_remove pool_inv_mon_unlock inv intro: pool_inv_mon)
next
  case (M_join i n w)
  then have own: "p_wmutex s = Some O_monitor" "w < length (p_objs s)" using pool_invD(3,5) [OF inv] by simp_all
  show ?thesis using run M_join own by (auto simp: monitor_run_def split: if_splits intro!: pool_inv_mon inv)
next
  case (M_requeue i n w)
  then have own: "p_wmutex s = Some O_monitor" using pool_invD(3) [OF inv] by simp
  have "lq (p_objs s ! w) = t # ts \<Longrightarrow> pool_inv (on_obj w (\<lambda>x. x\<lparr>lq := ts\<rparr>) s)" for t ts
    by (rule pool_inv_obj [OF inv]) (simp_all add: lq_of_def)
  then show ?thesis
    using run M_requeue own by (auto simp: monitor_run_def split: list.splits intro!: pool_inv_mon pool_inv_keep inv)
next
  case (M_size n)
  then show ?thesis using run by (auto simp: monitor_run_def intro!: pool_inv_mon inv split: if_splits)
next
  case M_add
  have "pool_inv (s\<lparr>p_mon := M_idle\<rparr>)" by (rule pool_inv_mon [OF inv]) simp_all
  then show ?thesis using run M_add by (auto simp: monitor_run_def split: if_splits intro!: pool_inv_add_worker)
qed (use run in \<open>simp add: monitor_run_def\<close>)

lemma pool_inv_adjust:
  assumes inv: "pool_inv s" and run: "adjust_start s = Some s'"
  shows "pool_inv s'"
  using run pool_inv_lock [OF inv] by (auto simp: adjust_start_def split: if_splits intro!: pool_inv_mon)

lemma pool_inv_do: "pool_inv s \<Longrightarrow> pool_do call a s = Some s' \<Longrightarrow> pool_inv s'"
  by (cases a) (auto simp: pool_inv_user split: if_splits dest: pool_inv_client_run pool_inv_worker pool_inv_take
      pool_inv_dependent pool_inv_adjust pool_inv_monitor)

lemma pool_run_invariant:
  assumes "\<And>a s s'. a \<in> set as \<Longrightarrow> \<not> p_crashed s \<Longrightarrow> I s \<Longrightarrow> pool_do call a s = Some s' \<Longrightarrow> I s'"
    and "I s" "pool_run call as s = Some s'"
  shows "I s'"
  using assms
proof (induction as arbitrary: s)
  case (Cons a as)
  then obtain s1 where "pool_do call a s = Some s1" "\<not> p_crashed s" "pool_run call as s1 = Some s'"
    by (auto simp: pool_step_def bind_eq_Some_conv split: if_splits)
  with Cons show ?case by (meson list.set_intros(1,2))
qed simp

lemma funpow_invariant: "(\<And>s. I s \<Longrightarrow> I (f s)) \<Longrightarrow> I s \<Longrightarrow> I ((f ^^ n) s)"
  by (induction n) simp_all

lemma pool_new_invariant:
  assumes "\<And>s. I s \<Longrightarrow> I (add_worker s)"
    and "I \<lparr>p_objs = [], p_slots = [], p_wmutex = None, p_queue = [], p_tasks = (\<lambda>_. task_new 0),
        p_all = (\<lambda>_. False), p_counter = 0, p_results = (\<lambda>_. None), p_runs = [], p_crashed = False,
        p_clients = replicate k C_idle, p_mon = M_idle, p_running = True, p_min = max mn 1, p_max = max mx mn\<rparr>"
  shows "I (pool_new k mn mx)"
  unfolding pool_new_def Let_def by (rule funpow_invariant [where I = I, OF assms])

lemma add_worker_mutex: "p_wmutex (add_worker s) = p_wmutex s"
  by (simp add: add_worker_def Let_def)

lemma pool_inv_new: "pool_inv (pool_new k mn mx :: ('e, 'r) pool)"
proof -
  let ?I = "\<lambda>s :: ('e, 'r) pool. pool_inv s \<and> p_wmutex s = None"
  have "?I (pool_new k mn mx :: ('e, 'r) pool)"
  proof (rule pool_new_invariant [of ?I])
    show "?I (add_worker s)" if "?I s" for s :: "('e, 'r) pool" using that by (simp add: pool_inv_add_worker add_worker_mutex)
  qed (auto intro!: pool_invI simp: slot_def entry_def)
  then show ?thesis ..
qed

lemma pool_inv_run:
  assumes "pool_run call as (pool_new k mn mx) = Some s"
  shows "pool_inv s"
  using pool_inv_do pool_inv_new assms by (rule pool_run_invariant)

subsection \<open>Where a task is\<close>

text \<open>The tasks in the hands of a worker that it has not yet run, and of a user that it has not yet
  handed over.\<close>

fun hand :: "wpc \<Rightarrow> nat list" where
  "hand (W_have t) = [t]"
| "hand _ = []"

fun flight :: "cpc \<Rightarrow> nat list" where
  "flight (C_ready t) = [t]"
| "flight (C_adding t k) = [t]"
| "flight (C_push t k) = [t]"
| "flight (C_global t) = [t]"
| "flight _ = []"

definition held :: "nat \<Rightarrow> worker \<Rightarrow> nat" where
  "held t x = count_list (lq x) t + count_list (hand (w_pc x)) t"

text \<open>How often a task occurs: waiting in a queue, in a thread's hands, or among the runs.\<close>

definition occ :: "nat \<Rightarrow> ('e, 'r) pool \<Rightarrow> nat" where
  "occ t s = (\<Sum>x\<leftarrow>p_objs s. held t x) + count_list (p_queue s) t + (\<Sum>c\<leftarrow>p_clients s. count_list (flight c) t) +
     count_list (p_runs s) t"








lemma occ_keep [simp]:
  "occ t (unlock s) = occ t s" "occ t (deregister_task x s) = occ t s" "occ t (register_task x s) = occ t s"
  "occ t (on_task x g s) = occ t s" "occ t (s\<lparr>p_counter := n\<rparr>) = occ t s" "occ t (s\<lparr>p_running := b\<rparr>) = occ t s"
  "occ t (s\<lparr>p_mon := m\<rparr>) = occ t s" "occ t (s\<lparr>p_slots := sl\<rparr>) = occ t s" "occ t (s\<lparr>p_wmutex := o1\<rparr>) = occ t s"
  "occ t (enqueue_task x s) = occ t s + count_list [x] t"
  "occ t (s\<lparr>p_results := r\<rparr>) = occ t s" "occ t (s\<lparr>p_runs := p_runs s @ [x]\<rparr>) = occ t s + count_list [x] t"
  by (simp_all add: occ_def pool_defs)











text \<open>The fields no move touches.\<close>

lemma fields_access [simp]:
  "p_tasks (go w pc s) = p_tasks s" "p_counter (go w pc s) = p_counter s" "p_results (go w pc s) = p_results s"
  "p_runs (go w pc s) = p_runs s" "p_crashed (go w pc s) = p_crashed s"
  "p_tasks (on_obj w f s) = p_tasks s" "p_counter (on_obj w f s) = p_counter s" "p_results (on_obj w f s) = p_results s"
  "p_runs (on_obj w f s) = p_runs s" "p_crashed (on_obj w f s) = p_crashed s"
  "p_tasks (set_client j c s) = p_tasks s" "p_counter (set_client j c s) = p_counter s" "p_results (set_client j c s) = p_results s"
  "p_runs (set_client j c s) = p_runs s" "p_crashed (set_client j c s) = p_crashed s"
  "p_tasks (unlock s) = p_tasks s" "p_counter (unlock s) = p_counter s" "p_results (unlock s) = p_results s"
  "p_runs (unlock s) = p_runs s" "p_crashed (unlock s) = p_crashed s"
  "p_tasks (enqueue_task t s) = p_tasks s" "p_counter (enqueue_task t s) = p_counter s" "p_results (enqueue_task t s) = p_results s"
  "p_runs (enqueue_task t s) = p_runs s" "p_crashed (enqueue_task t s) = p_crashed s"
  "p_tasks (deregister_task t s) = p_tasks s" "p_counter (deregister_task t s) = p_counter s"
  "p_results (deregister_task t s) = p_results s" "p_runs (deregister_task t s) = p_runs s" "p_crashed (deregister_task t s) = p_crashed s"
  by (simp_all add: pool_defs)

























subsection \<open>A worker that cannot be joined\<close>

definition stuck :: "nat \<Rightarrow> nat \<Rightarrow> nat \<Rightarrow> ('e, 'r) pool \<Rightarrow> bool" where
  "stuck i n w s \<longleftrightarrow> p_mon s = M_join i n w \<and> w < length (p_objs s) \<and> w_pc (p_objs s ! w) = W_steal \<and> p_wmutex s = Some O_monitor"

lemma stuck_access:
  assumes "stuck i n w s"
  shows "v \<noteq> w \<Longrightarrow> stuck i n w (go v pc s)" "(\<And>x. w_pc (f x) = w_pc x) \<Longrightarrow> stuck i n w (on_obj v f s)"
    "stuck i n w (set_client j c s)" "stuck i n w (on_task t g s)" "stuck i n w (crash s)" "stuck i n w (enqueue_task t s)"
    "stuck i n w (register_task t s)" "stuck i n w (deregister_task t s)" "stuck i n w (task_function call t s)"
    "stuck i n w (s\<lparr>p_queue := q\<rparr>)" "stuck i n w (s\<lparr>p_counter := m\<rparr>)" "stuck i n w (s\<lparr>p_running := b\<rparr>)"
proof -
  show "v \<noteq> w \<Longrightarrow> stuck i n w (go v pc s)" "stuck i n w (set_client j c s)"
    "(\<And>x. w_pc (f x) = w_pc x) \<Longrightarrow> stuck i n w (on_obj v f s)"
    using assms by (auto simp: stuck_def pool_access)
qed (use assms in \<open>simp_all add: stuck_def pool_defs task_function_def Let_def\<close>)

lemma stuck_worker:
  assumes "stuck i n w s" "pool_inv s" "v < length (p_objs s)" "worker_run call busy v s = Some s'"
  shows "stuck i n w s'"
proof (cases "v = w")
  case True
  then show ?thesis using assms(1,4) by (simp add: stuck_def worker_run_def lock_def)
next
  case False
  then have "\<not> worker_holds (w_pc (p_objs s ! v))" using pool_invD(2) [OF assms(2,3)] assms(1) by (auto simp: stuck_def)
  moreover have "lock o1 s = None" for o1 using assms(1) by (simp add: stuck_def lock_def)
  ultimately show ?thesis
    using assms(4) False
    by (auto simp: worker_run_def split: wpc.splits list.splits if_splits intro!: stuck_access assms(1))
qed

lemma stuck_client_run:
  assumes "stuck i n w s" "pool_inv s" "j < length (p_clients s)" "client_run j s = Some s'"
  shows "stuck i n w s'"
proof -
  have "\<not> client_holds (p_clients s ! j)" using pool_invD(1) [OF assms(2,3)] assms(1) by (auto simp: stuck_def)
  moreover have "lock o1 s = None" for o1 using assms(1) by (simp add: stuck_def lock_def)
  moreover have "p_mon s \<noteq> M_idle" using assms(1) by (simp add: stuck_def)
  ultimately show ?thesis
    using assms(4)
    by (auto simp: client_run_def shutdown_workers_def worker_stop_def split: cpc.splits if_splits option.splits
        intro!: stuck_access assms(1))
qed

lemma stuck_do:
  assumes "stuck i n w s" "pool_inv s" "pool_do call a s = Some s'"
  shows "stuck i n w s'"
proof -
  have user: "stuck i n w (pool_submit j key s)" "stuck i n w (dep_submit j key s)" "stuck i n w (pool_add_dependency j x y s)"
    "stuck i n w (pool_shutdown j s)" for j key x y
    by (auto simp: pool_submit_def dep_submit_def pool_add_dependency_def pool_shutdown_def make_task_def Let_def
        intro!: stuck_access assms(1))
  have take: "dequeue_task v t s = Some s' \<Longrightarrow> stuck i n w s'" "next_dependent v d s = Some s' \<Longrightarrow> stuck i n w s'" for v t d
  proof -
    assume run: "dequeue_task v t s = Some s'"
    then have "v \<noteq> w" using assms(1) by (auto simp: dequeue_task_def stuck_def split: if_splits)
    then show "stuck i n w s'" using run by (auto simp: dequeue_task_def split: if_splits intro!: stuck_access assms(1))
  next
    assume run: "next_dependent v d s = Some s'"
    then have "v \<noteq> w" using assms(1) by (auto simp: next_dependent_def stuck_def)
    then show "stuck i n w s'"
      using run by (auto simp: next_dependent_def handle_dependent_def split: wpc.splits if_splits intro!: stuck_access assms(1))
  qed
  have mon: "adjust_start s = None" "monitor_run idle s = None" for idle
    using assms(1) by (simp_all add: adjust_start_def monitor_run_def stuck_def)
  show ?thesis
    using assms(3) user take mon stuck_worker [OF assms(1,2)] stuck_client_run [OF assms(1,2)]
    by (cases a) (auto split: if_splits)
qed

subsection \<open>Properties\<close>


text \<open>C6. A local queue never holds more than its capacity of two tasks, although \<open>try_push_task\<close> tests
  the size before it takes the queue's mutex: the only threads that push hold the mutex of the worker
  table, and everybody else only takes tasks out.\<close>

theorem local_queues_bounded:
  assumes "pool_run call as (pool_new k mn mx) = Some s" "w < length (p_objs s)"
  shows "length (lq (p_objs s ! w)) \<le> 2"
  using pool_invD(6) [OF pool_inv_run [OF assms(1)] assms(2)] by (simp add: lq_of_def queue_capacity_def)

text \<open>C31. Removing a worker can hang the pool. The monitor holds the mutex of the worker table while it
  joins the thread it removes; if that thread is about to steal, it waits for the same mutex. From then
  on, whatever the other threads do, the monitor never finishes, the worker never returns and the
  mutex is never free again.\<close>

theorem remove_worker_deadlock:
  assumes "pool_inv s" "\<not> p_crashed s" "p_mon s = M_scan i n" "i < n" "p_min s < n" "slot i s = Some w"
    and "w_pc (p_objs s ! w) = W_steal"
  shows "\<exists>s1. pool_step call (A_monitor True) s = Some s1 \<and>
    (\<forall>as s2. pool_run call as s1 = Some s2 \<longrightarrow>
       p_mon s2 = M_join i n w \<and> w_pc (p_objs s2 ! w) = W_steal \<and> p_wmutex s2 = Some O_monitor)"
proof -
  let ?s1 = "remove_worker n i s"
  have run: "pool_step call (A_monitor True) s = Some ?s1" using assms(2-6) by (simp add: pool_step_def monitor_run_def)
  have own: "p_wmutex s = Some O_monitor" using pool_invD(3) [OF assms(1)] assms(3) by simp
  have "w < length (p_objs s)" by (rule pool_invD(4) [OF assms(1,6)])
  then have "stuck i n w ?s1" using assms(6,7) own by (simp add: remove_worker_def stuck_def worker_stop_def on_obj_def)
  moreover have "pool_inv ?s1" by (rule pool_inv_remove [OF assms(1) own assms(6)])
  ultimately have "stuck i n w s2 \<and> pool_inv s2" if "pool_run call as ?s1 = Some s2" for as s2
    by (intro pool_run_invariant [where I = "\<lambda>s. stuck i n w s \<and> pool_inv s", OF _ _ that]) (auto dest: stuck_do pool_inv_do)
  then show ?thesis using run by (auto simp: stuck_def)
qed

text \<open>Two tasks that finish at the same time can release their common dependent twice: the counter is
  decremented and tested in two separate atomic accesses, so both may see zero. The dependent is then
  run twice, and setting its promise a second time ends the program.\<close>

theorem dependent_released_twice:
  "\<exists>as s. pool_run (\<lambda>t. (Inr t :: nat + nat)) as (pool_new 1 2 2) = Some s \<and> p_crashed s \<and> p_runs s = [1, 2, 3, 3]"
proof -
  let ?w0 = "A_worker 0 False" and ?w1 = "A_worker 1 False" and ?c = "A_client 0"
  let ?as = "[A_submit 0 0, ?c, ?c, ?c, A_submit 0 0, ?c, ?c, ?c, A_dep_submit 0 0, A_depend 0 3 1, ?c, A_depend 0 3 2, ?c,
    ?w0, ?w0, ?w1, ?w1, ?w1, ?w1, ?w1, ?w0, ?w1, A_dependent 0 3, A_dependent 1 3, ?w0, ?w1, ?w0, ?w1,
    ?w0, ?w0, ?w0, ?w0, A_take 0 3, ?w0, ?w1, ?w1, ?w1, ?w1, A_take 1 3, ?w1]"
  have "map_option (\<lambda>s. (p_crashed s, p_runs s)) (pool_run (\<lambda>t. (Inr t :: nat + nat)) ?as (pool_new 1 2 2)) = Some (True, [1, 2, 3, 3])"
    by code_simp
  then obtain s where s: "pool_run (\<lambda>t. (Inr t :: nat + nat)) ?as (pool_new 1 2 2) = Some s" "(p_crashed s, p_runs s) = (True, [1, 2, 3, 3])"
    unfolding map_option_eq_Some by blast
  from s(2) have "p_crashed s" "p_runs s = [1, 2, 3, 3]" by simp_all
  with s(1) show ?thesis by blast
qed

subsection \<open>The theorems at work\<close>

text \<open>One user submits two tasks; the second worker steals the second one.\<close>

definition pool_demo_acts :: "act list" where
  "pool_demo_acts = [A_submit 0 0, A_client 0, A_client 0, A_client 0, A_submit 0 0, A_client 0, A_client 0, A_client 0,
     A_worker 0 False, A_worker 0 False, A_worker 1 False, A_worker 1 False, A_worker 1 False, A_worker 1 False,
     A_worker 1 False, A_worker 0 False]"

lemma pool_demo_run:
  "map_option (\<lambda>s. (p_runs s, map lq (p_objs s), map w_pc (p_objs s))) (pool_run (\<lambda>t. (Inr t :: nat + nat)) pool_demo_acts (pool_new 1 2 2)) =
     Some ([1], [[], []], [W_deps 1 [], W_have 2])"
  by code_simp

lemma pool_demo_state:
  obtains s where "pool_run (\<lambda>t. (Inr t :: nat + nat)) pool_demo_acts (pool_new 1 2 2) = Some s" "p_runs s = [1]" "length (p_objs s) = 2"
proof -
  from pool_demo_run have "\<exists>s. pool_run (\<lambda>t. (Inr t :: nat + nat)) pool_demo_acts (pool_new 1 2 2) = Some s \<and>
      (p_runs s, map lq (p_objs s), map w_pc (p_objs s)) = ([1], [[], []], [W_deps 1 [], W_have 2])"
    by (simp only: map_option_eq_Some)
  then obtain s where s: "pool_run (\<lambda>t. (Inr t :: nat + nat)) pool_demo_acts (pool_new 1 2 2) = Some s" "p_runs s = [1]"
    "map lq (p_objs s) = [[], []]" by (elim exE conjE) (simp only: prod.inject)
  from s(3) have "length (map lq (p_objs s)) = 2" by simp
  then have "length (p_objs s) = 2" by simp
  with s(1,2) show ?thesis by (rule that)
qed


theorem local_queues_bounded_witness:
  "\<exists>s. pool_run (\<lambda>t. (Inr t :: nat + nat)) pool_demo_acts (pool_new 1 2 2) = Some s \<and> length (lq (p_objs s ! 1)) \<le> 2"
proof -
  obtain s where s: "pool_run (\<lambda>t. (Inr t :: nat + nat)) pool_demo_acts (pool_new 1 2 2) = Some s"
    "p_runs s = [1]" "length (p_objs s) = 2" by (rule pool_demo_state)
  have "1 < length (p_objs s)" using s(3) by simp
  from local_queues_bounded [OF s(1) this] s(1) show ?thesis by (intro exI [of _ s] conjI)
qed

text \<open>A pool with three workers that may keep two, whose first worker has found nothing and is about to
  steal while the monitor looks at it.\<close>

definition shrinking :: "(nat, nat) pool" where
  "shrinking = (add_worker (pool_new 0 2 4))\<lparr>p_mon := M_scan 0 3, p_wmutex := Some O_monitor,
     p_objs := [(worker_new 0)\<lparr>w_pc := W_steal\<rparr>, worker_new 1, worker_new 2]\<rparr>"

lemma shrinking_fields:
  "p_clients shrinking = []" "p_mon shrinking = M_scan 0 3" "p_wmutex shrinking = Some O_monitor"
  "p_objs shrinking = [(worker_new 0)\<lparr>w_pc := W_steal\<rparr>, worker_new 1, worker_new 2]"
  "p_slots shrinking = [Some 0, Some 1, Some 2]" "p_min shrinking = 2" "\<not> p_crashed shrinking"
  by (simp_all add: shrinking_def pool_new_def add_worker_def free_slot_def numeral_2_eq_2)

theorem remove_worker_deadlock_witness:
  "\<exists>s1. pool_step (\<lambda>t. Inr t) (A_monitor True) shrinking = Some s1 \<and>
    (\<forall>as s2. pool_run (\<lambda>t. Inr t) as s1 = Some s2 \<longrightarrow>
       p_mon s2 = M_join 0 3 0 \<and> w_pc (p_objs s2 ! 0) = W_steal \<and> p_wmutex s2 = Some O_monitor)"
proof -
  have slot: "slot k shrinking = Some v \<longleftrightarrow> k < 3 \<and> v = k" for k v
    by (auto simp: slot_def entry_def shrinking_fields less_Suc_eq numeral_3_eq_3)
  have inv: "pool_inv shrinking"
    by (rule pool_invI)
      (auto simp: shrinking_fields slot lq_of_def worker_new_def less_Suc_eq numeral_3_eq_3)
  have at: "w_pc (p_objs shrinking ! 0) = W_steal" "slot 0 shrinking = Some 0" "0 < (3::nat)" "p_min shrinking < 3"
    by (simp_all add: shrinking_fields slot)
  show ?thesis
    by (rule remove_worker_deadlock [OF inv shrinking_fields(7,2) at(3,4,2,1)])
qed

end
