(* ===== verification/Config_Center.thy ===== *)
theory Config_Center
  imports Std_Map
begin

text \<open>
  \<open>Net/include/ConfigCenter.h\<close> and \<open>Net/src/ConfigCenter.cpp\<close>: the reader of INI files. A pointer into the
  line buffer is the text from it to the terminating NUL. The contents of the file are a parameter;
  None when it cannot be opened. \<open>getReal\<close> is left out (it is a call of \<open>strtod\<close>).
\<close>

subsection \<open>Scanning a line\<close>

record line_scanner =
  ls_p :: string
  ls_err :: bool

definition deref :: "string \<Rightarrow> char" where "deref p = (case p of [] \<Rightarrow> NUL | c # cs \<Rightarrow> c)"

definition skipSpaces :: "line_scanner \<Rightarrow> line_scanner" where
  "skipSpaces l = (if ls_err l then l else l\<lparr>ls_p := dropWhile isspace (ls_p l)\<rparr>)"

definition rstrip :: "string \<Rightarrow> string" where "rstrip s = rev (dropWhile isspace (rev s))"

definition peekChar :: "line_scanner \<Rightarrow> char \<times> line_scanner" where
  "peekChar l = (let l = skipSpaces l in (deref (ls_p l), l))"

definition ls_skip :: "nat \<Rightarrow> line_scanner \<Rightarrow> line_scanner" where
  "ls_skip i l = l\<lparr>ls_p := drop i (ls_p l)\<rparr>"

definition ls_match :: "char \<Rightarrow> line_scanner \<Rightarrow> line_scanner" where
  "ls_match c l = (let l = skipSpaces l in l\<lparr>ls_err := (deref (ls_p l) \<noteq> c), ls_p := drop 1 (ls_p l)\<rparr>)"

definition consumeTill :: "char \<Rightarrow> line_scanner \<Rightarrow> string \<times> line_scanner" where
  "consumeTill c l =
     (let l = skipSpaces l;
          w = (if ls_err l then [] else takeWhile (\<lambda>x. x \<noteq> c) (ls_p l));
          e = drop (length w) (ls_p l)
      in if deref e \<noteq> c then ([], l\<lparr>ls_err := True\<rparr>) else (rstrip w, l\<lparr>ls_p := e\<rparr>))"

text \<open>The characters the loop of \<open>consumeTillEnd\<close> passes; it stops after the first white space.\<close>

fun till_end :: "bool \<Rightarrow> string \<Rightarrow> string" where
  "till_end wasspace [] = []"
| "till_end wasspace (c # cs) =
     (if c = CHR '';'' \<or> c = CHR ''#'' \<or> wasspace then [] else c # till_end (isspace c) cs)"

definition consumeTillEnd :: "line_scanner \<Rightarrow> string \<times> line_scanner" where
  "consumeTillEnd l =
     (let l = skipSpaces l; w = (if ls_err l then [] else till_end False (ls_p l))
      in (rstrip w, l\<lparr>ls_p := drop (length w) (ls_p l)\<rparr>))"

subsection \<open>Configurations\<close>

type_synonym conf_values = "(string, string list) smap"

definition makeKey :: "string \<Rightarrow> string \<Rightarrow> string" where
  "makeKey section name = map tolower (section @ ''.'' @ name)"

definition conf_get :: "string \<Rightarrow> string \<Rightarrow> string \<Rightarrow> conf_values \<Rightarrow> string" where
  "conf_get section name dflt vs = (case smap_get (makeKey section name) vs of None \<Rightarrow> dflt | Some l \<Rightarrow> last l)"

definition getStrings :: "string \<Rightarrow> string \<Rightarrow> conf_values \<Rightarrow> string list" where
  "getStrings section name vs = (case smap_get (makeKey section name) vs of None \<Rightarrow> [] | Some l \<Rightarrow> l)"

definition getBoolean :: "string \<Rightarrow> string \<Rightarrow> bool \<Rightarrow> conf_values \<Rightarrow> bool" where
  "getBoolean section name dflt vs =
     (let v = map tolower (conf_get section name [] vs)
      in if v \<in> {''true'', ''yes'', ''on'', ''1''} then True
         else if v \<in> {''false'', ''no'', ''off'', ''0''} then False else dflt)"

text \<open>\<open>strtol\<close> with base 0: white space, a sign, then hexadecimal after \<open>0x\<close>, octal after \<open>0\<close>, or
  decimal digits; out of range values are clamped. The second component is whether anything was read.\<close>

definition hex_value :: "char \<Rightarrow> nat option" where
  "hex_value c = (let n = of_char c :: nat in
     if 48 \<le> n \<and> n \<le> 57 then Some (n - 48) else if 97 \<le> n \<and> n \<le> 102 then Some (n - 87)
     else if 65 \<le> n \<and> n \<le> 70 then Some (n - 55) else None)"

definition digit_of :: "nat \<Rightarrow> char \<Rightarrow> bool" where
  "digit_of b c \<longleftrightarrow> (case hex_value c of Some d \<Rightarrow> d < b | None \<Rightarrow> False)"

definition base_value :: "nat \<Rightarrow> string \<Rightarrow> nat" where
  "base_value b s = foldl (\<lambda>n c. b * n + the (hex_value c)) 0 (takeWhile (digit_of b) s)"

definition strtol0 :: "string \<Rightarrow> int \<times> bool" where
  "strtol0 s =
     (let s = dropWhile isspace s;
          neg = (deref s = CHR ''-'');
          s = (if deref s = CHR ''-'' \<or> deref s = CHR ''+'' then drop 1 s else s);
          (b, s) = (if deref s = CHR ''0'' \<and> deref (drop 1 s) \<in> {CHR ''x'', CHR ''X''} \<and> digit_of 16 (deref (drop 2 s))
                    then (16, drop 2 s) else if deref s = CHR ''0'' then (8, s) else (10, s));
          v = (if neg then - int (base_value b s) else int (base_value b s))
      in (max (- (2 ^ 63)) (min (2 ^ 63 - 1) v), digit_of b (deref s)))"

definition getInteger :: "string \<Rightarrow> string \<Rightarrow> int \<Rightarrow> conf_values \<Rightarrow> int" where
  "getInteger section name dflt vs =
     (let (n, moved) = strtol0 (takeWhile (\<lambda>c. c \<noteq> NUL) (conf_get section name [] vs)) in if moved then n else dflt)"

subsection \<open>Reading a file\<close>

definition push_value :: "string \<Rightarrow> string \<Rightarrow> conf_values \<Rightarrow> conf_values" where
  "push_value k v vs = smap_set k ((case smap_get k vs of None \<Rightarrow> [] | Some l \<Rightarrow> l) @ [v]) vs"

record conf_state =
  cs_section :: string
  cs_key :: string
  cs_values :: conf_values

text \<open>The body of the loop on one line; True on an error.\<close>

definition conf_line :: "string \<Rightarrow> conf_state \<Rightarrow> bool \<times> conf_state" where
  "conf_line ln s =
     (let ln = takeWhile (\<lambda>c. c \<noteq> NUL) ln;
          (c, l) = peekChar \<lparr>ls_p = ln, ls_err = False\<rparr>
      in if c = CHR '';'' \<or> c = CHR ''#'' \<or> c = NUL then (False, s)
         else if c = CHR ''['' then
           let (section, l) = consumeTill CHR '']'' (ls_skip 1 l)
           in (ls_err (ls_match CHR '']'' l), s\<lparr>cs_section := section, cs_key := []\<rparr>)
         else if isspace (deref ln) then
           if cs_key s \<noteq> []
           then (False, s\<lparr>cs_values := push_value (makeKey (cs_section s) (cs_key s)) (fst (consumeTill NUL l)) (cs_values s)\<rparr>)
           else (True, s)
         else
           let (key, l1) = consumeTill CHR ''='' l;
               (c, l1) = peekChar l1;
               (key, err, l2) = (if c = CHR ''='' then (key, False, ls_skip 1 l1)
                 else let (key, l2) = consumeTill CHR '':'' l; l2 = ls_match CHR '':'' l2 in (key, ls_err l2, l2))
           in (err, s\<lparr>cs_key := key, cs_values := push_value (makeKey (cs_section s) key) (fst (consumeTillEnd l2)) (cs_values s)\<rparr>))"

definition MAX_LINE :: nat where "MAX_LINE = 16 * 1024"

text \<open>\<open>fgets\<close>: up to and including the next newline, at most \<open>MAX_LINE - 1\<close> characters.\<close>

definition line_length :: "string \<Rightarrow> nat" where
  "line_length file = min (MAX_LINE - 1) (length (takeWhile (\<lambda>c. c \<noteq> CHR 0x0A) file) + 1)"

function conf_lines :: "string \<Rightarrow> nat \<Rightarrow> conf_state \<Rightarrow> int \<times> conf_state" where
  "conf_lines file lineno s =
     (if file = [] then (0, s)
      else let (err, s) = conf_line (take (line_length file) file) s
           in if err then (int (lineno + 1), s) else conf_lines (drop (line_length file) file) (lineno + 1) s)"
  by pat_completeness auto
termination
  by (relation "measure (\<lambda>(file, lineno, s). length file)") (auto simp: line_length_def MAX_LINE_def)

declare conf_lines.simps [simp del]

definition conf_parse :: "string option \<Rightarrow> conf_values \<Rightarrow> int \<times> conf_values" where
  "conf_parse file vs = (case file of
     None \<Rightarrow> (-1, vs)
   | Some text \<Rightarrow> let (r, s) = conf_lines text 0 \<lparr>cs_section = [], cs_key = [], cs_values = vs\<rparr> in (r, cs_values s))"

subsection \<open>Printed configurations\<close>

text \<open>The lines of a configuration file, and what they mean.\<close>

datatype conf_item = Section string | Item string string

fun print_item :: "conf_item \<Rightarrow> string" where
  "print_item (Section s) = ''['' @ s @ '']'' @ [CHR 0x0A]"
| "print_item (Item k v) = k @ ''='' @ v @ [CHR 0x0A]"

fun flat :: "string \<Rightarrow> conf_item list \<Rightarrow> (string \<times> string) list" where
  "flat section [] = []"
| "flat section (Section s # items) = flat s items"
| "flat section (Item k v # items) = (makeKey section k, v) # flat section items"

fun item_ok :: "conf_item \<Rightarrow> bool" where
  "item_ok (Section s) \<longleftrightarrow> set s \<inter> {CHR '']'', NUL, CHR 0x0A} = {} \<and> (s \<noteq> [] \<longrightarrow> \<not> isspace (hd s) \<and> \<not> isspace (last s))"
| "item_ok (Item k v) \<longleftrightarrow> k \<noteq> [] \<and> set k \<inter> {CHR ''='', NUL, CHR 0x0A} = {} \<and> hd k \<notin> {CHR '';'', CHR ''#'', CHR ''[''} \<and>
     \<not> isspace (hd k) \<and> \<not> isspace (last k) \<and> (\<forall>c \<in> set v. \<not> isspace c \<and> c \<notin> {CHR '';'', CHR ''#'', NUL})"

lemma rstrip_id: "s = [] \<or> \<not> isspace (last s) \<Longrightarrow> rstrip s = s"
  by (cases s rule: rev_cases) (auto simp: rstrip_def)

lemma dropWhile_hd: "s = [] \<or> \<not> p (hd s) \<Longrightarrow> dropWhile p s = s"
  by (cases s) auto

lemma takeWhile_sep: "c \<notin> set s \<Longrightarrow> takeWhile (\<lambda>x. x \<noteq> c) (s @ c # rest) = s"
  by (induction s) auto

lemma no_NUL: "NUL \<notin> set s \<Longrightarrow> takeWhile (\<lambda>c. c \<noteq> NUL) s = s"
  by (induction s) auto

lemma isspace_facts [simp]: "isspace (CHR 0x0A)" "\<not> isspace (CHR ''['')" "\<not> isspace (CHR '']'')" "\<not> isspace (CHR ''='')"
  by (simp_all add: isspace_def)

lemma conf_line_section:
  assumes "item_ok (Section n)"
  shows "conf_line (print_item (Section n)) s = (False, s\<lparr>cs_section := n, cs_key := []\<rparr>)"
proof -
  have n: "CHR '']'' \<notin> set n" "NUL \<notin> set n" "n = [] \<or> \<not> isspace (hd n)" "n = [] \<or> \<not> isspace (last n)" using assms by auto
  have nul: "takeWhile (\<lambda>c. c \<noteq> NUL) (print_item (Section n)) = print_item (Section n)" using n(2) by (intro no_NUL) simp
  have drop: "dropWhile isspace (n @ CHR '']'' # [CHR 0x0A]) = n @ CHR '']'' # [CHR 0x0A]" using n(3) by (cases n) auto
  show ?thesis
    unfolding conf_line_def nul
    using takeWhile_sep [OF n(1), of "[CHR 0x0A]"] drop rstrip_id [OF n(4)]
    by (simp add: Let_def peekChar_def skipSpaces_def deref_def ls_skip_def consumeTill_def ls_match_def)
qed

lemma till_end_value:
  assumes "\<forall>c \<in> set v. \<not> isspace c \<and> c \<notin> {CHR '';'', CHR ''#'', NUL}"
  shows "till_end False (v @ [CHR 0x0A]) = v @ [CHR 0x0A]"
  using assms by (induction v) auto

lemma conf_line_item:
  assumes "item_ok (Item k v)"
  shows "conf_line (print_item (Item k v)) s =
    (False, s\<lparr>cs_key := k, cs_values := push_value (makeKey (cs_section s) k) v (cs_values s)\<rparr>)"
proof -
  have k: "k \<noteq> []" "CHR ''='' \<notin> set k" "NUL \<notin> set k" "hd k \<notin> {CHR '';'', CHR ''#'', CHR ''[''}" "\<not> isspace (hd k)" "\<not> isspace (last k)"
    and v: "\<forall>c \<in> set v. \<not> isspace c \<and> c \<notin> {CHR '';'', CHR ''#'', NUL}" using assms by auto
  let ?ln = "k @ CHR ''='' # v @ [CHR 0x0A]"
  have nul: "takeWhile (\<lambda>c. c \<noteq> NUL) ?ln = ?ln" using k(3) v by (intro no_NUL) auto
  obtain c cs where c: "k = c # cs" using k(1) by (cases k) auto
  have hd: "dropWhile isspace ?ln = ?ln" "deref ?ln = c" "c \<noteq> NUL" "\<not> isspace c" "c \<notin> {CHR '';'', CHR ''#'', CHR ''[''}"
    using c k by (auto simp: deref_def)
  have till: "dropWhile isspace (v @ [CHR 0x0A]) = (if v = [] then [] else v @ [CHR 0x0A])" using v by (cases v) auto
  have val: "rstrip (till_end False (if v = [] then [] else v @ [CHR 0x0A])) = v"
    using till_end_value [OF v] rstrip_id [of v] v by (cases v rule: rev_cases) (auto simp: rstrip_def)
  have key: "consumeTill CHR ''='' \<lparr>ls_p = ?ln, ls_err = False\<rparr> = (k, \<lparr>ls_p = CHR ''='' # v @ [CHR 0x0A], ls_err = False\<rparr>)"
    using takeWhile_sep [OF k(2), of "v @ [CHR 0x0A]"] hd(1) rstrip_id [of k] k(6)
    by (simp add: consumeTill_def skipSpaces_def Let_def deref_def)
  show ?thesis
    using hd(1-5) key val till
    by (simp add: conf_line_def nul Let_def peekChar_def skipSpaces_def ls_skip_def consumeTillEnd_def) (simp add: deref_def)
qed

lemma line_length_print:
  assumes "item_ok i" "length (print_item i) < MAX_LINE"
  shows "line_length (print_item i @ rest) = length (print_item i)"
proof -
  obtain t where t: "print_item i = t @ [CHR 0x0A]" "CHR 0x0A \<notin> set t"
    using assms(1) by (cases i) (auto simp: isspace_def)
  have "takeWhile (\<lambda>c. c \<noteq> CHR 0x0A) (print_item i @ rest) = t" using t takeWhile_sep [of "CHR 0x0A" t rest] by simp
  then show ?thesis using assms(2) t(1) by (simp add: line_length_def)
qed

fun read_item :: "conf_item \<Rightarrow> conf_state \<Rightarrow> conf_state" where
  "read_item (Section n) s = s\<lparr>cs_section := n, cs_key := []\<rparr>"
| "read_item (Item k v) s = s\<lparr>cs_key := k, cs_values := push_value (makeKey (cs_section s) k) v (cs_values s)\<rparr>"

lemma conf_lines_print:
  assumes "\<forall>i \<in> set items. item_ok i \<and> length (print_item i) < MAX_LINE"
  shows "conf_lines (concat (map print_item items)) n s = (0, fold read_item items s)"
  using assms
proof (induction items arbitrary: n s)
  case (Cons i items)
  have "conf_line (print_item i) s = (False, read_item i s)"
    using Cons.prems conf_line_section conf_line_item by (cases i) auto
  moreover have "print_item i \<noteq> []" by (cases i) auto
  ultimately show ?case
    using Cons line_length_print [of i "concat (map print_item items)"] by (subst conf_lines.simps) simp
qed (simp add: conf_lines.simps)

lemma push_value_get:
  "getStrings a b (push_value k v vs) = getStrings a b vs @ (if k = makeKey a b then [v] else [])"
  by (simp add: getStrings_def push_value_def smap_get_set split: option.split)

lemma read_items_get:
  "getStrings a b (cs_values (fold read_item items s)) =
     getStrings a b (cs_values s) @ map snd (filter (\<lambda>(k, v). k = makeKey a b) (flat (cs_section s) items))"
proof (induction items arbitrary: s)
  case (Cons i items)
  then show ?case by (cases i) (simp_all add: push_value_get)
qed simp

lemma conf_get_last: "conf_get a b d vs = (if getStrings a b vs = [] \<and> smap_get (makeKey a b) vs = None then d else last (getStrings a b vs))"
  by (simp add: conf_get_def getStrings_def split: option.split)

subsection \<open>Properties\<close>

text \<open>C32. A printed configuration is read back. Parsing the text of sections and items whose parts the
  format can carry succeeds, and every name, looked up in any mixture of cases, has exactly the values
  printed for it, in order, after the ones it had before.\<close>

theorem config_roundtrip:
  assumes "\<forall>i \<in> set items. item_ok i \<and> length (print_item i) < MAX_LINE"
  shows "\<exists>vs'. conf_parse (Some (concat (map print_item items))) vs = (0, vs') \<and>
    (\<forall>a b. getStrings a b vs' = getStrings a b vs @ map snd (filter (\<lambda>(k, v). k = makeKey a b) (flat [] items)))"
  using conf_lines_print [OF assms] read_items_get by (simp add: conf_parse_def)

theorem config_roundtrip_witness:
  "\<exists>vs'. conf_parse (Some (''[Net]'' @ [CHR 0x0A] @ ''Port=80'' @ [CHR 0x0A] @ ''port=81'' @ [CHR 0x0A])) [] = (0, vs') \<and>
     getStrings ''net'' ''PORT'' vs' = [''80'', ''81'']"
proof -
  let ?items = "[Section ''Net'', Item ''Port'' ''80'', Item ''port'' ''81'']"
  have "\<forall>i \<in> set ?items. item_ok i \<and> length (print_item i) < MAX_LINE" by (simp add: isspace_def MAX_LINE_def)
  from config_roundtrip [OF this, of "[]"] obtain vs' where
    vs: "conf_parse (Some (concat (map print_item ?items))) [] = (0, vs')"
    "\<forall>a b. getStrings a b vs' = getStrings a b [] @ map snd (filter (\<lambda>(k, v). k = makeKey a b) (flat [] ?items))" by blast
  have "map snd (filter (\<lambda>(k, v). k = makeKey ''net'' ''PORT'') (flat [] ?items)) = [''80'', ''81'']" by code_simp
  then have "getStrings ''net'' ''PORT'' vs' = [''80'', ''81'']" using vs(2) by (simp add: getStrings_def smap_get_def)
  moreover have "concat (map print_item ?items) = ''[Net]'' @ [CHR 0x0A] @ ''Port=80'' @ [CHR 0x0A] @ ''port=81'' @ [CHR 0x0A]" by simp
  ultimately show ?thesis using vs(1) by metis
qed

end
