(* ===== verification/Inet_Address.thy ===== *)
theory Inet_Address
  imports Std_Map
begin

text \<open>
  \<open>Net/include/InetAddress.h\<close>, \<open>Net/src/InetAddress.cpp\<close> and the functions of \<open>Net/src/sockets.cpp\<close> that do
  more than one system call. \<open>sockaddr_in\<close> and \<open>sockaddr_in6\<close> have their family and port at the same
  offsets, so the union of the two is one record; an address that was never written is None. The host
  is little-endian. The conversions between addresses and text (\<open>inet_addr\<close>, \<open>inet_pton\<close>, \<open>inet_ntop\<close>)
  are parameters.
\<close>

unbundle bit_operations_syntax

datatype sa_family = AF_UNSPEC | AF_INET | AF_INET6

record sockaddr =
  sa_family :: sa_family
  sa_port :: "16 word"
  sa_addr4 :: "32 word"
  sa_addr6 :: "8 word list"

definition sockaddr_zero :: sockaddr where
  "sockaddr_zero = \<lparr>sa_family = AF_UNSPEC, sa_port = 0, sa_addr4 = 0, sa_addr6 = replicate 16 0\<rparr>"

record inet_text =
  it_addr :: "string \<Rightarrow> 32 word"
  it_pton6 :: "string \<Rightarrow> 8 word list option"
  it_ntop4 :: "32 word \<Rightarrow> string"
  it_ntop6 :: "8 word list \<Rightarrow> string"

definition htons :: "16 word \<Rightarrow> 16 word" where "htons x = push_bit 8 x OR drop_bit 8 x"

definition ntohs :: "16 word \<Rightarrow> 16 word" where "ntohs x = push_bit 8 x OR drop_bit 8 x"

definition htonl :: "32 word \<Rightarrow> 32 word" where
  "htonl x = push_bit 24 x OR push_bit 8 (x AND 0xFF00) OR (drop_bit 8 x AND 0xFF00) OR drop_bit 24 x"

definition INADDR_LOOPBACK :: "32 word" where "INADDR_LOOPBACK = 0x7F000001"
definition INADDR_ANY :: "32 word" where "INADDR_ANY = 0"
definition INADDR_NONE :: "32 word" where "INADDR_NONE = - 1"
definition in6addr_any :: "8 word list" where "in6addr_any = replicate 16 0"
definition in6addr_loopback :: "8 word list" where "in6addr_loopback = replicate 15 0 @ [1]"

record address =
  is_ipv6 :: bool
  ad_sock :: "sockaddr option"

subsection \<open>Construction\<close>

definition fromIpPort4 :: "32 word \<Rightarrow> 16 word \<Rightarrow> sockaddr" where
  "fromIpPort4 ip port = sockaddr_zero\<lparr>sa_family := AF_INET, sa_port := htons port, sa_addr4 := ip\<rparr>"

definition fromIpPort6 :: "8 word list \<Rightarrow> 16 word \<Rightarrow> sockaddr" where
  "fromIpPort6 ip port = sockaddr_zero\<lparr>sa_family := AF_INET6, sa_port := htons port, sa_addr6 := ip\<rparr>"

text \<open>From text: on a failure the address stays as it was.\<close>

definition fromTextPort4 :: "inet_text \<Rightarrow> string \<Rightarrow> 16 word \<Rightarrow> sockaddr option \<Rightarrow> sockaddr option" where
  "fromTextPort4 it ip port old = (let r = it_addr it ip in if r = INADDR_NONE then old else Some (fromIpPort4 r port))"

definition fromTextPort6 :: "inet_text \<Rightarrow> string \<Rightarrow> 16 word \<Rightarrow> sockaddr option \<Rightarrow> sockaddr option" where
  "fromTextPort6 it ip port old = (case it_pton6 it ip of None \<Rightarrow> old | Some a \<Rightarrow> Some (fromIpPort6 a port))"

definition address_port :: "16 word \<Rightarrow> bool \<Rightarrow> bool \<Rightarrow> address" where
  "address_port port loopbackOnly ipv6 =
     \<lparr>is_ipv6 = ipv6, ad_sock = Some (if ipv6
        then fromIpPort6 (if loopbackOnly then in6addr_loopback else in6addr_any) port
        else fromIpPort4 (htonl (if loopbackOnly then INADDR_LOOPBACK else INADDR_ANY)) port)\<rparr>"

definition address_default :: address where "address_default = address_port 0 False False"

definition address_int_port :: "int \<Rightarrow> bool \<Rightarrow> bool \<Rightarrow> address" where
  "address_int_port port loopbackOnly ipv6 = address_port (word_of_int port) loopbackOnly ipv6"

definition address_text :: "inet_text \<Rightarrow> string \<Rightarrow> 16 word \<Rightarrow> bool \<Rightarrow> address" where
  "address_text it ip port ipv6 =
     \<lparr>is_ipv6 = ipv6, ad_sock = (if ipv6 then fromTextPort6 it ip port None else fromTextPort4 it ip port None)\<rparr>"

definition address_storage :: "sockaddr \<Rightarrow> address" where
  "address_storage peer = \<lparr>is_ipv6 = (sa_family peer \<noteq> AF_INET), ad_sock = Some peer\<rparr>"

definition address_copy :: "address \<Rightarrow> address" where
  "address_copy a = \<lparr>is_ipv6 = is_ipv6 a, ad_sock = ad_sock a\<rparr>"

text \<open>The assignments of a bare socket address leave the flag as it was.\<close>

definition address_assign6 :: "sockaddr \<Rightarrow> address \<Rightarrow> address" where "address_assign6 s a = a\<lparr>ad_sock := Some s\<rparr>"
definition address_assign4 :: "sockaddr \<Rightarrow> address \<Rightarrow> address" where "address_assign4 s a = a\<lparr>ad_sock := Some s\<rparr>"

definition set_ipv6_addr :: "sockaddr \<Rightarrow> address \<Rightarrow> address" where
  "set_ipv6_addr s a = a\<lparr>ad_sock := Some s, is_ipv6 := True\<rparr>"

definition set_ipv4_addr :: "sockaddr \<Rightarrow> address \<Rightarrow> address" where
  "set_ipv4_addr s a = a\<lparr>ad_sock := Some s, is_ipv6 := False\<rparr>"

subsection \<open>Reading\<close>

definition sock_of :: "address \<Rightarrow> sockaddr outcome" where
  "sock_of a = (case ad_sock a of None \<Rightarrow> Inl Uninitialised | Some s \<Rightarrow> Inr s)"

definition address_ip :: "inet_text \<Rightarrow> address \<Rightarrow> string outcome" where
  "address_ip it a = obind (sock_of a) (\<lambda>s. Inr (if is_ipv6 a then it_ntop6 it (sa_addr6 s) else it_ntop4 it (sa_addr4 s)))"

definition port_text :: "address \<Rightarrow> string outcome" where
  "port_text a = obind (sock_of a) (\<lambda>s. Inr (dec (unat (ntohs (sa_port s)))))"

definition address_family :: "address \<Rightarrow> sa_family" where
  "address_family a = (if is_ipv6 a then AF_INET6 else AF_INET)"

definition address_len :: "address \<Rightarrow> nat" where "address_len a = (if is_ipv6 a then 28 else 16)"

definition sockaddrToString :: "inet_text \<Rightarrow> address \<Rightarrow> string outcome" where
  "sockaddrToString it a = obind (address_ip it a) (\<lambda>i. obind (port_text a) (\<lambda>p. Inr (''IP: '' @ i @ '' Port: '' @ p)))"

subsection \<open>Functions on sockets\<close>

text \<open>The answers of the kernel about one socket: its two addresses (None on a failure) and \<open>SO_ERROR\<close>.\<close>

record sock_info =
  si_local :: "sockaddr option"
  si_peer :: "sockaddr option"
  si_error :: "errno + int"

definition getLocalAddr :: "sock_info \<Rightarrow> sockaddr" where
  "getLocalAddr i = (case si_local i of Some s \<Rightarrow> s | None \<Rightarrow> sockaddr_zero)"

definition getPeerAddr :: "sock_info \<Rightarrow> sockaddr" where
  "getPeerAddr i = (case si_peer i of Some s \<Rightarrow> s | None \<Rightarrow> sockaddr_zero)"

definition isSelfConnect :: "sock_info \<Rightarrow> bool" where
  "isSelfConnect i =
     (let l = getLocalAddr i; p = getPeerAddr i in case sa_family l of
        AF_INET \<Rightarrow> sa_port l = sa_port p \<and> sa_addr4 l = sa_addr4 p
      | AF_INET6 \<Rightarrow> sa_port l = sa_port p \<and> sa_addr6 l = sa_addr6 p
      | AF_UNSPEC \<Rightarrow> False)"

definition sockfd_has_error :: "sock_info \<Rightarrow> int" where
  "sockfd_has_error i = (case si_error i of Inr e \<Rightarrow> if e \<noteq> 0 then 1 else 0 | Inl _ \<Rightarrow> -1)"




subsection \<open>Addresses keep what they are given\<close>

text \<open>The flag agrees with the family that was written.\<close>

definition address_ok :: "address \<Rightarrow> bool" where
  "address_ok a \<longleftrightarrow> (case ad_sock a of Some s \<Rightarrow> sa_family s = address_family a | None \<Rightarrow> False)"

text \<open>So an address of one family that is assigned one of the other ends up with the wrong flag.\<close>

lemma address_assign_keeps_flag:
  "sa_family s = AF_INET6 \<Longrightarrow> \<not> is_ipv6 a \<Longrightarrow> \<not> address_ok (address_assign6 s a)"
  "sa_family s = AF_INET \<Longrightarrow> is_ipv6 a \<Longrightarrow> \<not> address_ok (address_assign4 s a)"
  by (simp_all add: address_ok_def address_assign6_def address_assign4_def address_family_def)

lemma htons_ntohs: "ntohs (htons x) = x"
  by (rule bit_word_eqI) (auto simp: htons_def ntohs_def bit_simps)



text \<open>C35. Addresses are well-formed and keep their port. Every constructor that can succeed gives an
  address whose flag agrees with the family stored in it, from which the port is read back as it was
  given, through the change of byte order and back; the one exception is a text that is not an
  address, which leaves the new object's memory unwritten.\<close>

theorem address_constructors_typed:
  "address_ok (address_port port loopback v6) \<and> port_text (address_port port loopback v6) = Inr (dec (unat port)) \<and>
   (let a = address_text it ip port v6 in
      if (if v6 then it_pton6 it ip = None else it_addr it ip = INADDR_NONE) then port_text a = Inl Uninitialised
      else address_ok a \<and> port_text a = Inr (dec (unat port))) \<and>
   (sa_family s = AF_INET \<or> sa_family s = AF_INET6 \<longrightarrow> address_ok (address_storage s)) \<and>
   (address_ok a \<longrightarrow> address_ok (address_copy a))"
  by (auto simp: address_ok_def address_port_def address_text_def address_storage_def address_copy_def address_family_def
      port_text_def sock_of_def fromIpPort4_def fromIpPort6_def fromTextPort4_def fromTextPort6_def htons_ntohs Let_def
      split: option.splits)

theorem address_constructors_typed_witness:
  "address_ok (address_storage (sockaddr_zero\<lparr>sa_family := AF_INET\<rparr>)) \<and> address_ok (address_copy address_default)"
proof -
  have "address_ok address_default" using address_constructors_typed [of 0 False False] by (simp add: address_default_def)
  then show ?thesis
    using address_constructors_typed [of 0 False False _ _ "sockaddr_zero\<lparr>sa_family := AF_INET\<rparr>" address_default] by simp
qed

text \<open>The text of an address starts with the same word whatever the address.\<close>

lemma sockaddrToString_prefix: "sockaddrToString it a = Inr s \<Longrightarrow> takeWhile (\<lambda>c. c \<noteq> CHR '':'') s = ''IP''"
  by (auto simp: sockaddrToString_def outcome_iff)

end
