(* ===== verification/Tcp_Client.thy ===== *)
theory Tcp_Client
  imports Tcp_Connection_Props Inet_Address
begin

text \<open>
  \<open>Net/include/TcpClient.h\<close> and \<open>Net/src/TcpClient.cpp\<close>: the client and its connector. The client is the
  application part of the world of an event loop; its closures are the values of \<open>client_fn\<close>. The
  socket calls and the user's connection callback are parameters. A timer the connector starts on the
  loop is recorded with its delay; when it expires it runs \<open>startInLoop\<close>.
\<close>

datatype connector_state = kDisconnected | kConnecting | kConnected

record connector =
  cn_fd :: int
  cn_state :: connector_state
  cn_handler :: "hid option"
  cn_retryDelayMs :: nat

record 's tcp_client =
  cl_connector :: connector
  cl_retry :: bool
  cl_connection :: "cid option"
  cl_fresh :: hid
  cl_timers :: "nat list"
  cl_user :: 's

datatype 'u client_fn = CL_start | CL_stop | CL_write | CL_error | CL_destroyed | CL_user 'u

type_synonym ('u, 'k, 's) client_net_loop = "('u client_fn, 'k, 's tcp_client) net_loop"

record ('u, 'k, 's) client_env =
  ce_net :: "('u client_fn, 'k, 's tcp_client) net"
  ce_address :: address
  ce_socket :: "sa_family \<Rightarrow> 'k \<Rightarrow> (errno + int) \<times> 'k"
  ce_connect :: "int \<Rightarrow> address \<Rightarrow> 'k \<Rightarrow> errno option \<times> 'k"
  ce_info :: "int \<Rightarrow> 'k \<Rightarrow> sock_info"
  ce_connected :: "(int \<Rightarrow> ('u, 'k, 's) client_net_loop \<Rightarrow> (cid \<times> ('u, 'k, 's) client_net_loop) outcome) option"

definition kInitRetryDelayMs :: nat where "kInitRetryDelayMs = 500"
definition kMaxRetryDelayMs :: nat where "kMaxRetryDelayMs = 30 * 1000"

definition client_of :: "('u, 'k, 's) client_net_loop \<Rightarrow> 's tcp_client" where "client_of l = nw_app (world l)"

definition connector_of :: "('u, 'k, 's) client_net_loop \<Rightarrow> connector" where "connector_of l = cl_connector (client_of l)"

definition on_tcp_client :: "('s tcp_client \<Rightarrow> 's tcp_client) \<Rightarrow> ('u, 'k, 's) client_net_loop \<Rightarrow> ('u, 'k, 's) client_net_loop" where
  "on_tcp_client f l = on_world (\<lambda>w. w\<lparr>nw_app := f (nw_app w)\<rparr>) l"

definition on_connector :: "(connector \<Rightarrow> connector) \<Rightarrow> ('u, 'k, 's) client_net_loop \<Rightarrow> ('u, 'k, 's) client_net_loop" where
  "on_connector f = on_tcp_client (\<lambda>a. a\<lparr>cl_connector := f (cl_connector a)\<rparr>)"

subsection \<open>Losing and restarting\<close>

definition connector_restart :: "(('u, 'k, 's) client_net_loop \<Rightarrow> ('u, 'k, 's) client_net_loop outcome) \<Rightarrow>
    ('u, 'k, 's) client_net_loop \<Rightarrow> ('u, 'k, 's) client_net_loop outcome" where
  "connector_restart start l = start (on_connector (\<lambda>x. x\<lparr>cn_state := kDisconnected, cn_retryDelayMs := kInitRetryDelayMs\<rparr>) l)"

text \<open>
  \<open>connection_.reset()\<close> drops the client's reference. \<open>held\<close> is the connection whose pointer the caller
  holds as an argument; any other connection dies here, as the client's reference is the one that
  keeps it alive.
\<close>

definition drop_connection :: "('u, 'k, 's) client_env \<Rightarrow> cid option \<Rightarrow>
    ('u, 'k, 's) client_net_loop \<Rightarrow> ('u, 'k, 's) client_net_loop outcome" where
  "drop_connection env held l =
     (let l' = on_tcp_client (\<lambda>a. a\<lparr>cl_connection := None\<rparr>) l in
      case cl_connection (client_of l) of
        None \<Rightarrow> Inr l
      | Some c \<Rightarrow> if held = Some c then Inr l' else conn_destroy (ce_net env) c l')"

definition removeConnection ::
  "('u, 'k, 's) client_env \<Rightarrow> nat \<Rightarrow> cid option \<Rightarrow> (('u, 'k, 's) client_net_loop \<Rightarrow> ('u, 'k, 's) client_net_loop outcome) \<Rightarrow>
   ('u, 'k, 's) client_net_loop \<Rightarrow> ('u, 'k, 's) client_net_loop outcome" where
  "removeConnection env tid held start l =
     assertC (isInLoopThread tid l) (obind (drop_connection env held l) (\<lambda>l.
     if cl_retry (client_of l) then connector_restart start l else Inr l))"

definition close_socket :: "('u, 'k, 's) client_env \<Rightarrow> ('u, 'k, 's) client_net_loop \<Rightarrow> ('u, 'k, 's) client_net_loop" where
  "close_socket env l =
     on_connector (\<lambda>x. x\<lparr>cn_fd := -1\<rparr>) (on_kernel (net_close (ce_net env) (cn_fd (connector_of l))) l)"

text \<open>The failure callback the client hands to its connector is \<open>removeConnection\<close>.\<close>

definition connector_retry ::
  "('u, 'k, 's) client_env \<Rightarrow> nat \<Rightarrow> (('u, 'k, 's) client_net_loop \<Rightarrow> ('u, 'k, 's) client_net_loop outcome) \<Rightarrow>
   ('u, 'k, 's) client_net_loop \<Rightarrow> ('u, 'k, 's) client_net_loop outcome" where
  "connector_retry env tid start l =
     (let l = (if cn_fd (connector_of l) > 0 then close_socket env l else l);
          l = on_connector (\<lambda>x. x\<lparr>cn_state := kDisconnected\<rparr>) l
      in if cl_retry (client_of l) then
           (let delay = cn_retryDelayMs (connector_of l);
                l = on_tcp_client (\<lambda>a. a\<lparr>cl_timers := cl_timers a @ [delay]\<rparr>) l
            in Inr (on_connector (\<lambda>x. x\<lparr>cn_retryDelayMs :=
                 (if 2 * delay < kMaxRetryDelayMs then 2 * delay else kMaxRetryDelayMs)\<rparr>) l))
         else removeConnection env tid None start l)"

subsection \<open>Connecting\<close>

definition connecting ::
  "('u, 'k, 's) client_env \<Rightarrow> nat \<Rightarrow> ('u, 'k, 's) client_net_loop \<Rightarrow> ('u, 'k, 's) client_net_loop outcome" where
  "connecting env tid l =
     (let h = cl_fresh (client_of l);
          l = on_connector (\<lambda>x. x\<lparr>cn_state := kConnecting, cn_handler := Some h\<rparr>) (on_tcp_client (\<lambda>a. a\<lparr>cl_fresh := h + 1\<rparr>) l)
      in obind (handler_construct (conn_base (ce_net env)) tid h (cn_fd (connector_of l)) ev_default l) (\<lambda>l.
         setWriting (conn_base (ce_net env)) tid h
           (on_handler h (\<lambda>x. setErrorCallBack (CB_user (CC_app CL_error)) (setWriteCallBack (CB_user (CC_app CL_write)) x)) l)))"

fun connectInLoop ::
  "('u, 'k, 's) client_env \<Rightarrow> nat \<Rightarrow> nat \<Rightarrow> ('u, 'k, 's) client_net_loop \<Rightarrow> ('u, 'k, 's) client_net_loop outcome" where
  "connectInLoop env tid 0 l = Inl Out_of_fuel"
| "connectInLoop env tid (Suc depth) l =
     assertC (isInLoopThread tid l) (assertC (cn_state (connector_of l) = kDisconnected)
       (let start = (\<lambda>l. if cn_state (connector_of l) \<noteq> kDisconnected then Inr l else connectInLoop env tid depth l);
            (r, k) = ce_socket env (address_family (ce_address env)) (nw_kernel (world l));
            l = syscall (r, k) l
        in case r of
             Inl e \<Rightarrow> Inl Exit
           | Inr fd \<Rightarrow>
               let l = on_connector (\<lambda>x. x\<lparr>cn_fd := fd\<rparr>) l;
                   (err, k) = ce_connect env fd (ce_address env) (nw_kernel (world l));
                   l = syscall (case err of Some e \<Rightarrow> Inl e | None \<Rightarrow> Inr (), k) l
               in if err \<in> {None, Some EINPROGRESS, Some EINTR, Some EISCONN} then connecting env tid l
                  else if err \<in> {Some EAGAIN, Some EADDRINUSE, Some EADDRNOTAVAIL, Some ECONNREFUSED, Some ENETUNREACH}
                  then connector_retry env tid start l
                  else removeConnection env tid None start (close_socket env l)))"

definition startInLoop ::
  "('u, 'k, 's) client_env \<Rightarrow> nat \<Rightarrow> nat \<Rightarrow> ('u, 'k, 's) client_net_loop \<Rightarrow> ('u, 'k, 's) client_net_loop outcome" where
  "startInLoop env tid depth l = (if cn_state (connector_of l) \<noteq> kDisconnected then Inr l else connectInLoop env tid depth l)"

definition newConnection ::
  "('u, 'k, 's) client_env \<Rightarrow> nat \<Rightarrow> int \<Rightarrow> ('u, 'k, 's) client_net_loop \<Rightarrow> ('u, 'k, 's) client_net_loop outcome" where
  "newConnection env tid fd l =
     assertC (isInLoopThread tid l) (case ce_connected env of
        None \<Rightarrow> Inl Assertion
      | Some f \<Rightarrow> obind (f fd l) (\<lambda>(c, l).
          Inr (setDestructorCallBack (Some CL_destroyed) c (on_tcp_client (\<lambda>a. a\<lparr>cl_connection := Some c\<rparr>) l))))"

text \<open>\<open>connectFail\<close> calls the failure callback of the user, if one is set; nothing calls it.\<close>

definition connectFail ::
  "nat \<Rightarrow> (('u, 'k, 's) client_net_loop \<Rightarrow> ('u, 'k, 's) client_net_loop outcome) option \<Rightarrow>
   ('u, 'k, 's) client_net_loop \<Rightarrow> ('u, 'k, 's) client_net_loop outcome" where
  "connectFail tid cb l = assertC (isInLoopThread tid l) (case cb of None \<Rightarrow> Inr l | Some f \<Rightarrow> f l)"

definition connector_remove ::
  "('u, 'k, 's) client_env \<Rightarrow> nat \<Rightarrow> ('u, 'k, 's) client_net_loop \<Rightarrow> ('u, 'k, 's) client_net_loop outcome" where
  "connector_remove env tid l = (case cn_handler (connector_of l) of
     None \<Rightarrow> Inl Null_pointer | Some h \<Rightarrow> removeListen (conn_base (ce_net env)) tid h l)"

definition connector_handleWrite ::
  "('u, 'k, 's) client_env \<Rightarrow> nat \<Rightarrow> nat \<Rightarrow> ('u, 'k, 's) client_net_loop \<Rightarrow> ('u, 'k, 's) client_net_loop outcome" where
  "connector_handleWrite env tid depth l =
     (if cn_state (connector_of l) = kConnecting then
        (let fd = cn_fd (connector_of l); info = ce_info env fd (nw_kernel (world l)) in
         if sockfd_has_error info \<noteq> 0 \<or> isSelfConnect info
         then obind (connector_remove env tid l) (connector_retry env tid (startInLoop env tid depth))
         else obind (connector_remove env tid (on_connector (\<lambda>x. x\<lparr>cn_state := kConnected\<rparr>) l)) (newConnection env tid fd))
      else Inr l)"

definition connector_handleError ::
  "('u, 'k, 's) client_env \<Rightarrow> nat \<Rightarrow> nat \<Rightarrow> ('u, 'k, 's) client_net_loop \<Rightarrow> ('u, 'k, 's) client_net_loop outcome" where
  "connector_handleError env tid depth l =
     assertC (isInLoopThread tid l)
       (if cn_state (connector_of l) = kConnecting
        then obind (connector_remove env tid l) (connector_retry env tid (startInLoop env tid depth)) else Inr l)"

definition stopInLoop ::
  "('u, 'k, 's) client_env \<Rightarrow> nat \<Rightarrow> ('u, 'k, 's) client_net_loop \<Rightarrow> ('u, 'k, 's) client_net_loop outcome" where
  "stopInLoop env tid l =
     assertC (isInLoopThread tid l)
       (if cn_state (connector_of l) = kConnecting
        then connector_remove env tid (on_connector (\<lambda>x. x\<lparr>cn_state := kDisconnected\<rparr>) l) else Inr l)"

text \<open>The closures of the client, run on the thread of the loop.\<close>

definition client_fn ::
  "('u, 'k, 's) client_env \<Rightarrow> nat \<Rightarrow> nat \<Rightarrow> 'u client_fn \<Rightarrow> ('u, 'k, 's) client_net_loop \<Rightarrow> ('u, 'k, 's) client_net_loop outcome" where
  "client_fn env tid depth m l = (case m of
     CL_start \<Rightarrow> startInLoop env tid depth l
   | CL_stop \<Rightarrow> stopInLoop env tid l
   | CL_write \<Rightarrow> connector_handleWrite env tid depth l
   | CL_error \<Rightarrow> connector_handleError env tid depth l
   | CL_destroyed \<Rightarrow> removeConnection env tid None (startInLoop env tid depth) l
   | CL_user u \<Rightarrow> net_app (ce_net env) m l)"

text \<open>
  The destructor callback receives the connection's pointer by value, so the connection is destroyed
  after \<open>removeConnection\<close> has returned.
\<close>

definition client_call ::
  "('u, 'k, 's) client_env \<Rightarrow> nat \<Rightarrow> nat \<Rightarrow> 'u client_fn \<Rightarrow> cid \<Rightarrow> ('u, 'k, 's) client_net_loop \<Rightarrow> ('u, 'k, 's) client_net_loop outcome" where
  "client_call env tid depth m c l = (case m of
     CL_user u \<Rightarrow> net_call (ce_net env) m c l
   | CL_destroyed \<Rightarrow> obind (removeConnection env tid (Some c) (startInLoop env tid depth) l) (conn_destroy (ce_net env) c)
   | _ \<Rightarrow> client_fn env tid depth m l)"

definition client_net :: "('u, 'k, 's) client_env \<Rightarrow> nat \<Rightarrow> nat \<Rightarrow> ('u client_fn, 'k, 's tcp_client) net" where
  "client_net env tid depth = (ce_net env)\<lparr>net_app := client_fn env tid depth, net_call := client_call env tid depth\<rparr>"

subsection \<open>The operations of the client\<close>

definition connector_start where
  "connector_start env tid depth fuel l = submit (conn_env (client_net env tid depth) tid fuel) tid (T_user (CT_app CL_start)) l"

definition connector_stop where
  "connector_stop env tid depth fuel l = submit (conn_env (client_net env tid depth) tid fuel) tid (T_user (CT_app CL_stop)) l"

definition connector_isConnected :: "connector \<Rightarrow> bool" where "connector_isConnected x \<longleftrightarrow> cn_state x = kDisconnected"
definition connector_isConnecting :: "connector \<Rightarrow> bool" where "connector_isConnecting x \<longleftrightarrow> cn_state x = kConnecting"

definition client_connect where "client_connect env tid depth fuel l = connector_start env tid depth fuel l"

definition client_disconnect where
  "client_disconnect env tid depth fuel l = (case cl_connection (client_of l) of
     Some c \<Rightarrow> disconnect (client_net env tid depth) tid fuel c l | None \<Rightarrow> Inr l)"

definition client_stop where
  "client_stop env tid depth fuel l =
     obind (connector_stop env tid depth fuel (on_tcp_client (\<lambda>a. a\<lparr>cl_retry := False\<rparr>) l))
       (client_disconnect env tid depth fuel)"

definition enableRetry where "enableRetry = on_tcp_client (\<lambda>a. a\<lparr>cl_retry := True\<rparr>)"
definition disableRetry where "disableRetry = on_tcp_client (\<lambda>a. a\<lparr>cl_retry := False\<rparr>)"

definition client_isConnected :: "'s tcp_client \<Rightarrow> bool" where "client_isConnected a \<longleftrightarrow> cl_connection a \<noteq> None"
definition client_isConnecting :: "'s tcp_client \<Rightarrow> bool" where
  "client_isConnecting a \<longleftrightarrow> connector_isConnecting (cl_connector a)"


subsection \<open>Refused connections\<close>

lemma client_of_on_tcp_client [simp]: "client_of (on_tcp_client f l) = f (client_of l)"
  by (simp add: client_of_def on_tcp_client_def on_world_def world_def)

lemma connector_of_on_tcp_client [simp]: "connector_of (on_tcp_client f l) = cl_connector (f (client_of l))"
  by (simp add: connector_of_def)

lemma client_of_on_connector [simp]: "client_of (on_connector f l) = (client_of l)\<lparr>cl_connector := f (connector_of l)\<rparr>"
  by (simp add: on_connector_def connector_of_def)

lemma connector_of_on_connector [simp]: "connector_of (on_connector f l) = f (connector_of l)"
  by (simp add: on_connector_def connector_of_def)

lemma client_of_syscall [simp]: "client_of (syscall rk l) = client_of l" "client_of (on_kernel g l) = client_of l"
  by (auto simp: client_of_def syscall_def on_kernel_def on_world_def world_def split: sum.split)

lemma connector_of_syscall [simp]: "connector_of (syscall rk l) = connector_of l" "connector_of (on_kernel g l) = connector_of l"
  by (simp_all add: connector_of_def)

lemma in_loop_thread_client [simp]:
  "isInLoopThread tid (on_tcp_client f l) = isInLoopThread tid l"
  "isInLoopThread tid (on_connector g l) = isInLoopThread tid l"
  "isInLoopThread tid (syscall rk l) = isInLoopThread tid l"
  "isInLoopThread tid (on_kernel h l) = isInLoopThread tid l"
  by (auto simp: isInLoopThread_def on_tcp_client_def on_connector_def syscall_def on_kernel_def on_world_def)

definition soft_errors :: "errno set" where
  "soft_errors = {EAGAIN, EADDRINUSE, EADDRNOTAVAIL, ECONNREFUSED, ENETUNREACH}"

definition sockets_open :: "('u, 'k, 's) client_env \<Rightarrow> bool" where
  "sockets_open env \<longleftrightarrow> (\<forall>k. \<exists>fd. fst (ce_socket env (address_family (ce_address env)) k) = Inr fd \<and> fd > 0)"

definition connect_fails :: "errno set \<Rightarrow> ('u, 'k, 's) client_env \<Rightarrow> bool" where
  "connect_fails E env \<longleftrightarrow> (\<forall>fd k. \<exists>e \<in> E. fst (ce_connect env fd (ce_address env) k) = Some e)"

definition waiting :: "nat \<Rightarrow> ('u, 'k, 's) client_net_loop \<Rightarrow> bool" where
  "waiting tid l \<longleftrightarrow> isInLoopThread tid l \<and> cl_retry (client_of l) \<and> cn_state (connector_of l) = kDisconnected"

lemma sockets_openE:
  assumes "sockets_open env"
  obtains fd k' where "ce_socket env (address_family (ce_address env)) k = (Inr fd, k')" "fd > 0"
  using assms unfolding sockets_open_def by (metis prod.collapse)

lemma connect_failsE:
  assumes "connect_fails E env"
  obtains e k' where "ce_connect env fd (ce_address env) k = (Some e, k')" "e \<in> E"
  using assms unfolding connect_fails_def by (metis prod.collapse)







lemma fatal_connect_never_returns:
  assumes "sockets_open env" and "connect_fails {e. e \<notin> soft_errors \<union> {EINPROGRESS, EINTR, EISCONN}} env"
    and "waiting tid l" and "cl_connection (client_of l) = None"
  shows "connectInLoop env tid depth l = Inl Out_of_fuel"
  using assms(3,4)
proof (induction depth arbitrary: l)
  case 0
  then show ?case by simp
next
  case (Suc depth)
  obtain fd k' where sock: "ce_socket env (address_family (ce_address env)) (nw_kernel (world l)) = (Inr fd, k')" "fd > 0"
    using sockets_openE[OF assms(1)] .
  obtain e k'' where conn: "ce_connect env fd (ce_address env)
      (nw_kernel (world (on_connector (\<lambda>x. x\<lparr>cn_fd := fd\<rparr>) (syscall (Inr fd :: errno + int, k') l)))) = (Some e, k'')"
      "e \<in> {e. e \<notin> soft_errors \<union> {EINPROGRESS, EINTR, EISCONN}}"
    using connect_failsE[OF assms(2)] .
  show ?case
    using Suc.prems sock conn(2)
    by (auto simp: waiting_def Let_def conn(1) soft_errors_def removeConnection_def drop_connection_def
        connector_restart_def close_socket_def intro!: Suc.IH)
qed








end
