(* ===== verification/Tcp_Server.thy ===== *)
theory Tcp_Server
  imports Inet_Address
begin

text \<open>
  The TCP server: \<open>Net/include/EventLoopThread.h\<close>, \<open>EventLoopThreadPool.h\<close>, \<open>Acceptor.h\<close>, \<open>AcceptorPool.h\<close>,
  \<open>TcpServer.h\<close> and their source files. A server is a system of threads: the main thread that starts and
  stops it, acceptor threads that accept connections and hand them round to worker threads. Each has an
  event loop; here a loop is what the server uses of it, its queue of tasks and the life time of the
  object, which is a local variable of its thread. What a thread does between two accesses to shared
  data is one step.

  The queue of a loop keeps the order of one producer only, as its documentation says: the queue of an
  acceptor is one list per worker, and the tasks of a worker are taken in any order. The connection
  callback of the user is taken to return a new connection.
\<close>

subsection \<open>Accepting\<close>

record 'k accept_os =
  os_accept :: "int \<Rightarrow> 'k \<Rightarrow> (errno + int \<times> sockaddr) \<times> 'k"
  os_close_fd :: "int \<Rightarrow> 'k \<Rightarrow> 'k"
  os_open_null :: "'k \<Rightarrow> (errno + int) \<times> 'k"

text \<open>The thread's \<open>errno\<close> and the kernel, as an accepting thread sees them.\<close>

record 'k accept_state =
  as_errno :: errno
  as_idleFd :: int
  as_kernel :: 'k

definition acceptAutoOrDie ::
  "'k accept_os \<Rightarrow> bool \<Rightarrow> int \<Rightarrow> address \<Rightarrow> 'k accept_state \<Rightarrow> (int \<times> address \<times> 'k accept_state) outcome" where
  "acceptAutoOrDie ops ipv6 fd address st =
     (let a0 = (if ipv6 then set_ipv6_addr sockaddr_zero address else set_ipv4_addr sockaddr_zero address);
          (r, k) = os_accept ops fd (as_kernel st); st = st\<lparr>as_kernel := k\<rparr>
      in case r of
           Inr (connfd, sa) \<Rightarrow> Inr (connfd, a0\<lparr>ad_sock := Some sa\<rparr>, st)
         | Inl e \<Rightarrow> if e \<in> {EINTR, EAGAIN, ECONNABORTED, EPROTO, EPERM, EMFILE}
                    then Inr (-1, a0, st\<lparr>as_errno := e\<rparr>) else Inl Exit)"

text \<open>The branch for a full descriptor table: give up the idle descriptor, accept, close, take it back.\<close>

definition accept_emfile ::
  "'k accept_os \<Rightarrow> bool \<Rightarrow> int \<Rightarrow> address \<Rightarrow> 'k accept_state \<Rightarrow> (address \<times> 'k accept_state) outcome" where
  "accept_emfile ops ipv6 fd addr st =
     (let st = st\<lparr>as_kernel := os_close_fd ops (as_idleFd st) (as_kernel st)\<rparr>
      in obind (acceptAutoOrDie ops ipv6 fd addr st) (\<lambda>(idle, addr, st).
         let (r, k) = os_open_null ops (os_close_fd ops idle (as_kernel st))
         in Inr (addr, case r of Inr n \<Rightarrow> st\<lparr>as_idleFd := n, as_kernel := k\<rparr>
                       | Inl e \<Rightarrow> st\<lparr>as_idleFd := -1, as_kernel := k, as_errno := e\<rparr>)))"

text \<open>\<open>Acceptor::accept\<close>; \<open>newcon\<close> is \<open>NewConnection\<close> on the state of the server.\<close>

fun acceptor_accept ::
  "'k accept_os \<Rightarrow> (int \<Rightarrow> address \<Rightarrow> 's \<Rightarrow> 's outcome) \<Rightarrow> bool \<Rightarrow> int \<Rightarrow> nat \<Rightarrow> address \<Rightarrow> 'k accept_state \<Rightarrow> 's \<Rightarrow>
   ('k accept_state \<times> 's) outcome" where
  "acceptor_accept ops newcon ipv6 lfd 0 addr st s = Inl Out_of_fuel"
| "acceptor_accept ops newcon ipv6 lfd (Suc fuel) addr st s =
     obind (acceptAutoOrDie ops ipv6 lfd addr st) (\<lambda>(fd, addr, st).
     if fd > 0 then obind (newcon fd addr s) (acceptor_accept ops newcon ipv6 lfd fuel addr st)
     else obind (if as_errno st = EMFILE then accept_emfile ops ipv6 fd addr st else Inr (addr, st)) (\<lambda>(addr, st).
          if as_errno st = EAGAIN then Inr (st, s) else acceptor_accept ops newcon ipv6 lfd fuel addr st s))"

subsection \<open>The system of threads\<close>

record loop_thread =
  lt_id :: int
  lt_loop :: bool      \<comment> \<open>\<open>loop_\<close> is not null\<close>
  lt_alive :: bool     \<comment> \<open>the loop object exists\<close>
  lt_quit :: bool      \<comment> \<open>the loop was told to quit\<close>
  lt_joinable :: bool

datatype conn_phase = Open | Closing | Closed

record conn_obj =
  co_fd :: int
  co_acc :: nat
  co_work :: nat
  co_phase :: conn_phase

type_synonym conn_id = nat

datatype worker_task = WT_new nat int address | WT_destruct conn_id

datatype acceptor_task = AT_insert conn_id | AT_remove conn_id

datatype acc_pc = A_wait | A_assert int address | A_index int address | A_load int address "nat option"
  | A_store int address "nat option" nat | A_submit int address "nat option"

datatype main_pc = M_start_acc nat | M_start_work nat | M_running
  | M_quit_acc nat | M_join_acc nat | M_quit_work nat | M_join_work nat | M_stopped

record tcp_server =
  sv_next :: nat
  sv_acc :: "loop_thread list"
  sv_work :: "loop_thread list"
  sv_pc :: "nat \<Rightarrow> acc_pc"
  sv_connects :: "nat \<Rightarrow> conn_id set"
  sv_wq :: "nat \<Rightarrow> worker_task list"
  sv_aq :: "nat \<Rightarrow> nat \<Rightarrow> acceptor_task list"
  sv_conns :: "conn_obj list"
  sv_callback :: bool
  sv_main :: main_pc

definition AcceptorinitialId :: int where "AcceptorinitialId = 100"

definition thread_new :: "int \<Rightarrow> loop_thread" where
  "thread_new i = \<lparr>lt_id = i, lt_loop = False, lt_alive = False, lt_quit = False, lt_joinable = False\<rparr>"

definition server_new :: "bool \<Rightarrow> nat \<Rightarrow> nat \<Rightarrow> tcp_server" where
  "server_new callback AcceptorNum WorkThreadnum =
     \<lparr>sv_next = 0, sv_acc = map (\<lambda>i. thread_new (int i + AcceptorinitialId)) [0..<AcceptorNum],
      sv_work = map (\<lambda>i. thread_new (int i)) [0..<WorkThreadnum], sv_pc = (\<lambda>_. A_wait), sv_connects = (\<lambda>_. {}),
      sv_wq = (\<lambda>_. []), sv_aq = (\<lambda>_ _. []), sv_conns = [], sv_callback = callback, sv_main = M_start_acc 0\<rparr>"

subsection \<open>Threads of event loops\<close>

text \<open>\<open>EventLoopThread::run\<close>: starting over a thread that was not joined terminates the program; the call
  returns when the new thread has published its loop.\<close>

definition thread_run :: "loop_thread \<Rightarrow> loop_thread outcome" where
  "thread_run t = (if lt_joinable t then Inl Terminate
     else Inr (t\<lparr>lt_loop := True, lt_alive := True, lt_quit := False, lt_joinable := True\<rparr>))"

text \<open>\<open>stop\<close>, before and after \<open>join\<close>.\<close>

definition thread_quit :: "loop_thread \<Rightarrow> loop_thread outcome" where
  "thread_quit t = (if \<not> lt_loop t then Inr t else if lt_alive t then Inr (t\<lparr>lt_quit := True\<rparr>) else Inl Dangling)"

definition thread_join :: "loop_thread \<Rightarrow> loop_thread outcome option" where
  "thread_join t = (if \<not> lt_joinable t then Some (Inl Terminate)
     else if lt_alive t then None else Some (Inr (t\<lparr>lt_joinable := False\<rparr>)))"

definition on_acc :: "nat \<Rightarrow> loop_thread \<Rightarrow> tcp_server \<Rightarrow> tcp_server" where "on_acc a t s = s\<lparr>sv_acc := (sv_acc s)[a := t]\<rparr>"
definition on_work :: "nat \<Rightarrow> loop_thread \<Rightarrow> tcp_server \<Rightarrow> tcp_server" where "on_work w t s = s\<lparr>sv_work := (sv_work s)[w := t]\<rparr>"

text \<open>The main thread: \<open>TcpServer::loop\<close>, then \<open>TcpServer::stop\<close>, over the threads of both pools in turn. Starting
  an acceptor thread includes making its acceptor, which sets the callback and listens at once; its
  descriptors are made by system calls that exit on a failure.\<close>

definition main_to :: "main_pc \<Rightarrow> tcp_server \<Rightarrow> tcp_server" where "main_to m s = s\<lparr>sv_main := m\<rparr>"

definition acceptor_pool_run :: "nat \<Rightarrow> tcp_server \<Rightarrow> tcp_server outcome option" where
  "acceptor_pool_run i s = Some (if i < length (sv_acc s)
     then obind (thread_run (sv_acc s ! i)) (\<lambda>t. Inr (main_to (M_start_acc (i + 1)) (on_acc i t s)))
     else Inr (main_to (M_start_work 0) s))"

definition work_pool_run :: "nat \<Rightarrow> tcp_server \<Rightarrow> tcp_server outcome option" where
  "work_pool_run i s = Some (if i < length (sv_work s)
     then obind (thread_run (sv_work s ! i)) (\<lambda>t. Inr (main_to (M_start_work (i + 1)) (on_work i t s)))
     else Inr (main_to M_running s))"

text \<open>\<open>stop\<close> of a pool: each thread in turn is told to quit and then joined.\<close>

definition acceptor_pool_stop :: "nat \<Rightarrow> bool \<Rightarrow> tcp_server \<Rightarrow> tcp_server outcome option" where
  "acceptor_pool_stop i joining s = (if joining
     then map_option (\<lambda>r. obind r (\<lambda>t. Inr (main_to (M_quit_acc (i + 1)) (on_acc i t s)))) (thread_join (sv_acc s ! i))
     else Some (if i < length (sv_acc s)
       then obind (thread_quit (sv_acc s ! i)) (\<lambda>t. Inr (main_to (M_join_acc i) (on_acc i t s)))
       else Inr (main_to (M_quit_work 0) s)))"

definition work_pool_stop :: "nat \<Rightarrow> bool \<Rightarrow> tcp_server \<Rightarrow> tcp_server outcome option" where
  "work_pool_stop i joining s = (if joining
     then map_option (\<lambda>r. obind r (\<lambda>t. Inr (main_to (M_quit_work (i + 1)) (on_work i t s)))) (thread_join (sv_work s ! i))
     else Some (if i < length (sv_work s)
       then obind (thread_quit (sv_work s ! i)) (\<lambda>t. Inr (main_to (M_join_work i) (on_work i t s)))
       else Inr (main_to M_stopped s)))"

definition main_step :: "tcp_server \<Rightarrow> tcp_server outcome option" where
  "main_step s = (case sv_main s of
     M_start_acc i \<Rightarrow> acceptor_pool_run i s
   | M_start_work i \<Rightarrow> work_pool_run i s
   | M_running \<Rightarrow> Some (Inr (main_to (M_quit_acc 0) s))
   | M_quit_acc i \<Rightarrow> acceptor_pool_stop i False s
   | M_join_acc i \<Rightarrow> acceptor_pool_stop i True s
   | M_quit_work i \<Rightarrow> work_pool_stop i False s
   | M_join_work i \<Rightarrow> work_pool_stop i True s
   | M_stopped \<Rightarrow> None)"

subsection \<open>Handing connections round\<close>

definition acc_goto :: "nat \<Rightarrow> acc_pc \<Rightarrow> tcp_server \<Rightarrow> tcp_server" where
  "acc_goto a pc s = s\<lparr>sv_pc := (sv_pc s)(a := pc)\<rparr>"

definition worker_submit :: "nat \<Rightarrow> worker_task \<Rightarrow> tcp_server \<Rightarrow> tcp_server outcome" where
  "worker_submit w t s = (if lt_alive (sv_work s ! w) then Inr (s\<lparr>sv_wq := (sv_wq s)(w := sv_wq s w @ [t])\<rparr>) else Inl Dangling)"

definition acceptor_submit :: "nat \<Rightarrow> nat \<Rightarrow> acceptor_task \<Rightarrow> tcp_server \<Rightarrow> tcp_server outcome" where
  "acceptor_submit a w t s = (if lt_alive (sv_acc s ! a)
     then Inr (s\<lparr>sv_aq := (sv_aq s)(a := (sv_aq s a)(w := sv_aq s a w @ [t]))\<rparr>) else Inl Dangling)"

text \<open>\<open>NewConnection\<close>, with the accesses of \<open>getEventLoop\<close> to the shared counter as steps.\<close>

definition acceptor_step :: "nat \<Rightarrow> tcp_server \<Rightarrow> tcp_server outcome option" where
  "acceptor_step a s = (let n = length (sv_work s) in case sv_pc s a of
     A_wait \<Rightarrow> None
   | A_assert fd ad \<Rightarrow> Some (assertC (sv_next s < n) (Inr (acc_goto a (A_index fd ad) s)))
   | A_index fd ad \<Rightarrow> Some (if sv_next s < n
       then Inr (acc_goto a (A_load fd ad (if lt_loop (sv_work s ! sv_next s) then Some (sv_next s) else None)) s) else Inl Out_of_bounds)
   | A_load fd ad lp \<Rightarrow> Some (if n = 0 then Inl Div_by_zero else Inr (acc_goto a (A_store fd ad lp ((sv_next s + 1) mod n)) s))
   | A_store fd ad lp v \<Rightarrow> Some (Inr (acc_goto a (A_submit fd ad lp) (s\<lparr>sv_next := v\<rparr>)))
   | A_submit fd ad lp \<Rightarrow> Some (assertC (sv_callback s) (case lp of
         None \<Rightarrow> Inl Assertion
       | Some w \<Rightarrow> worker_submit w (WT_new a fd ad) (acc_goto a A_wait s))))"

text \<open>The same for an acceptor that nobody interferes with.\<close>

definition getEventLoop :: "tcp_server \<Rightarrow> (nat option \<times> tcp_server) outcome" where
  "getEventLoop s = (let n = length (sv_work s) in
     assertC (sv_next s < n)
       (Inr (if lt_loop (sv_work s ! sv_next s) then Some (sv_next s) else None, s\<lparr>sv_next := (sv_next s + 1) mod n\<rparr>)))"

definition acceptor_NewConnection :: "nat \<Rightarrow> int \<Rightarrow> address \<Rightarrow> tcp_server \<Rightarrow> tcp_server outcome" where
  "acceptor_NewConnection a fd ad s =
     obind (getEventLoop s) (\<lambda>(lp, s).
     assertC (sv_callback s) (case lp of None \<Rightarrow> Inl Assertion | Some w \<Rightarrow> worker_submit w (WT_new a fd ad) s))"

subsection \<open>Tasks of the loops\<close>

definition phase_to :: "conn_id \<Rightarrow> conn_phase \<Rightarrow> tcp_server \<Rightarrow> tcp_server" where
  "phase_to c ph s = s\<lparr>sv_conns := (sv_conns s)[c := (sv_conns s ! c)\<lparr>co_phase := ph\<rparr>]\<rparr>"

definition run_worker_task :: "nat \<Rightarrow> worker_task \<Rightarrow> tcp_server \<Rightarrow> tcp_server outcome" where
  "run_worker_task w t s = (case t of
     WT_new a fd ad \<Rightarrow>
       let c = length (sv_conns s);
           s = s\<lparr>sv_conns := sv_conns s @ [\<lparr>co_fd = fd, co_acc = a, co_work = w, co_phase = Open\<rparr>]\<rparr>
       in acceptor_submit a w (AT_insert c) s
   | WT_destruct c \<Rightarrow> acceptor_submit (co_acc (sv_conns s ! c)) w (AT_remove c) s)"

text \<open>A removed connection loses its last reference when the task that removes it is over.\<close>

definition run_acceptor_task :: "nat \<Rightarrow> acceptor_task \<Rightarrow> tcp_server \<Rightarrow> tcp_server" where
  "run_acceptor_task a t s = (case t of
     AT_insert c \<Rightarrow> s\<lparr>sv_connects := (sv_connects s)(a := insert c (sv_connects s a))\<rparr>
   | AT_remove c \<Rightarrow> phase_to c Closed (s\<lparr>sv_connects := (sv_connects s)(a := sv_connects s a - {c})\<rparr>))"

datatype server_event =
    E_main                      \<comment> \<open>the main thread\<close>
  | E_accept nat int address    \<comment> \<open>\<open>accept\<close> gives an acceptor a descriptor\<close>
  | E_acceptor nat              \<comment> \<open>the next step of its \<open>NewConnection\<close>\<close>
  | E_insert_remove nat nat     \<comment> \<open>an acceptor runs the oldest task from a worker\<close>
  | E_work nat worker_task      \<comment> \<open>a worker runs one of its tasks\<close>
  | E_close nat conn_id         \<comment> \<open>a worker's loop reports the end of a connection\<close>
  | E_leave_acc nat             \<comment> \<open>an acceptor's loop returns and is destroyed\<close>
  | E_leave_work nat

definition server_do :: "server_event \<Rightarrow> tcp_server \<Rightarrow> tcp_server outcome option" where
  "server_do e s = (let acc = (\<lambda>a. a < length (sv_acc s) \<and> lt_alive (sv_acc s ! a));
                        work = (\<lambda>w. w < length (sv_work s) \<and> lt_alive (sv_work s ! w)) in case e of
     E_main \<Rightarrow> main_step s
   | E_accept a fd ad \<Rightarrow> if acc a \<and> sv_pc s a = A_wait \<and> fd > 0 then Some (Inr (acc_goto a (A_assert fd ad) s)) else None
   | E_acceptor a \<Rightarrow> if acc a then acceptor_step a s else None
   | E_insert_remove a w \<Rightarrow> if acc a \<and> sv_pc s a = A_wait
       then (case sv_aq s a w of [] \<Rightarrow> None
             | t # ts \<Rightarrow> Some (Inr (run_acceptor_task a t (s\<lparr>sv_aq := (sv_aq s)(a := (sv_aq s a)(w := ts))\<rparr>)))) else None
   | E_work w t \<Rightarrow> if work w \<and> t \<in> set (sv_wq s w)
       then Some (run_worker_task w t (s\<lparr>sv_wq := (sv_wq s)(w := remove1 t (sv_wq s w))\<rparr>)) else None
   | E_close w c \<Rightarrow> if work w \<and> c < length (sv_conns s) \<and> co_work (sv_conns s ! c) = w \<and> co_phase (sv_conns s ! c) = Open
       then Some (worker_submit w (WT_destruct c) (phase_to c Closing s)) else None
   | E_leave_acc a \<Rightarrow> if acc a \<and> lt_quit (sv_acc s ! a) \<and> sv_pc s a = A_wait \<and> (\<forall>w < length (sv_work s). sv_aq s a w = [])
       then Some (Inr (on_acc a ((sv_acc s ! a)\<lparr>lt_alive := False\<rparr>) s)) else None
   | E_leave_work w \<Rightarrow> if work w \<and> lt_quit (sv_work s ! w) \<and> sv_wq s w = []
       then Some (Inr (on_work w ((sv_work s ! w)\<lparr>lt_alive := False\<rparr>) s)) else None)"

text \<open>A run; an event that is not possible in its state has no effect.\<close>

fun server_run :: "server_event list \<Rightarrow> tcp_server \<Rightarrow> tcp_server outcome" where
  "server_run [] s = Inr s"
| "server_run (e # es) s = (case server_do e s of None \<Rightarrow> server_run es s | Some r \<Rightarrow> obind r (server_run es))"

end
