(* ===== verification/Tcp_Server_Props.thy ===== *)
theory Tcp_Server_Props
  imports Tcp_Server
begin

text \<open>
  What the server does with the connections its kernel accepts: where they go, which object owns them,
  and the states in which it fails.
\<close>

subsection \<open>Accepting until the backlog is empty\<close>

text \<open>The documented behaviour of \<open>accept\<close> on a listening, non-blocking socket.\<close>

definition accept_spec :: "'k accept_os \<Rightarrow> int \<Rightarrow> ('k \<Rightarrow> (int \<times> sockaddr) list) \<Rightarrow> bool" where
  "accept_spec ops lfd backlog \<longleftrightarrow> (\<forall>k. case backlog k of
     [] \<Rightarrow> fst (os_accept ops lfd k) = Inl EAGAIN \<and> backlog (snd (os_accept ops lfd k)) = []
   | (fd, sa) # rest \<Rightarrow> fst (os_accept ops lfd k) = Inr (fd, sa) \<and> fd > 0 \<and> backlog (snd (os_accept ops lfd k)) = rest)"

definition peer_address :: "bool \<Rightarrow> sockaddr \<Rightarrow> address" where
  "peer_address v6 sa = \<lparr>is_ipv6 = v6, ad_sock = Some sa\<rparr>"

lemma acceptAutoOrDie_empty:
  assumes "accept_spec ops lfd backlog" and "backlog (as_kernel st) = []"
  shows "\<exists>ad k'. acceptAutoOrDie ops v6 lfd addr st = Inr (-1, ad, st\<lparr>as_kernel := k', as_errno := EAGAIN\<rparr>) \<and> backlog k' = []"
proof -
  have "fst (os_accept ops lfd (as_kernel st)) = Inl EAGAIN \<and> backlog (snd (os_accept ops lfd (as_kernel st))) = []"
    using assms(1)[unfolded accept_spec_def, rule_format, of "as_kernel st"] assms(2) by simp
  then show ?thesis by (auto simp: acceptAutoOrDie_def Let_def case_prod_unfold)
qed

lemma acceptAutoOrDie_pending:
  assumes "accept_spec ops lfd backlog" and "backlog (as_kernel st) = (fd, sa) # rest"
  shows "\<exists>k'. acceptAutoOrDie ops v6 lfd addr st = Inr (fd, peer_address v6 sa, st\<lparr>as_kernel := k'\<rparr>) \<and> fd > 0 \<and> backlog k' = rest"
proof -
  have "fst (os_accept ops lfd (as_kernel st)) = Inr (fd, sa) \<and> fd > 0 \<and> backlog (snd (os_accept ops lfd (as_kernel st))) = rest"
    using assms(1)[unfolded accept_spec_def, rule_format, of "as_kernel st"] assms(2) by simp
  then show ?thesis
    by (auto simp: acceptAutoOrDie_def Let_def case_prod_unfold peer_address_def set_ipv6_addr_def set_ipv4_addr_def)
qed

lemma acceptor_accept_backlog:
  assumes "accept_spec ops lfd backlog" and "length (backlog (as_kernel st)) < fuel"
    and "ofold (\<lambda>(fd, sa). newcon fd (peer_address v6 sa)) (backlog (as_kernel st)) s = Inr s'"
  shows "\<exists>st'. acceptor_accept ops newcon v6 lfd fuel addr st s = Inr (st', s') \<and> backlog (as_kernel st') = []"
  using assms(2,3)
proof (induction fuel arbitrary: addr st s)
  case (Suc fuel)
  show ?case
  proof (cases "backlog (as_kernel st)")
    case Nil
    from acceptAutoOrDie_empty[OF assms(1) this, of v6 addr] Nil show ?thesis using Suc.prems by auto
  next
    case (Cons x rest)
    obtain fd sa where x: "x = (fd, sa)" by fastforce
    obtain k' where k': "acceptAutoOrDie ops v6 lfd addr st = Inr (fd, peer_address v6 sa, st\<lparr>as_kernel := k'\<rparr>)" "fd > 0" "backlog k' = rest"
      using acceptAutoOrDie_pending[OF assms(1) Cons[unfolded x]] by blast
    obtain s1 where s1: "newcon fd (peer_address v6 sa) s = Inr s1"
        "ofold (\<lambda>(fd, sa). newcon fd (peer_address v6 sa)) rest s1 = Inr s'"
      using Suc.prems(2) Cons x by (auto simp: outcome_iff)
    have "\<exists>st'. acceptor_accept ops newcon v6 lfd fuel (peer_address v6 sa) (st\<lparr>as_kernel := k'\<rparr>) s1 = Inr (st', s') \<and> backlog (as_kernel st') = []"
      by (rule Suc.IH) (use Suc.prems(1) Cons k'(3) s1(2) in auto)
    then show ?thesis using k'(1,2) s1(1) by simp
  qed
qed simp

text \<open>A server whose workers are all running.\<close>

definition serving :: "tcp_server \<Rightarrow> bool" where
  "serving s \<longleftrightarrow> sv_next s < length (sv_work s) \<and> sv_callback s \<and>
     (\<forall>t \<in> set (sv_work s). lt_loop t \<and> lt_alive t \<and> \<not> lt_quit t) \<and> (\<forall>t \<in> set (sv_acc s). lt_alive t \<and> \<not> lt_quit t)"

lemma NewConnection_serving:
  assumes "serving s"
  shows "acceptor_NewConnection a fd ad s = Inr (s\<lparr>sv_next := (sv_next s + 1) mod length (sv_work s),
      sv_wq := (sv_wq s)(sv_next s := sv_wq s (sv_next s) @ [WT_new a fd ad])\<rparr>)"
  using assms by (simp add: serving_def acceptor_NewConnection_def getEventLoop_def worker_submit_def Let_def)

text \<open>The tasks a worker gets when connections are handed round from a starting position.\<close>

definition dealt :: "nat \<Rightarrow> bool \<Rightarrow> nat \<Rightarrow> nat \<Rightarrow> (int \<times> sockaddr) list \<Rightarrow> nat \<Rightarrow> worker_task list" where
  "dealt a v6 n start cs w =
     map (\<lambda>(i, fd, sa). WT_new a fd (peer_address v6 sa)) (filter (\<lambda>(i, c). (start + i) mod n = w) (enumerate 0 cs))"

lemma dealt_Nil [simp]: "dealt a v6 n start [] w = []"
  by (simp add: dealt_def)

lemma filter_enumerate_Suc: "filter p (enumerate (Suc k) xs) = map (\<lambda>(i, x). (Suc i, x)) (filter (\<lambda>(i, x). p (Suc i, x)) (enumerate k xs))"
  by (induction xs arbitrary: k) auto

lemma dealt_Cons:
  "dealt a v6 n start ((fd, sa) # cs) w =
     (if start mod n = w then [WT_new a fd (peer_address v6 sa)] else []) @ dealt a v6 n ((start + 1) mod n) cs w"
  by (auto simp: dealt_def filter_enumerate_Suc comp_def case_prod_unfold mod_simps intro!: arg_cong[where f = "map _"] filter_cong)

lemma NewConnection_round_robin:
  assumes "serving s"
  shows "\<exists>s'. ofold (\<lambda>(fd, sa). acceptor_NewConnection a fd (peer_address v6 sa)) cs s = Inr s' \<and> serving s' \<and>
     (\<forall>w < length (sv_work s). sv_wq s' w = sv_wq s w @ dealt a v6 (length (sv_work s)) (sv_next s) cs w)"
  using assms
proof (induction cs arbitrary: s)
  case (Cons c cs)
  obtain fd sa where c: "c = (fd, sa)" by fastforce
  let ?s1 = "s\<lparr>sv_next := (sv_next s + 1) mod length (sv_work s),
      sv_wq := (sv_wq s)(sv_next s := sv_wq s (sv_next s) @ [WT_new a fd (peer_address v6 sa)])\<rparr>"
  have n: "sv_next s < length (sv_work s)" using Cons.prems by (simp add: serving_def)
  have "(sv_next s + 1) mod length (sv_work s) < length (sv_work s)" using n by (intro mod_less_divisor) linarith
  then have "serving ?s1" using Cons.prems by (simp add: serving_def)
  from Cons.IH[OF this] show ?case
    using n NewConnection_serving[OF Cons.prems] by (auto simp: c dealt_Cons)
qed simp

subsection \<open>Who refers to a connection\<close>

fun task_conn :: "acceptor_task \<Rightarrow> conn_id" where
  "task_conn (AT_insert c) = c"
| "task_conn (AT_remove c) = c"

definition pending_acc :: "conn_id \<Rightarrow> tcp_server \<Rightarrow> acceptor_task list" where
  "pending_acc c s = (let x = sv_conns s ! c in filter (\<lambda>t. task_conn t = c) (sv_aq s (co_acc x) (co_work x)))"

definition pending_destruct :: "conn_id \<Rightarrow> tcp_server \<Rightarrow> nat" where
  "pending_destruct c s = count_list (sv_wq s (co_work (sv_conns s ! c))) (WT_destruct c)"

definition registered :: "conn_id \<Rightarrow> tcp_server \<Rightarrow> bool" where
  "registered c s \<longleftrightarrow> c \<in> sv_connects s (co_acc (sv_conns s ! c))"

text \<open>In each phase of its life a connection is known to its acceptor, or about to be; it is about to
  be removed once, and after that nothing refers to it.\<close>

definition conn_ok :: "conn_id \<Rightarrow> tcp_server \<Rightarrow> bool" where
  "conn_ok c s \<longleftrightarrow> (let before = (if registered c s then [] else [AT_insert c]) in case co_phase (sv_conns s ! c) of
     Open \<Rightarrow> pending_destruct c s = 0 \<and> pending_acc c s = before
   | Closing \<Rightarrow> pending_destruct c s = 1 \<and> pending_acc c s = before \<or>
                pending_destruct c s = 0 \<and> pending_acc c s = before @ [AT_remove c]
   | Closed \<Rightarrow> pending_destruct c s = 0 \<and> pending_acc c s = [] \<and> \<not> registered c s)"

fun pc_ok :: "nat \<Rightarrow> acc_pc \<Rightarrow> bool" where
  "pc_ok n (A_load fd ad lp) \<longleftrightarrow> (\<exists>w < n. lp = Some w)"
| "pc_ok n (A_store fd ad lp v) \<longleftrightarrow> (\<exists>w < n. lp = Some w) \<and> v < n"
| "pc_ok n (A_submit fd ad lp) \<longleftrightarrow> (\<exists>w < n. lp = Some w)"
| "pc_ok n _ \<longleftrightarrow> True"

definition made :: "nat \<Rightarrow> nat \<Rightarrow> conn_id \<Rightarrow> tcp_server \<Rightarrow> bool" where
  "made a w c s \<longleftrightarrow> c < length (sv_conns s) \<and> co_acc (sv_conns s ! c) = a \<and> co_work (sv_conns s ! c) = w"

definition server_inv :: "tcp_server \<Rightarrow> bool" where
  "server_inv s \<longleftrightarrow> serving s \<and> (\<forall>a. pc_ok (length (sv_work s)) (sv_pc s a)) \<and>
     (\<forall>a w. \<forall>t \<in> set (sv_aq s a w). made a w (task_conn t) s) \<and>
     (\<forall>w c. WT_destruct c \<in> set (sv_wq s w) \<longrightarrow> (\<exists>a. made a w c s)) \<and>
     (\<forall>w a fd ad. WT_new a fd ad \<in> set (sv_wq s w) \<longrightarrow> a < length (sv_acc s)) \<and>
     (\<forall>a. \<forall>c \<in> sv_connects s a. \<exists>w. made a w c s) \<and>
     (\<forall>x \<in> set (sv_conns s). co_acc x < length (sv_acc s) \<and> co_work x < length (sv_work s)) \<and>
     (\<forall>c < length (sv_conns s). conn_ok c s)"

lemma server_invD:
  assumes "server_inv s"
  shows "serving s" "pc_ok (length (sv_work s)) (sv_pc s a)" "t \<in> set (sv_aq s a w) \<Longrightarrow> made a w (task_conn t) s"
    "WT_destruct c \<in> set (sv_wq s w) \<Longrightarrow> \<exists>a. made a w c s" "WT_new a fd ad \<in> set (sv_wq s w) \<Longrightarrow> a < length (sv_acc s)"
    "c \<in> sv_connects s a \<Longrightarrow> \<exists>w. made a w c s"
    "c < length (sv_conns s) \<Longrightarrow> co_acc (sv_conns s ! c) < length (sv_acc s) \<and> co_work (sv_conns s ! c) < length (sv_work s)"
    "c < length (sv_conns s) \<Longrightarrow> conn_ok c s"
  using assms unfolding server_inv_def by (blast intro: nth_mem)+

lemma server_invI:
  assumes "serving s" "\<And>a. pc_ok (length (sv_work s)) (sv_pc s a)" "\<And>a w t. t \<in> set (sv_aq s a w) \<Longrightarrow> made a w (task_conn t) s"
    "\<And>c w. WT_destruct c \<in> set (sv_wq s w) \<Longrightarrow> \<exists>a. made a w c s" "\<And>a fd ad w. WT_new a fd ad \<in> set (sv_wq s w) \<Longrightarrow> a < length (sv_acc s)"
    "\<And>c a. c \<in> sv_connects s a \<Longrightarrow> \<exists>w. made a w c s"
    "\<And>x. x \<in> set (sv_conns s) \<Longrightarrow> co_acc x < length (sv_acc s) \<and> co_work x < length (sv_work s)"
    "\<And>c. c < length (sv_conns s) \<Longrightarrow> conn_ok c s"
  shows "server_inv s"
  using assms unfolding server_inv_def by blast


lemma acc_goto_access [simp]:
  "sv_next (acc_goto a pc s) = sv_next s" "sv_work (acc_goto a pc s) = sv_work s" "sv_acc (acc_goto a pc s) = sv_acc s"
  "sv_wq (acc_goto a pc s) = sv_wq s" "sv_aq (acc_goto a pc s) = sv_aq s" "sv_connects (acc_goto a pc s) = sv_connects s"
  "sv_conns (acc_goto a pc s) = sv_conns s" "sv_callback (acc_goto a pc s) = sv_callback s"
  "sv_pc (acc_goto a pc s) = (sv_pc s)(a := pc)"
  by (simp_all add: acc_goto_def)






lemma phase_to_access [simp]:
  "sv_next (phase_to c ph s) = sv_next s" "sv_work (phase_to c ph s) = sv_work s" "sv_acc (phase_to c ph s) = sv_acc s"
  "sv_wq (phase_to c ph s) = sv_wq s" "sv_aq (phase_to c ph s) = sv_aq s" "sv_connects (phase_to c ph s) = sv_connects s"
  "sv_callback (phase_to c ph s) = sv_callback s" "sv_pc (phase_to c ph s) = sv_pc s"
  "length (sv_conns (phase_to c ph s)) = length (sv_conns s)"
  by (simp_all add: phase_to_def)

lemma phase_to_nth [simp]:
  assumes "c < length (sv_conns s)"
  shows "sv_conns (phase_to c ph s) ! d = (if d = c then (sv_conns s ! c)\<lparr>co_phase := ph\<rparr> else sv_conns s ! d)"
  using assms by (simp add: phase_to_def nth_list_update)

lemma made_phase_to [simp]: "c < length (sv_conns s) \<Longrightarrow> made a w d (phase_to c ph s) = made a w d s"
  by (simp add: made_def)








subsection \<open>No connection is lost\<close>


fun pc_fd :: "acc_pc \<Rightarrow> int option" where
  "pc_fd A_wait = None"
| "pc_fd (A_assert fd ad) = Some fd"
| "pc_fd (A_index fd ad) = Some fd"
| "pc_fd (A_load fd ad lp) = Some fd"
| "pc_fd (A_store fd ad lp v) = Some fd"
| "pc_fd (A_submit fd ad lp) = Some fd"

fun is_new :: "nat \<times> int \<Rightarrow> worker_task \<Rightarrow> bool" where
  "is_new x (WT_new a fd ad) \<longleftrightarrow> (a, fd) = x"
| "is_new x (WT_destruct c) \<longleftrightarrow> False"

definition queued_new :: "nat \<times> int \<Rightarrow> worker_task list \<Rightarrow> nat" where
  "queued_new x q = length (filter (is_new x) q)"

text \<open>Where a delivered descriptor is: in the hands of its acceptor, on its way to a worker, or in a connection.\<close>

definition tally :: "nat \<times> int \<Rightarrow> tcp_server \<Rightarrow> nat" where
  "tally x s = (if pc_fd (sv_pc s (fst x)) = Some (snd x) then 1 else 0)
     + (\<Sum>w < length (sv_work s). queued_new x (sv_wq s w))
     + length (filter (\<lambda>o'. (co_acc o', co_fd o') = x) (sv_conns s))"

lemma queued_new_simps [simp]:
  "queued_new x (q @ [t]) = queued_new x q + (if is_new x t then 1 else 0)"
  by (simp add: queued_new_def)








lemma map_co_phase_to: "map (\<lambda>x. (co_acc x, co_fd x)) (sv_conns (phase_to c ph s)) = map (\<lambda>x. (co_acc x, co_fd x)) (sv_conns s)"
proof (cases "c < length (sv_conns s)")
  case True
  then show ?thesis by (auto intro!: nth_equalityI)
qed (simp add: phase_to_def list_update_beyond)

lemma tally_phase_to [simp]: "tally x (phase_to c ph s) = tally x s"
proof -
  have len: "length (filter (\<lambda>o'. (co_acc o', co_fd o') = x) xs) = count_list (map (\<lambda>x. (co_acc x, co_fd x)) xs) x" for xs
    by (induction xs) auto
  show ?thesis by (simp add: tally_def len map_co_phase_to)
qed

lemma tally_on_thread [simp]: "tally x (on_acc a t s) = tally x s" "tally x (on_work w t s) = tally x s"
  by (simp_all add: tally_def on_acc_def on_work_def)



subsection \<open>Starting and stopping\<close>

lemmas main_defs = main_step_def main_to_def acceptor_pool_run_def work_pool_run_def acceptor_pool_stop_def work_pool_stop_def

definition running_thread :: "int \<Rightarrow> loop_thread" where
  "running_thread i = \<lparr>lt_id = i, lt_loop = True, lt_alive = True, lt_quit = False, lt_joinable = True\<rparr>"

definition server_started :: "nat \<Rightarrow> nat \<Rightarrow> tcp_server" where
  "server_started n m = (server_new True n m)\<lparr>sv_acc := map (\<lambda>i. running_thread (int i + AcceptorinitialId)) [0..<n],
     sv_work := map (\<lambda>i. running_thread (int i)) [0..<m], sv_main := M_running\<rparr>"

lemma server_started_inv:
  assumes "m > 0"
  shows "server_inv (server_started n m)" "tally x (server_started n m) = 0"
proof -
  show "server_inv (server_started n m)"
    by (rule server_invI) (use assms in \<open>auto simp: server_started_def server_new_def serving_def running_thread_def\<close>)
  show "tally x (server_started n m) = 0" by (simp add: tally_def server_started_def server_new_def queued_new_def)
qed

text \<open>\<open>TcpServer::loop\<close>, undisturbed, leads to that state.\<close>

lemma server_run_append: "server_run (es @ fs) s = obind (server_run es s) (server_run fs)"
  by (induction es arbitrary: s) (auto simp: obind_assoc split: option.splits)

lemma server_run_Suc: "server_run (replicate (Suc i) e) s = obind (server_run (replicate i e) s) (server_run [e])"
  by (simp add: replicate_append_same[symmetric] server_run_append[symmetric] del: server_run.simps)

definition pool_of :: "int \<Rightarrow> nat \<Rightarrow> nat \<Rightarrow> loop_thread list" where
  "pool_of base n i = map (\<lambda>j. (if j < i then running_thread else thread_new) (int j + base)) [0..<n]"

lemma pool_of_start:
  assumes "i < n"
  shows "thread_run (pool_of base n i ! i) = Inr (running_thread (int i + base))"
    "(pool_of base n i)[i := running_thread (int i + base)] = pool_of base n (Suc i)" "i < length (pool_of base n i)"
  using assms by (auto simp: pool_of_def thread_run_def thread_new_def running_thread_def nth_list_update less_Suc_eq intro!: nth_equalityI)

lemma start_acceptors:
  "i \<le> n \<Longrightarrow> server_run (replicate i E_main) (server_new True n m) =
     Inr ((server_new True n m)\<lparr>sv_acc := pool_of AcceptorinitialId n i, sv_main := M_start_acc i\<rparr>)"
proof (induction i)
  case 0
  then show ?case by (simp add: server_new_def pool_of_def)
next
  case (Suc i)
  then show ?case
    using pool_of_start[of i n AcceptorinitialId]
    by (simp add: server_run_Suc server_do_def main_defs on_acc_def del: replicate_Suc)
qed

lemma start_workers:
  "i \<le> m \<Longrightarrow> server_run (replicate i E_main) (s\<lparr>sv_work := pool_of 0 m 0, sv_main := M_start_work 0\<rparr>) =
     Inr (s\<lparr>sv_work := pool_of 0 m i, sv_main := M_start_work i\<rparr>)"
proof (induction i)
  case (Suc i)
  then show ?case
    using pool_of_start[of i m 0]
    by (simp add: server_run_Suc server_do_def main_defs on_work_def del: replicate_Suc)
qed simp

lemma server_starts: "server_run (replicate (n + 1 + (m + 1)) E_main) (server_new True n m) = Inr (server_started n m)"
proof -
  let ?s = "(server_new True n m)\<lparr>sv_acc := pool_of AcceptorinitialId n n\<rparr>"
  have w: "sv_work (server_new True n m) = pool_of 0 m 0" by (simp add: server_new_def pool_of_def)
  have "server_run (replicate (n + 1) E_main) (server_new True n m) = Inr (?s\<lparr>sv_work := pool_of 0 m 0, sv_main := M_start_work 0\<rparr>)"
    using start_acceptors[of n n m] w
    by (simp add: server_run_Suc server_do_def main_defs pool_of_def del: replicate_Suc)
  moreover have "server_run (replicate (m + 1) E_main) (?s\<lparr>sv_work := pool_of 0 m 0, sv_main := M_start_work 0\<rparr>) =
      Inr (?s\<lparr>sv_work := pool_of 0 m m, sv_main := M_running\<rparr>)"
    using start_workers[of m m ?s]
    by (simp add: server_run_Suc server_do_def main_defs pool_of_def del: replicate_Suc)
  moreover have "?s\<lparr>sv_work := pool_of 0 m m, sv_main := M_running\<rparr> = server_started n m"
    by (simp add: server_started_def pool_of_def)
  ultimately show ?thesis by (simp only: replicate_add server_run_append obind_simps)
qed


subsection \<open>Properties\<close>

text \<open>C9. One wake-up of an acceptor takes the whole backlog of its socket and deals it round. With more
  rounds than waiting connections, \<open>accept\<close> returns with the backlog empty, and the worker loops have got
  the connections in turn, in order, starting with the one the counter points at.\<close>

theorem accepted_round_robin:
  assumes "accept_spec ops lfd backlog" and "serving s" and "length (backlog (as_kernel st)) < fuel"
  shows "\<exists>st' s'. acceptor_accept ops (acceptor_NewConnection a) v6 lfd fuel addr st s = Inr (st', s') \<and>
    backlog (as_kernel st') = [] \<and>
    (\<forall>w < length (sv_work s). sv_wq s' w = sv_wq s w @ dealt a v6 (length (sv_work s)) (sv_next s) (backlog (as_kernel st)) w)"
proof -
  obtain s' where s': "ofold (\<lambda>(fd, sa). acceptor_NewConnection a fd (peer_address v6 sa)) (backlog (as_kernel st)) s = Inr s'"
      "\<forall>w < length (sv_work s). sv_wq s' w = sv_wq s w @ dealt a v6 (length (sv_work s)) (sv_next s) (backlog (as_kernel st)) w"
    using NewConnection_round_robin[OF assms(2)] by blast
  with acceptor_accept_backlog[OF assms(1,3) s'(1)] show ?thesis by blast
qed

text \<open>A socket whose backlog is a list of numbers.\<close>

definition list_os :: "nat list accept_os" where
  "list_os = \<lparr>os_accept = (\<lambda>fd k. if fd < 0 then (Inl EBADF, k)
       else case k of [] \<Rightarrow> (Inl EAGAIN, []) | n # rest \<Rightarrow> (Inr (int n + 3, sockaddr_zero), rest)),
     os_close_fd = (\<lambda>_ k. k), os_open_null = (\<lambda>k. (Inr 9, k))\<rparr>"

definition list_backlog :: "nat list \<Rightarrow> (int \<times> sockaddr) list" where "list_backlog = map (\<lambda>n. (int n + 3, sockaddr_zero))"

theorem accepted_round_robin_witness:
  "\<exists>st' s'. acceptor_accept list_os (acceptor_NewConnection 0) False 3 4 address_default
       \<lparr>as_errno = EINTR, as_idleFd = 9, as_kernel = [1, 2, 3]\<rparr> (server_started 1 2) = Inr (st', s') \<and>
     sv_wq s' 0 = [WT_new 0 4 (peer_address False sockaddr_zero), WT_new 0 6 (peer_address False sockaddr_zero)] \<and>
     sv_wq s' 1 = [WT_new 0 5 (peer_address False sockaddr_zero)]"
proof -
  let ?st = "\<lparr>as_errno = EINTR, as_idleFd = 9, as_kernel = [1, 2, 3 :: nat]\<rparr>"
  have spec: "accept_spec list_os 3 list_backlog"
    by (auto simp: accept_spec_def list_os_def list_backlog_def split: list.splits)
  have sv: "serving (server_started 1 2)" by (rule server_invD(1)[OF server_started_inv(1)]) simp
  have s0: "sv_wq (server_started 1 2) w = []" "sv_next (server_started 1 2) = 0" "length (sv_work (server_started 1 2)) = 2" for w
    by (simp_all add: server_started_def server_new_def)
  have "length (list_backlog (as_kernel ?st)) < 4" by (simp add: list_backlog_def)
  from accepted_round_robin[OF spec sv this, of 0 False address_default, unfolded s0] obtain st' s' where
    r: "acceptor_accept list_os (acceptor_NewConnection 0) False 3 4 address_default ?st (server_started 1 2) = Inr (st', s')"
    "\<forall>w < 2. sv_wq s' w = dealt 0 False 2 0 [(4, sockaddr_zero), (5, sockaddr_zero), (6, sockaddr_zero)] w"
    by (auto simp: list_backlog_def)
  then show ?thesis by (auto simp: dealt_def)
qed

text \<open>A server that is out of descriptors exits. When \<open>accept\<close> fails with \<open>EMFILE\<close>, the acceptor gives up
  its spare descriptor and accepts again, but on the failed result instead of the listening socket;
  the \<open>EBADF\<close> this gives is fatal.\<close>

theorem descriptor_shortage_is_fatal:
  assumes "fst (os_accept ops lfd (as_kernel st)) = Inl EMFILE" and "\<forall>k. fst (os_accept ops (-1) k) = Inl EBADF"
  shows "acceptor_accept ops newcon v6 lfd (Suc fuel) addr st s = Inl Exit"
  using assms by (simp add: acceptAutoOrDie_def accept_emfile_def Let_def case_prod_unfold)

theorem descriptor_shortage_is_fatal_witness:
  "acceptor_accept (list_os\<lparr>os_accept := (\<lambda>fd k. if fd < 0 then (Inl EBADF, k) else (Inl EMFILE, k))\<rparr>) (acceptor_NewConnection 0) False 3
     1 address_default \<lparr>as_errno = EINTR, as_idleFd = 9, as_kernel = []\<rparr> (server_started 1 2) = Inl Exit"
  using descriptor_shortage_is_fatal[of "list_os\<lparr>os_accept := (\<lambda>fd k. if fd < 0 then (Inl EBADF, k) else (Inl EMFILE, k))\<rparr>" 3
      "\<lparr>as_errno = EINTR, as_idleFd = 9, as_kernel = []\<rparr>" "acceptor_NewConnection 0" False 0 address_default "server_started 1 2"]
  by simp







text \<open>A client that connects while the server starts aborts it. \<open>TcpServer::loop\<close> starts the acceptors before
  the workers; a connection that arrives in between is handed to a worker that has no loop yet, and the
  assertion on the loop fails.\<close>

theorem early_connection_aborts:
  assumes "n > 0" and "m > 0" and "fd > 0"
  shows "server_run (E_main # E_accept 0 fd ad # replicate 5 (E_acceptor 0)) (server_new True n m) = Inl Assertion"
  using assms
  by (simp add: numeral_eq_Suc server_do_def main_defs thread_run_def acceptor_step_def acc_goto_def on_acc_def
      server_new_def thread_new_def Let_def)

theorem early_connection_aborts_witness:
  "server_run (E_main # E_accept 0 5 address_default # replicate 5 (E_acceptor 0)) (server_new True 1 2) = Inl Assertion"
  by (rule early_connection_aborts) simp_all

end
