(* ===== verification/Con_Pool.thy ===== *)
theory Con_Pool
  imports Tcp_Connection_Props
begin

text \<open>
  \<open>Net/include/TcpConPool.h\<close>: the pool of connections of one event loop. Connections that are not in use wait
  in a list; when it is empty a thousand more are made. A new connection and its handler get the next
  unused address. \<open>setTcpAlive\<close> on a connection that has no descriptor yet is a failing system call, and
  the application's data of a connection is not modelled.
\<close>

record 'm con_pool =
  cp_event :: event
  cp_alive :: bool
  cp_message :: "'m option"
  cp_close :: "'m option"
  cp_error :: "'m option"
  cp_except :: "'m option"
  cp_free :: "cid list"
  cp_id :: int
  cp_fresh :: nat

definition ExpendNum :: nat where "ExpendNum = 1000"

definition pool_conn :: "'m con_pool \<Rightarrow> ('m, 'k, 's) net_loop \<Rightarrow> ('m con_pool \<times> ('m, 'k, 's) net_loop) outcome" where
  "pool_conn p l =
     (let c = cp_fresh p in
      obind (conn_pooled c c (cp_event p) l) (\<lambda>l.
      Inr (p\<lparr>cp_free := cp_free p @ [c], cp_fresh := c + 1\<rparr>,
        conn_setErrorCallBack (cp_error p) c (conn_setExceptCallBack (cp_except p) c
          (conn_setCloseCallBack (cp_close p) c (setMessageCallBack (cp_message p) c l))))))"

fun pool_expend :: "nat \<Rightarrow> 'm con_pool \<times> ('m, 'k, 's) net_loop \<Rightarrow> ('m con_pool \<times> ('m, 'k, 's) net_loop) outcome" where
  "pool_expend 0 pl = Inr pl"
| "pool_expend (Suc n) pl = obind (pool_conn (fst pl) (snd pl)) (pool_expend n)"

definition pool_acquire ::
  "('m, 'k, 's) net \<Rightarrow> nat \<Rightarrow> nat \<Rightarrow> int \<Rightarrow> string \<Rightarrow> 'm con_pool \<Rightarrow> ('m, 'k, 's) net_loop \<Rightarrow>
   (cid \<times> 'm con_pool \<times> ('m, 'k, 's) net_loop) outcome" where
  "pool_acquire net tid fuel fd addr p l =
     assertC (el_id l = cp_id p) (assertC (fd > 0)
       (obind (if cp_free p = [] then pool_expend ExpendNum (p, l) else Inr (p, l)) (\<lambda>(p, l).
        case cp_free p of
          [] \<Rightarrow> Inl Out_of_bounds
        | c # rest \<Rightarrow> obind (conn_init net tid fuel c fd addr l) (\<lambda>l. Inr (c, p\<lparr>cp_free := rest\<rparr>, l)))))"

definition pool_release ::
  "('m, 'k, 's) net \<Rightarrow> cid \<Rightarrow> 'm con_pool \<Rightarrow> ('m, 'k, 's) net_loop \<Rightarrow> ('m con_pool \<times> ('m, 'k, 's) net_loop) outcome" where
  "pool_release net c p l =
     assertC (el_id l = cp_id p) (obind (conn_reset net c l) (\<lambda>l. Inr (p\<lparr>cp_free := cp_free p @ [c]\<rparr>, l)))"

subsection \<open>A connection has one user\<close>

definition fresh_conn :: "'m tcp_connection \<Rightarrow> bool" where
  "fresh_conn x \<longleftrightarrow> Connstatus x = Connecting \<and> tc_fd x = -1"

definition waiting_conn :: "('m, 'k, 's) net_loop \<Rightarrow> cid \<Rightarrow> bool" where
  "waiting_conn l c \<longleftrightarrow> (\<exists>x. nw_conns (world l) c = Some x \<and> fresh_conn x)"

definition pool_ok :: "cid list \<Rightarrow> 'm con_pool \<Rightarrow> ('m, 'k, 's) net_loop \<Rightarrow> bool" where
  "pool_ok used p l \<longleftrightarrow> distinct (used @ cp_free p) \<and> (\<forall>c \<in> set (used @ cp_free p). c < cp_fresh p) \<and>
     (\<forall>c \<in> set (cp_free p). waiting_conn l c)"

lemma set_conn_access [net_access]: "nw_conns (world (set_conn c x l)) = (nw_conns (world l))(c := x)"
  by (simp add: set_conn_def net_access)

lemma conn_pooled_conns:
  assumes "conn_pooled c h e l = Inr l'"
  shows "\<exists>x. nw_conns (world l') = (nw_conns (world l))(c \<mapsto> x) \<and> fresh_conn x"
  using assms by (auto simp: conn_pooled_def Let_def outcome_iff net_access fresh_conn_def conn_record_def)

lemma pool_conn_conns:
  assumes "pool_conn p l = Inr (p', l')"
  shows "\<exists>x. nw_conns (world l') = (nw_conns (world l))(cp_fresh p \<mapsto> x) \<and> fresh_conn x"
    and "p' = p\<lparr>cp_free := cp_free p @ [cp_fresh p], cp_fresh := cp_fresh p + 1\<rparr>"
proof -
  obtain l1 where l1: "conn_pooled (cp_fresh p) (cp_fresh p) (cp_event p) l = Inr l1"
      "l' = conn_setErrorCallBack (cp_error p) (cp_fresh p) (conn_setExceptCallBack (cp_except p) (cp_fresh p)
          (conn_setCloseCallBack (cp_close p) (cp_fresh p) (setMessageCallBack (cp_message p) (cp_fresh p) l1)))"
      "p' = p\<lparr>cp_free := cp_free p @ [cp_fresh p], cp_fresh := cp_fresh p + 1\<rparr>"
    using assms by (auto simp: pool_conn_def Let_def outcome_iff)
  then show "p' = p\<lparr>cp_free := cp_free p @ [cp_fresh p], cp_fresh := cp_fresh p + 1\<rparr>" by simp
  obtain x where "nw_conns (world l1) = (nw_conns (world l))(cp_fresh p \<mapsto> x)" "fresh_conn x"
    using conn_pooled_conns[OF l1(1)] by blast
  then show "\<exists>x. nw_conns (world l') = (nw_conns (world l))(cp_fresh p \<mapsto> x) \<and> fresh_conn x"
    by (intro exI[where x = "x\<lparr>SmessageCallBack := cp_message p, ScloseCallBack := cp_close p,
          SexceptCallBack := cp_except p, SerrorCallBack := cp_error p\<rparr>"])
      (simp add: l1(2) setMessageCallBack_def conn_setErrorCallBack_def conn_setExceptCallBack_def conn_setCloseCallBack_def net_access fresh_conn_def)
qed

lemma pool_conn_ok:
  assumes ok: "pool_ok used p l" and "pool_conn p l = Inr (p', l')"
  shows "pool_ok used p' l' \<and> cp_free p' \<noteq> []"
proof -
  obtain x where x: "nw_conns (world l') = (nw_conns (world l))(cp_fresh p \<mapsto> x)" "fresh_conn x"
    using pool_conn_conns(1)[OF assms(2)] by blast
  have new: "cp_fresh p \<notin> set (used @ cp_free p)" using ok by (auto simp: pool_ok_def)
  then have "\<forall>c \<in> set (cp_free p). waiting_conn l' c" "waiting_conn l' (cp_fresh p)"
    using ok x by (auto simp: pool_ok_def waiting_conn_def)
  then show ?thesis using ok new by (auto simp: pool_conn_conns(2)[OF assms(2)] pool_ok_def less_Suc_eq)
qed

lemma pool_expend_ok:
  "pool_ok used p l \<Longrightarrow> pool_expend n (p, l) = Inr (p', l') \<Longrightarrow> pool_ok used p' l' \<and> (n > 0 \<longrightarrow> cp_free p' \<noteq> [])"
proof (induction n arbitrary: p l)
  case (Suc n)
  then obtain p1 l1 where 1: "pool_conn p l = Inr (p1, l1)" "pool_expend n (p1, l1) = Inr (p', l')" by (auto simp: outcome_iff)
  from pool_conn_ok[OF Suc.prems(1) 1(1)] Suc.IH[OF _ 1(2)] 1(2) show ?case by (cases n) auto
qed simp

lemma pool_expend_thread: "pool_expend n (p, l) = Inr (p', l') \<Longrightarrow> el_thread l' = el_thread l"
proof (induction n arbitrary: p l)
  case (Suc n)
  then obtain p1 l1 where 1: "pool_conn p l = Inr (p1, l1)" "pool_expend n (p1, l1) = Inr (p', l')" by (auto simp: outcome_iff)
  have "el_thread l1 = el_thread l"
    using 1(1) by (auto simp: pool_conn_def conn_pooled_def Let_def outcome_iff net_access setMessageCallBack_def
        conn_setErrorCallBack_def conn_setExceptCallBack_def conn_setCloseCallBack_def set_conn_def)
  then show ?case using Suc.IH[OF 1(2)] by simp
qed simp

lemma conn_init_conns:
  assumes "conn_init net tid fuel c fd addr l = Inr l'" "isInLoopThread tid l"
  shows "\<exists>x. nw_conns (world l') = (nw_conns (world l))(c \<mapsto> x) \<and> Connstatus x = Connected \<and> tc_fd x = fd"
proof -
  obtain x where x: "nw_conns (world l) c = Some x" using assms(1) by (auto simp: conn_init_def with_conn_def split: option.splits)
  then show ?thesis
    using assms
    by (auto simp: conn_init_def with_conn_def Let_def outcome_iff handler_init_def el_addListen_def isInLoopThread_def net_access
        on_poller_def add_listen_def operator_epoll_def conn_env_def conn_base_def lift_os_def case_prod_unfold log_errno_def
        world_def on_handler_def upd_handler_def upd_conn_def on_world_def split: option.splits if_splits)
qed

lemma pool_acquire_ok:
  assumes ok: "pool_ok used p l" and thread: "isInLoopThread tid l" and "pool_acquire net tid fuel fd addr p l = Inr (c, p', l')"
  shows "pool_ok (c # used) p' l' \<and> (\<exists>x. nw_conns (world l') c = Some x \<and> Connstatus x = Connected \<and> tc_fd x = fd)"
proof -
  obtain p1 l1 where 1: "(if cp_free p = [] then pool_expend ExpendNum (p, l) else Inr (p, l)) = Inr (p1, l1)"
      and r: "(case cp_free p1 of [] \<Rightarrow> Inl Out_of_bounds
        | c # rest \<Rightarrow> obind (conn_init net tid fuel c fd addr l1) (\<lambda>l. Inr (c, p1\<lparr>cp_free := rest\<rparr>, l))) = Inr (c, p', l')"
    using assms(3) unfolding pool_acquire_def assertC_eq_Inr obind_eq_Inr split_paired_Ex prod.case by blast
  obtain rest where 2: "cp_free p1 = c # rest" "p' = p1\<lparr>cp_free := rest\<rparr>" "conn_init net tid fuel c fd addr l1 = Inr l'"
    using r by (cases "cp_free p1") (auto simp: outcome_iff)
  have ok1: "pool_ok used p1 l1" using 1 ok pool_expend_ok[OF ok, of ExpendNum p1 l1] by (auto split: if_splits)
  have "isInLoopThread tid l1" using 1 thread pool_expend_thread[of ExpendNum p l] by (auto simp: isInLoopThread_def split: if_splits)
  from conn_init_conns[OF 2(3) this] obtain x where
    x: "nw_conns (world l') = (nw_conns (world l1))(c \<mapsto> x)" "Connstatus x = Connected" "tc_fd x = fd" by blast
  then show ?thesis using ok1 2(1,2) by (auto simp: pool_ok_def waiting_conn_def)
qed

lemma pool_release_ok:
  assumes ok: "pool_ok used p l" and "c \<in> set used" and "pool_release net c p l = Inr (p', l')"
  shows "pool_ok (remove1 c used) p' l'"
proof -
  obtain x where x: "nw_conns (world l) c = Some x" and p': "p' = p\<lparr>cp_free := cp_free p @ [c]\<rparr>"
    using assms(3) by (auto simp: pool_release_def conn_reset_def with_conn_def outcome_iff split: option.splits)
  have l': "\<exists>y. nw_conns (world l') = (nw_conns (world l))(c \<mapsto> y) \<and> fresh_conn y"
    using assms(3) x by (auto simp: pool_release_def conn_reset_def with_conn_def outcome_iff net_access fresh_conn_def)
  show ?thesis using ok assms(2) l' by (auto simp: p' pool_ok_def waiting_conn_def)
qed

text \<open>Sequences of the two operations on the loop's thread; only a connection in use is released.\<close>

datatype pool_call = P_acquire int string | P_release cid

fun pool_calls :: "('m, 'k, 's) net \<Rightarrow> nat \<Rightarrow> nat \<Rightarrow> pool_call list \<Rightarrow> cid list \<times> 'm con_pool \<times> ('m, 'k, 's) net_loop \<Rightarrow>
    (cid list \<times> 'm con_pool \<times> ('m, 'k, 's) net_loop) outcome" where
  "pool_calls net tid fuel [] (used, p, l) = Inr (used, p, l)"
| "pool_calls net tid fuel (P_acquire fd addr # cs) (used, p, l) =
     assertC (isInLoopThread tid l) (obind (pool_acquire net tid fuel fd addr p l) (\<lambda>(c, p, l). pool_calls net tid fuel cs (c # used, p, l)))"
| "pool_calls net tid fuel (P_release c # cs) (used, p, l) =
     (if c \<in> set used then obind (pool_release net c p l) (\<lambda>(p, l). pool_calls net tid fuel cs (remove1 c used, p, l))
      else pool_calls net tid fuel cs (used, p, l))"

lemma pool_calls_ok:
  "pool_ok used p l \<Longrightarrow> pool_calls net tid fuel cs (used, p, l) = Inr (used', p', l') \<Longrightarrow> pool_ok used' p' l'"
proof (induction net tid fuel cs "(used, p, l)" arbitrary: used p l rule: pool_calls.induct)
  case (2 net tid fuel fd addr cs used p l)
  then show ?case using pool_acquire_ok by (fastforce simp: outcome_iff)
next
  case (3 net tid fuel c cs used p l)
  then show ?case using pool_release_ok by (fastforce simp: outcome_iff split: if_splits)
qed simp

end
