(* ===== verification/Fair_Mutex.thy ===== *)
theory Fair_Mutex
  imports Prelude
begin

text \<open>
  \<open>FairMutex\<close> of \<open>Common/locker.h\<close>: a lock whose waiters stand in a queue, each on a condition variable of its
  own. The inner mutex makes the bodies of \<open>lock\<close> and \<open>unlock\<close> single steps; a thread that was notified
  still has to take the inner mutex again before \<open>lock\<close> returns. A condition variable may also return
  from \<open>wait\<close> without a notification, which is an event of its own here.
\<close>

datatype lock_pc = L_idle | L_wait nat | L_woken | L_hold

record fair_mutex =
  fm_locked :: bool
  fm_waiters :: "nat list"
  fm_fresh :: nat
  fm_pc :: "nat \<Rightarrow> lock_pc"

definition fm_new :: fair_mutex where
  "fm_new = \<lparr>fm_locked = False, fm_waiters = [], fm_fresh = 0, fm_pc = (\<lambda>_. L_idle)\<rparr>"

definition fm_goto :: "nat \<Rightarrow> lock_pc \<Rightarrow> fair_mutex \<Rightarrow> fair_mutex" where
  "fm_goto t pc m = m\<lparr>fm_pc := (fm_pc m)(t := pc)\<rparr>"

definition fm_lock :: "nat \<Rightarrow> fair_mutex \<Rightarrow> fair_mutex" where
  "fm_lock t m =
     (if \<not> fm_locked m then fm_goto t L_hold (m\<lparr>fm_locked := True\<rparr>)
      else fm_goto t (L_wait (fm_fresh m)) (m\<lparr>fm_waiters := fm_waiters m @ [fm_fresh m], fm_fresh := fm_fresh m + 1\<rparr>))"

text \<open>\<open>notify_one\<close> wakes the thread that waits on the condition variable, if there is one.\<close>

definition notify_one :: "nat \<Rightarrow> fair_mutex \<Rightarrow> fair_mutex" where
  "notify_one k m = m\<lparr>fm_pc := (\<lambda>t. if fm_pc m t = L_wait k then L_woken else fm_pc m t)\<rparr>"

definition fm_unlock :: "nat \<Rightarrow> fair_mutex \<Rightarrow> fair_mutex" where
  "fm_unlock t m = (case fm_waiters m of
     [] \<Rightarrow> fm_goto t L_idle (m\<lparr>fm_locked := False\<rparr>)
   | k # ks \<Rightarrow> (notify_one k (fm_goto t L_idle m))\<lparr>fm_waiters := ks\<rparr>)"

datatype lock_event = E_lock nat | E_unlock nat | E_return nat | E_spurious nat

fun lock_do :: "lock_event \<Rightarrow> fair_mutex \<Rightarrow> fair_mutex option" where
  "lock_do (E_lock t) m = (if fm_pc m t = L_idle then Some (fm_lock t m) else None)"
| "lock_do (E_unlock t) m = (if fm_pc m t = L_hold then Some (fm_unlock t m) else None)"
| "lock_do (E_return t) m = (if fm_pc m t = L_woken then Some (fm_goto t L_hold m) else None)"
| "lock_do (E_spurious t) m = (case fm_pc m t of L_wait k \<Rightarrow> Some (fm_goto t L_hold m) | _ \<Rightarrow> None)"

text \<open>A run; an event that is not possible in its state has no effect. A thread that was notified has the lock already.\<close>

fun lock_run :: "lock_event list \<Rightarrow> fair_mutex \<Rightarrow> fair_mutex" where
  "lock_run [] m = m"
| "lock_run (e # es) m = lock_run es (case lock_do e m of None \<Rightarrow> m | Some m' \<Rightarrow> m')"

definition owns :: "nat \<Rightarrow> fair_mutex \<Rightarrow> bool" where
  "owns t m \<longleftrightarrow> fm_pc m t = L_hold \<or> fm_pc m t = L_woken"

subsection \<open>The invariant\<close>

text \<open>The waiting threads, in the order of their condition variables, and the owner.\<close>

definition lock_inv :: "nat list \<Rightarrow> nat option \<Rightarrow> fair_mutex \<Rightarrow> bool" where
  "lock_inv ts ow m \<longleftrightarrow>
     list_all2 (\<lambda>t k. fm_pc m t = L_wait k) ts (fm_waiters m) \<and> distinct ts \<and> distinct (fm_waiters m) \<and>
     (\<forall>t k. fm_pc m t = L_wait k \<longrightarrow> t \<in> set ts) \<and> (\<forall>k \<in> set (fm_waiters m). k < fm_fresh m) \<and>
     (\<forall>t. owns t m \<longleftrightarrow> ow = Some t) \<and> (fm_locked m \<longleftrightarrow> ow \<noteq> None) \<and> (ow = None \<longrightarrow> ts = [])"

lemma lock_inv_new: "lock_inv [] None fm_new"
  by (simp add: lock_inv_def fm_new_def owns_def)

lemma list_all2_pc_cong:
  assumes "list_all2 (\<lambda>t k. fm_pc m t = L_wait k) ts ks" "\<And>t. t \<in> set ts \<Longrightarrow> fm_pc m' t = fm_pc m t"
  shows "list_all2 (\<lambda>t k. fm_pc m' t = L_wait k) ts ks"
  using assms by (auto simp: list_all2_conv_all_nth)

lemma lock_inv_lock:
  assumes inv: "lock_inv ts ow m" and idle: "fm_pc m t = L_idle"
  shows "if ow = None then lock_inv ts (Some t) (fm_lock t m) else lock_inv (ts @ [t]) ow (fm_lock t m)"
proof -
  have t: "t \<notin> set ts" using inv idle by (auto simp: lock_inv_def list_all2_conv_all_nth in_set_conv_nth)
  show ?thesis
  proof (cases ow)
    case None
    then show ?thesis using inv idle by (auto simp: lock_inv_def fm_lock_def fm_goto_def owns_def)
  next
    case (Some o')
    have "owns o' m" using inv Some by (simp add: lock_inv_def)
    then have ne: "o' \<noteq> t" using idle by (auto simp: owns_def)
    have la: "list_all2 (\<lambda>u k. fm_pc (fm_lock t m) u = L_wait k) ts (fm_waiters m)"
      by (rule list_all2_pc_cong[of m]) (use inv t Some in \<open>auto simp: lock_inv_def fm_lock_def fm_goto_def\<close>)
    show ?thesis using inv idle Some ne t la
      by (auto simp: lock_inv_def fm_lock_def fm_goto_def owns_def list_all2_appendI split: if_splits)
  qed
qed

lemma lock_inv_unlock:
  assumes inv: "lock_inv ts ow m" and hold: "fm_pc m t = L_hold"
  shows "lock_inv (tl ts) (case ts of [] \<Rightarrow> None | u # us \<Rightarrow> Some u) (fm_unlock t m)"
proof -
  have ow: "ow = Some t" using inv hold by (auto simp: lock_inv_def owns_def)
  show ?thesis
  proof (cases ts)
    case Nil
    then show ?thesis using inv hold ow by (auto simp: lock_inv_def fm_unlock_def fm_goto_def owns_def split: if_splits)
  next
    case (Cons u us)
    then obtain k ks where ks: "fm_waiters m = k # ks" "fm_pc m u = L_wait k" "list_all2 (\<lambda>t k. fm_pc m t = L_wait k) us ks"
      using inv by (auto simp: lock_inv_def list_all2_Cons1)
    have d: "u \<notin> set us" "distinct us" "k \<notin> set ks" "distinct ks" using inv Cons ks(1) by (auto simp: lock_inv_def)
    have only: "v = u" if v: "fm_pc m v = L_wait k" for v
    proof -
      have "v \<notin> set us" using ks(3) v d(3) by (auto simp: list_all2_conv_all_nth in_set_conv_nth)
      moreover have "v \<in> set ts" using inv v by (auto simp: lock_inv_def)
      ultimately show ?thesis using Cons by simp
    qed
    have us: "v \<noteq> t \<and> v \<noteq> u" if "v \<in> set us" for v
      using that ks(3) hold d(1) by (auto simp: list_all2_conv_all_nth in_set_conv_nth)
    have ut: "u \<noteq> t" using ks(2) hold by auto
    have iff: "fm_pc m v = L_wait k \<longleftrightarrow> v = u" for v using only[of v] ks(2) by blast
    have m': "fm_pc (fm_unlock t m) v = (if v = t then L_idle else if v = u then L_woken else fm_pc m v)"
      "fm_waiters (fm_unlock t m) = ks" "fm_fresh (fm_unlock t m) = fm_fresh m" "fm_locked (fm_unlock t m) = fm_locked m" for v
      using iff[of v] ut by (simp_all add: fm_unlock_def notify_one_def fm_goto_def ks(1))
    have la: "list_all2 (\<lambda>v k. fm_pc (fm_unlock t m) v = L_wait k) us ks"
      by (rule list_all2_pc_cong[OF ks(3)]) (use us in \<open>simp add: m'\<close>)
    have owner: "fm_pc m v = L_hold \<or> fm_pc m v = L_woken \<longleftrightarrow> v = t" for v using inv ow by (auto simp: lock_inv_def owns_def)
    have wait: "v \<in> set us" if "fm_pc (fm_unlock t m) v = L_wait j" for v j
      using inv that Cons by (auto simp: lock_inv_def m' split: if_splits)
    have own: "owns v (fm_unlock t m) \<longleftrightarrow> v = u" for v using owner[of v] ut by (auto simp: owns_def m')
    have "fm_locked m" "\<forall>j \<in> set ks. j < fm_fresh m" using inv ow ks(1) by (auto simp: lock_inv_def)
    then show ?thesis using Cons la d wait own unfolding lock_inv_def m' by auto
  qed
qed

lemma lock_inv_return:
  assumes inv: "lock_inv ts ow m" and woken: "fm_pc m t = L_woken"
  shows "lock_inv ts ow (fm_goto t L_hold m)"
proof -
  have "list_all2 (\<lambda>u k. fm_pc (fm_goto t L_hold m) u = L_wait k) ts (fm_waiters m)"
    by (rule list_all2_pc_cong[of m])
      (use inv woken in \<open>auto simp: lock_inv_def fm_goto_def list_all2_conv_all_nth in_set_conv_nth\<close>)
  moreover have "owns u (fm_goto t L_hold m) = owns u m" for u using woken by (auto simp: owns_def fm_goto_def)
  ultimately show ?thesis using inv by (auto simp: lock_inv_def fm_goto_def split: if_splits)
qed

subsection \<open>Runs\<close>

text \<open>The specification: a queue of threads whose head has the lock.\<close>

fun spec_do :: "lock_event \<Rightarrow> nat list \<Rightarrow> nat list" where
  "spec_do (E_lock t) q = (if t \<in> set q then q else q @ [t])"
| "spec_do (E_unlock t) q = (if q \<noteq> [] \<and> hd q = t then tl q else q)"
| "spec_do _ q = q"

definition queue_of :: "nat list \<Rightarrow> nat option \<Rightarrow> nat list" where
  "queue_of ts ow = (case ow of None \<Rightarrow> [] | Some t \<Rightarrow> t # ts)"

lemma in_queue:
  assumes "lock_inv ts ow m"
  shows "t \<in> set (queue_of ts ow) \<longleftrightarrow> fm_pc m t \<noteq> L_idle" "distinct (queue_of ts ow)"
proof -
  have wait: "t \<in> set ts \<longleftrightarrow> (\<exists>k. fm_pc m t = L_wait k)" for t
    using assms by (auto simp: lock_inv_def list_all2_conv_all_nth in_set_conv_nth)
  have own: "ow = Some t \<longleftrightarrow> fm_pc m t = L_hold \<or> fm_pc m t = L_woken" for t using assms by (auto simp: lock_inv_def owns_def)
  show "t \<in> set (queue_of ts ow) \<longleftrightarrow> fm_pc m t \<noteq> L_idle"
    using wait[of t] own[of t] assms by (cases ow; cases "fm_pc m t") (auto simp: queue_of_def lock_inv_def)
  have "t \<notin> set ts" if "ow = Some t" for t using wait[of t] own[of t] that by auto
  then show "distinct (queue_of ts ow)" using assms by (cases ow) (auto simp: queue_of_def lock_inv_def)
qed

text \<open>The events of a run that took place.\<close>

fun happened :: "lock_event list \<Rightarrow> fair_mutex \<Rightarrow> lock_event list" where
  "happened [] m = []"
| "happened (e # es) m = (case lock_do e m of None \<Rightarrow> happened es m | Some m' \<Rightarrow> e # happened es m')"

fun is_spurious :: "lock_event \<Rightarrow> bool" where
  "is_spurious (E_spurious t) = True"
| "is_spurious _ = False"

lemma lock_step_refines:
  assumes inv: "lock_inv ts ow m" and "lock_do e m = Some m'" and "\<not> is_spurious e"
  shows "\<exists>ts' ow'. lock_inv ts' ow' m' \<and> queue_of ts' ow' = spec_do e (queue_of ts ow)"
proof (cases e)
  case (E_lock t)
  then have idle: "fm_pc m t = L_idle" and m': "m' = fm_lock t m" using assms(2) by (auto split: if_splits)
  have "t \<notin> set (queue_of ts ow)" using in_queue(1)[OF inv] idle by simp
  then have q: "spec_do e (queue_of ts ow) = queue_of ts ow @ [t]" by (simp add: E_lock)
  show ?thesis
  proof (cases ow)
    case None
    moreover have "ts = []" using inv None by (simp add: lock_inv_def)
    ultimately show ?thesis using lock_inv_lock[OF inv idle] q by (intro exI[of _ ts] exI[of _ "Some t"]) (simp add: m' queue_of_def)
  next
    case (Some u)
    then show ?thesis using lock_inv_lock[OF inv idle] q by (intro exI[of _ "ts @ [t]"] exI[of _ ow]) (simp add: m' queue_of_def)
  qed
next
  case (E_unlock t)
  then have hold: "fm_pc m t = L_hold" and m': "m' = fm_unlock t m" using assms(2) by (auto split: if_splits)
  have "ow = Some t" using inv hold by (auto simp: lock_inv_def owns_def)
  then have "spec_do e (queue_of ts ow) = queue_of (tl ts) (case ts of [] \<Rightarrow> None | u # us \<Rightarrow> Some u)"
    by (cases ts) (simp_all add: E_unlock queue_of_def)
  then show ?thesis using lock_inv_unlock[OF inv hold] m' by metis
next
  case (E_return t)
  then show ?thesis using assms lock_inv_return[OF inv] by (auto split: if_splits)
qed (use assms in simp)

lemma lock_run_refines:
  assumes "lock_inv ts ow m" "\<forall>e \<in> set es. \<not> is_spurious e"
  shows "\<exists>ts' ow'. lock_inv ts' ow' (lock_run es m) \<and> queue_of ts' ow' = fold spec_do (happened es m) (queue_of ts ow)"
  using assms
proof (induction es arbitrary: ts ow m)
  case (Cons e es)
  show ?case
  proof (cases "lock_do e m")
    case (Some m')
    then obtain ts' ow' where "lock_inv ts' ow' m'" "queue_of ts' ow' = spec_do e (queue_of ts ow)"
      using lock_step_refines[OF Cons.prems(1) Some] Cons.prems(2) by auto
    with Cons.IH[OF this(1)] Cons.prems(2) Some show ?thesis by simp
  qed (use Cons in simp)
qed auto

text \<open>C7. The fair mutex is a queue of threads. Without spurious wake-ups, after any run of lock and unlock
  calls of any number of threads, the threads inside \<open>lock\<close> or holding the lock are the queue of the calls
  that have not been undone, in the order in which they were made; exactly its head has the lock (no two
  threads ever do), and the flag says whether there is one.\<close>

theorem fair_mutex_is_fifo:
  assumes "\<forall>e \<in> set es. \<not> is_spurious e"
  shows "let m = lock_run es fm_new; q = fold spec_do (happened es fm_new) [] in
    distinct q \<and> (\<forall>t. fm_pc m t \<noteq> L_idle \<longleftrightarrow> t \<in> set q) \<and> (\<forall>t. owns t m \<longleftrightarrow> q \<noteq> [] \<and> hd q = t) \<and> (fm_locked m \<longleftrightarrow> q \<noteq> [])"
proof -
  obtain ts ow where inv: "lock_inv ts ow (lock_run es fm_new)" and q: "queue_of ts ow = fold spec_do (happened es fm_new) []"
    using lock_run_refines[OF lock_inv_new assms] by (auto simp: queue_of_def)
  have "owns t (lock_run es fm_new) \<longleftrightarrow> queue_of ts ow \<noteq> [] \<and> hd (queue_of ts ow) = t" "fm_locked (lock_run es fm_new) \<longleftrightarrow> queue_of ts ow \<noteq> []" for t
    using inv by (cases ow; auto simp: lock_inv_def queue_of_def)+
  then show ?thesis using in_queue[OF inv] unfolding q by (simp add: Let_def)
qed

theorem fair_mutex_is_fifo_witness:
  "let m = lock_run [E_lock 4, E_lock 5, E_lock 6, E_unlock 4, E_return 5] fm_new in
     owns 5 m \<and> \<not> owns 6 m \<and> fm_pc m 6 \<noteq> L_idle \<and> fm_locked m"
proof -
  let ?es = "[E_lock 4, E_lock 5, E_lock 6, E_unlock 4, E_return 5]"
  have "fold spec_do (happened ?es fm_new) [] = [5, 6]"
    by (simp add: fm_new_def fm_lock_def fm_unlock_def notify_one_def fm_goto_def)
  then show ?thesis using fair_mutex_is_fifo[of ?es] by (simp add: Let_def)
qed

text \<open>One spurious wake-up gives the lock to two threads: \<open>lock\<close> waits without testing a condition, so a
  thread whose wait returns early holds the lock beside its owner.\<close>

theorem spurious_wakeup_breaks_exclusion:
  assumes "a \<noteq> b"
  shows "let m = lock_run [E_lock a, E_lock b, E_spurious b] fm_new in fm_pc m a = L_hold \<and> fm_pc m b = L_hold"
  using assms by (simp add: fm_new_def fm_lock_def fm_goto_def)

theorem spurious_wakeup_breaks_exclusion_witness:
  "let m = lock_run [E_lock 0, E_lock 1, E_spurious 1] fm_new in fm_pc m 0 = L_hold \<and> fm_pc m 1 = L_hold"
  by (rule spurious_wakeup_breaks_exclusion) simp

end
