(* ===== verification/Proto_Codec.thy ===== *)
theory Proto_Codec
  imports Codec
begin

text \<open>
  \<open>Net/protobuf/ProtoBufBuffer.h\<close>, \<open>ProtoMsg.h\<close> and \<open>ProtoMsg.cpp\<close>: the streams by which protobuf writes into and
  reads from a buffer, and the framing of messages. A frame is its own length, the length of the type
  name, the name and the serialised message. Protobuf is a parameter; what the codec relies on is stated
  as \<open>serialize_spec\<close> (a message is written through \<open>Next\<close> and \<open>BackUp\<close>) and \<open>parse_spec\<close> (a successful parse
  reads the stream to its end), as its documentation says.
\<close>

subsection \<open>Streams\<close>

record out_stream =
  os_buf :: tcp_buffer
  os_count :: int

definition out_new :: "tcp_buffer \<Rightarrow> out_stream" where "out_new b = \<lparr>os_buf = b, os_count = 0\<rparr>"

text \<open>The block handed out is an offset into the vector and a size.\<close>

definition out_Next :: "out_stream \<Rightarrow> ((nat \<times> int) \<times> out_stream) outcome" where
  "out_Next st =
     obind (if writable_size (os_buf st) < 4096 then ensureWritableBytes 4096 (os_buf st) else Inr (os_buf st)) (\<lambda>b.
     let size = to_int32 (int (writable_size b)) in
     obind (hasWritten (nat (size mod 2 ^ 64)) b) (\<lambda>b'.
     Inr ((tb_BeginWrite b, size), \<lparr>os_buf = b', os_count = os_count st + size\<rparr>)))"

definition out_BackUp :: "int \<Rightarrow> out_stream \<Rightarrow> out_stream outcome" where
  "out_BackUp count st =
     (if count > 0 then obind (unwrite (nat count) (os_buf st)) (\<lambda>b. Inr \<lparr>os_buf = b, os_count = os_count st - count\<rparr>)
      else Inr st)"

definition out_ByteCount :: "out_stream \<Rightarrow> int" where "out_ByteCount st = os_count st"

record in_stream =
  is_buf :: tcp_buffer
  is_position :: nat
  is_total :: nat

definition in_new :: "tcp_buffer \<Rightarrow> in_stream" where
  "in_new b = \<lparr>is_buf = b, is_position = 0, is_total = readable_size b\<rparr>"

definition in_Next :: "in_stream \<Rightarrow> (nat \<times> int) option \<times> in_stream" where
  "in_Next st =
     (if is_position st \<ge> is_total st then (None, st)
      else let size = to_int32 (int (usub (is_total st) (is_position st)))
           in (Some (tb_peek (is_buf st) + is_position st, size),
               st\<lparr>is_position := uadd (is_position st) (nat (size mod 2 ^ 64))\<rparr>))"

definition in_BackUp :: "int \<Rightarrow> in_stream \<Rightarrow> in_stream" where
  "in_BackUp count st =
     (if count > 0 then st\<lparr>is_position := (if nat count > is_position st then 0 else is_position st - nat count)\<rparr> else st)"

definition in_Skip :: "int \<Rightarrow> in_stream \<Rightarrow> bool \<times> in_stream" where
  "in_Skip count st =
     (if count < 0 \<or> uadd (is_position st) (nat count) > is_total st then (False, st)
      else (True, st\<lparr>is_position := uadd (is_position st) (nat count)\<rparr>))"

definition in_ByteCount :: "in_stream \<Rightarrow> int" where "in_ByteCount st = int (is_position st)"

definition in_consume :: "in_stream \<Rightarrow> tcp_buffer outcome" where
  "in_consume st = consume (is_position st) (is_buf st)"

subsection \<open>The codec\<close>

record 'm protobuf =
  pb_name :: "'m \<Rightarrow> string"
  pb_serialize :: "'m \<Rightarrow> out_stream \<Rightarrow> (bool \<times> out_stream) outcome"
  pb_known :: "string \<Rightarrow> bool"
  pb_parse :: "string \<Rightarrow> in_stream \<Rightarrow> 'm option \<times> in_stream"

definition MAX_MESSAGE_SIZE :: nat where "MAX_MESSAGE_SIZE = 64 * 1024 * 1024"
definition MAX_NAME_LENGTH :: nat where "MAX_NAME_LENGTH = 256"

definition proto_encode :: "'m protobuf \<Rightarrow> 'm \<Rightarrow> tcp_buffer \<Rightarrow> tcp_buffer outcome" where
  "proto_encode lib msg buf =
     (let len_pos = readable_size buf; typeName = pb_name lib msg in
      obind (tb_FluentAppend_value (Object (be32 0)) buf) (\<lambda>buf.
      obind (tb_append_value (Object (be32 0)) buf) (\<lambda>buf.
      obind (tb_append typeName buf) (\<lambda>buf.
      obind (pb_serialize lib msg (out_new buf)) (\<lambda>(ok, st).
      let buf = os_buf st in
      if \<not> ok then Inr buf
      else let total_len = usub (readable_size buf) len_pos; p = tb_ModifyData buf + len_pos in
        obind (store p (be32 (total_len mod 2 ^ 32)) (buffer buf)) (\<lambda>v.
        obind (store (p + 4) (be32 (length typeName mod 2 ^ 32)) v) (\<lambda>v.
        Inr (buf\<lparr>buffer := v\<rparr>))))))))"

definition createMessage :: "'m protobuf \<Rightarrow> string \<Rightarrow> bool" where "createMessage lib typeName = pb_known lib typeName"

text \<open>\<open>decode\<close>: None is the null pointer.\<close>

definition proto_decode :: "'m protobuf \<Rightarrow> tcp_buffer \<Rightarrow> ('m option \<times> tcp_buffer) outcome" where
  "proto_decode lib buf =
     (if readable_size buf < 8 then Inr (None, buf)
      else let p = tb_ModifyData buf in
        obind (load p 4 (buffer buf)) (\<lambda>t. obind (load (p + 4) 4 (buffer buf)) (\<lambda>n.
        let total_len = ntohl t; name_len = ntohl n in
        if total_len > MAX_MESSAGE_SIZE \<or> name_len > MAX_NAME_LENGTH then Inr (None, buf)
        else if readable_size buf < total_len then Inr (None, buf)
        else obind (load (p + 8) name_len (buffer buf)) (\<lambda>typeName.
          if \<not> createMessage lib typeName then Inr (None, buf)
          else let (ok, st) = in_Skip (int (8 + name_len)) (in_new buf) in
            if \<not> ok then Inr (None, buf)
            else case pb_parse lib typeName st of
                   (None, st) \<Rightarrow> Inr (None, buf)
                 | (Some m, st) \<Rightarrow> obind (in_consume st) (\<lambda>b. Inr (Some m, b))))))"

text \<open>\<open>msgComplete\<close> reads the length before it looks at the number of bytes.\<close>

definition msgComplete :: "tcp_buffer \<Rightarrow> bool outcome" where
  "msgComplete buf =
     obind (load (tb_peek buf) 4 (buffer buf)) (\<lambda>t.
     Inr (readable_size buf \<ge> 4 \<and> readable_size buf \<ge> ntohl t))"

subsection \<open>The dispatcher\<close>

type_synonym ('d, 'm, 's) dispatcher = "'d \<Rightarrow> ('m \<Rightarrow> 's \<Rightarrow> 's outcome) option"

definition onMsg :: "'d \<Rightarrow> ('m \<Rightarrow> 's \<Rightarrow> 's outcome) \<Rightarrow> ('d, 'm, 's) dispatcher \<Rightarrow> ('d, 'm, 's) dispatcher" where
  "onMsg d cb t = t(d \<mapsto> cb)"

definition proto_handle :: "('m \<Rightarrow> 'd) \<Rightarrow> 'm \<Rightarrow> ('d, 'm, 's) dispatcher \<Rightarrow> 's \<Rightarrow> 's outcome" where
  "proto_handle descriptor msg t s = (case t (descriptor msg) of Some cb \<Rightarrow> cb msg s | None \<Rightarrow> Inr s)"

subsection \<open>What protobuf does with the streams\<close>

text \<open>Writing bytes through an output stream: fill the blocks it hands out and give back the rest of
  the last one. Every block has at least one byte, so the length of the data bounds the rounds.\<close>

fun zc_write :: "nat \<Rightarrow> string \<Rightarrow> out_stream \<Rightarrow> out_stream outcome" where
  "zc_write fuel [] st = Inr st"
| "zc_write 0 (c # cs) st = Inl Out_of_fuel"
| "zc_write (Suc fuel) (c # cs) st =
     obind (out_Next st) (\<lambda>((off, size), st).
     let d = c # cs; n = min (length d) (nat size) in
     obind (store off (take n d) (buffer (os_buf st))) (\<lambda>v.
     let st = st\<lparr>os_buf := (os_buf st)\<lparr>buffer := v\<rparr>\<rparr> in
     if length d \<le> nat size then out_BackUp (size - int (length d)) st else zc_write fuel (drop n d) st))"

definition serialize_spec :: "'m protobuf \<Rightarrow> ('m \<Rightarrow> string) \<Rightarrow> bool" where
  "serialize_spec lib enc \<longleftrightarrow>
     (\<forall>m st. pb_serialize lib m st = obind (zc_write (length (enc m)) (enc m) st) (\<lambda>st. Inr (True, st)))"

definition in_rest :: "in_stream \<Rightarrow> string" where
  "in_rest st = segment (tb_peek (is_buf st) + is_position st) (is_total st - is_position st) (buffer (is_buf st))"

definition parse_spec :: "'m protobuf \<Rightarrow> (string \<Rightarrow> string \<Rightarrow> 'm option) \<Rightarrow> bool" where
  "parse_spec lib dec \<longleftrightarrow> (\<forall>name st. case dec name (in_rest st) of
     None \<Rightarrow> fst (pb_parse lib name st) = None
   | Some m \<Rightarrow> pb_parse lib name st = (Some m, st\<lparr>is_position := is_total st\<rparr>))"

text \<open>An input stream hands out all the bytes that are left as one block.\<close>

lemma in_Next_rest:
  assumes "is_position st < is_total st" "is_total st < 2 ^ 31" "tb_peek (is_buf st) + is_total st \<le> length (buffer (is_buf st))"
  shows "in_Next st = (Some (tb_peek (is_buf st) + is_position st, int (length (in_rest st))), st\<lparr>is_position := is_total st\<rparr>)"
proof -
  have "uadd (is_position st) (is_total st - is_position st) = is_total st" using assms by (subst uadd_small) auto
  moreover have "length (in_rest st) = is_total st - is_position st" using assms by (simp add: in_rest_def)
  ultimately show ?thesis using assms by (simp add: in_Next_def Let_def nat_diff_distrib)
qed

subsection \<open>Writing through the stream\<close>

text \<open>A buffer with room for \<open>n\<close> bytes and a block, whose vector stays within the range of \<open>int\<close>.\<close>

definition room :: "nat \<Rightarrow> tcp_buffer \<Rightarrow> bool" where
  "room n b \<longleftrightarrow> tb_inv b \<and> length (buffer b) < 2 ^ 31 \<and> prepend_size b + length (content b) + n + 4096 < 2 ^ 31"

lemma room_cap: "room n b \<Longrightarrow> m \<le> n + 4096 \<Longrightarrow> length (content b) + m \<le> tb_cap b"
  by (auto simp: room_def tb_cap_def vector_max_def)

lemma ensure_room:
  assumes "room n b" "m \<le> n + 4096"
  shows "\<exists>b'. ensureWritableBytes m b = Inr b' \<and> ensure_appendable m b = Inr b' \<and> tb_inv b' \<and> content b' = content b \<and> prepend_size b' = prepend_size b \<and>
    m \<le> writable_size b' \<and> length (buffer b') < 2 ^ 31"
proof (cases "writable_size b < m")
  case True
  have inv: "tb_inv b" using assms(1) by (simp add: room_def)
  have "length (buffer b) - write_index b < m" using True inv by simp
  from expend_ok[OF inv room_cap[OF assms] this] obtain b' where
    b': "expend m b = Inr b'" "tb_inv b'" "content b' = content b" "prepend_size b' = prepend_size b" "m \<le> writable_size b'"
    "length (buffer b') = max (length (buffer b)) (prepend_size b + length (content b) + m)" by blast
  have "length (buffer b') < 2 ^ 31" using b'(6) assms by (auto simp: room_def)
  with b' True show ?thesis by (simp add: ensureWritableBytes_def ensure_appendable_def)
next
  case False
  then show ?thesis using assms(1) by (simp add: ensureWritableBytes_def ensure_appendable_def room_def)
qed

lemma out_Next_ok:
  assumes "room n (os_buf st)"
  shows "\<exists>b size. out_Next st = Inr ((write_index b, int size), \<lparr>os_buf = b\<lparr>write_index := length (buffer b)\<rparr>, os_count = os_count st + int size\<rparr>) \<and>
    size = length (buffer b) - write_index b \<and> 4096 \<le> size \<and> tb_inv b \<and> content b = content (os_buf st) \<and>
    prepend_size b = prepend_size (os_buf st) \<and> length (buffer b) < 2 ^ 31"
proof -
  have "\<exists>b. (if writable_size (os_buf st) < 4096 then ensureWritableBytes 4096 (os_buf st) else Inr (os_buf st)) = Inr b \<and>
      tb_inv b \<and> content b = content (os_buf st) \<and> prepend_size b = prepend_size (os_buf st) \<and> 4096 \<le> writable_size b \<and> length (buffer b) < 2 ^ 31"
    using ensure_room[OF assms, of 4096] assms by (auto simp: room_def)
  then obtain b where b: "(if writable_size (os_buf st) < 4096 then ensureWritableBytes 4096 (os_buf st) else Inr (os_buf st)) = Inr b"
      "tb_inv b" "content b = content (os_buf st)" "prepend_size b = prepend_size (os_buf st)" "4096 \<le> writable_size b" "length (buffer b) < 2 ^ 31" by blast
  note i = tb_invD[OF b(2)]
  let ?n = "length (buffer b) - write_index b"
  have sz: "to_int32 (int (writable_size b)) = int ?n" "nat (int ?n mod 2 ^ 64) = ?n" using b(2,6) by (simp_all add: nat_mod_as_int)
  have "uadd (write_index b) ?n = length (buffer b)" using i by (subst uadd_vector) auto
  moreover have "tb_inv (b\<lparr>write_index := length (buffer b)\<rparr>)" using i by (simp add: tb_inv_def)
  ultimately have "hasWritten ?n b = Inr (b\<lparr>write_index := length (buffer b)\<rparr>)" using b(2) by (simp add: hasWritten_def)
  then have "out_Next st = Inr ((write_index b, int ?n), \<lparr>os_buf = b\<lparr>write_index := length (buffer b)\<rparr>, os_count = os_count st + int ?n\<rparr>)"
    using b(1) sz by (simp add: out_Next_def tb_BeginWrite_def Let_def)
  then show ?thesis using b by fastforce
qed

text \<open>Filling the front of a block.\<close>

lemma fill_block:
  assumes "tb_inv b" "write_index b + length d \<le> length (buffer b)"
  defines "b' \<equiv> b\<lparr>write_index := write_index b + length d, buffer := overwrite (write_index b) d (buffer b)\<rparr>"
  shows "tb_inv b'" "content b' = content b @ d" "prepend_size b' = prepend_size b" "length (buffer b') = length (buffer b)"
proof -
  note i = tb_invD[OF assms(1)]
  show "tb_inv b'" using i assms(2) by (simp add: b'_def tb_inv_def)
  show "content b' = content b @ d"
    using segment_overwrite_join[of "read_index b" "write_index b" d "buffer b"] i assms(2) by (simp add: b'_def content_def)
qed (use assms(2) in \<open>simp_all add: b'_def\<close>)

lemma BackUp_block:
  assumes "tb_inv b" "write_index b + length d \<le> length (buffer b)"
  shows "out_BackUp (int (length (buffer b) - write_index b) - int (length d))
      \<lparr>os_buf = b\<lparr>write_index := length (buffer b), buffer := overwrite (write_index b) d (buffer b)\<rparr>, os_count = k\<rparr> =
    Inr \<lparr>os_buf = b\<lparr>write_index := write_index b + length d, buffer := overwrite (write_index b) d (buffer b)\<rparr>,
      os_count = k - (int (length (buffer b) - write_index b) - int (length d))\<rparr>"
proof -
  note i = tb_invD[OF assms(1)]
  let ?b = "b\<lparr>write_index := length (buffer b), buffer := overwrite (write_index b) d (buffer b)\<rparr>"
  let ?k = "length (buffer b) - write_index b - length d"
  have k: "int (length (buffer b) - write_index b) - int (length d) = int ?k" using i assms(2) by simp
  have b: "tb_inv ?b" using i assms(2) by (simp add: tb_inv_def)
  let ?b' = "b\<lparr>write_index := write_index b + length d, buffer := overwrite (write_index b) d (buffer b)\<rparr>"
  have "unwrite ?k ?b = Inr ?b'"
    using b i assms(2) by (simp add: unwrite_def check_index_validity_def)
  moreover have "?b = ?b'" if "?k = 0" using that i assms(2) by simp
  ultimately show ?thesis unfolding k by (cases "?k = 0") (simp_all add: out_BackUp_def del: of_nat_diff)
qed

lemma zc_write_ok:
  assumes "room (length d) (os_buf st)" "length d \<le> fuel"
  shows "\<exists>b'. zc_write fuel d st = Inr \<lparr>os_buf = b', os_count = os_count st + int (length d)\<rparr> \<and> tb_inv b' \<and>
    content b' = content (os_buf st) @ d \<and> prepend_size b' = prepend_size (os_buf st) \<and> length (buffer b') < 2 ^ 31"
  using assms
proof (induction fuel arbitrary: d st)
  case (Suc fuel)
  show ?case
  proof (cases "d = []")
    case False
    then obtain c cs where d: "d = c # cs" by (cases d) auto
    from out_Next_ok[OF Suc.prems(1)] obtain b size where
      b: "out_Next st = Inr ((write_index b, int size), \<lparr>os_buf = b\<lparr>write_index := length (buffer b)\<rparr>, os_count = os_count st + int size\<rparr>)"
      "size = length (buffer b) - write_index b" "4096 \<le> size" "tb_inv b" "content b = content (os_buf st)"
      "prepend_size b = prepend_size (os_buf st)" "length (buffer b) < 2 ^ 31" by blast
    let ?n = "min (length d) size"
    have fit: "write_index b + length (take ?n d) \<le> length (buffer b)" using b(2) tb_invD(3)[OF b(4)] by simp
    define b' where "b' = b\<lparr>write_index := write_index b + length (take ?n d), buffer := overwrite (write_index b) (take ?n d) (buffer b)\<rparr>"
    note f = fill_block[OF b(4) fit, folded b'_def]
    let ?st = "\<lparr>os_buf = b\<lparr>write_index := length (buffer b), buffer := overwrite (write_index b) (take ?n d) (buffer b)\<rparr>, os_count = os_count st + int size\<rparr>"
    have step: "zc_write (Suc fuel) d st =
        (if length d \<le> size then out_BackUp (int size - int (length d)) ?st else zc_write fuel (drop ?n d) ?st)"
      using b(1) fit by (simp add: d Let_def)
    show ?thesis
    proof (cases "length d \<le> size")
      case True
      then have "zc_write (Suc fuel) d st = Inr \<lparr>os_buf = b', os_count = os_count st + int (length d)\<rparr>"
        unfolding step using BackUp_block[OF b(4), of d "os_count st + int size"] fit b(2) by (simp add: b'_def)
      then show ?thesis using f b(5-7) True by simp
    next
      case False
      then have st: "?st = \<lparr>os_buf = b', os_count = os_count st + int size\<rparr>" using b(2) tb_invD(3)[OF b(4)] by (simp add: b'_def)
      have "length (content b') = length (content (os_buf st)) + size" using f(2) b(5) False by simp
      then have "room (length (drop ?n d)) (os_buf \<lparr>os_buf = b', os_count = os_count st + int size\<rparr>)"
        using f(1,3,4) b(6,7) Suc.prems(1) False unfolding room_def by auto
      from Suc.IH[OF this] show ?thesis
        using step st False f(2,3) b(3,5,6) Suc.prems(2) by (auto simp: d)
    qed
  qed (use Suc.prems in \<open>cases st; auto simp: room_def\<close>)
next
  case 0
  then show ?case by (cases st) (auto simp: room_def)
qed

subsection \<open>Frames\<close>

definition proto_frame :: "string \<Rightarrow> string \<Rightarrow> string" where
  "proto_frame name body = be32 (8 + length name + length body) @ be32 (length name) @ name @ body"

lemma append_room:
  assumes "room n b" "length d \<le> n"
  shows "\<exists>b'. appendImp d b = Inr b' \<and> room (n - length d) b' \<and> content b' = content b @ d \<and> prepend_size b' = prepend_size b"
proof -
  obtain c where c: "ensure_appendable (length d) b = Inr c" "tb_inv c" "content c = content b"
    "prepend_size c = prepend_size b" "length d \<le> writable_size c" "length (buffer c) < 2 ^ 31"
    using ensure_room[OF assms(1), of "length d"] assms(2) by auto
  have w: "write_index c + length d \<le> length (buffer c)" using c(2,5) tb_invD(3)[OF c(2)] by simp
  let ?b = "c\<lparr>write_index := write_index c + length d, buffer := overwrite (write_index c) d (buffer c)\<rparr>"
  note f = fill_block[OF c(2) w]
  have "uadd (write_index c) (length d) = write_index c + length d" using w tb_invD(4)[OF c(2)] by (intro uadd_vector) auto
  then have "appendImp d b = Inr ?b" using c(1,2,5) w by (simp add: appendImp_def move_write_index_def writable_size_def)
  moreover have "room (n - length d) ?b"
    using f c(3,4,6) assms unfolding room_def by (auto simp del: tb_sizes)
  ultimately show ?thesis using f c(3,4) by auto
qed

lemma segment_overwrite_inside:
  assumes "k + length d \<le> n" "r + n \<le> length xs"
  shows "segment r n (overwrite (r + k) d xs) = overwrite k d (segment r n (xs :: 'a list))"
proof -
  have split: "segment r n ys = segment r k ys @ segment (r + k) (length d) ys @ segment (r + k + length d) (n - k - length d) ys" for ys :: "'a list"
    using assms(1) segment_append_split[of r k "n - k" ys] segment_append_split[of "r + k" "length d" "n - k - length d" ys] by simp
  have "segment (r + k + length d) m (overwrite (r + k) d xs) = segment (r + k + length d) m xs" for m
    using assms by (simp add: segment_def overwrite_def)
  moreover have "segment (r + k) (length d) (overwrite (r + k) d xs) = d" "segment r k (overwrite (r + k) d xs) = segment r k xs"
    using assms by (simp_all add: segment_overwrite_same segment_overwrite_before)
  ultimately have "segment r n (overwrite (r + k) d xs) = segment r k xs @ d @ segment (r + k + length d) (n - k - length d) xs"
    using split[of "overwrite (r + k) d xs"] by simp
  then show ?thesis using assms(1) by (simp add: overwrite_def[of k] take_segment drop_segment min_absorb1 add.assoc)
qed

lemma store_content:
  assumes "tb_inv b" "k + length d \<le> length (content b)"
  defines "b' \<equiv> b\<lparr>buffer := overwrite (read_index b + k) d (buffer b)\<rparr>"
  shows "store (read_index b + k) d (buffer b) = Inr (buffer b')" "tb_inv b'" "content b' = overwrite k d (content b)"
    "read_index b' = read_index b"
proof -
  note i = tb_invD[OF assms(1)]
  have k: "k + length d \<le> write_index b - read_index b" using assms(1,2) by simp
  show "store (read_index b + k) d (buffer b) = Inr (buffer b')" "tb_inv b'" using i k by (simp_all add: b'_def tb_inv_def)
  show "content b' = overwrite k d (content b)" using segment_overwrite_inside[OF k, of "read_index b" "buffer b"] i by (simp add: b'_def content_def)
qed (simp add: b'_def)

lemma proto_encode_ok:
  assumes spec: "serialize_spec lib enc" and room: "room (8 + length (pb_name lib m) + length (enc m)) b"
  shows "\<exists>b'. proto_encode lib m b = Inr b' \<and> tb_inv b' \<and> content b' = content b @ proto_frame (pb_name lib m) (enc m)"
proof -
  let ?name = "pb_name lib m" and ?body = "enc m"
  obtain b1 where b1: "appendImp (be32 0) b = Inr b1" "room (4 + length ?name + length ?body) b1" "content b1 = content b @ be32 0"
    using append_room[OF room, of "be32 0"] by (auto simp: add.assoc)
  obtain b2 where b2: "appendImp (be32 0) b1 = Inr b2" "room (length ?name + length ?body) b2" "content b2 = content b1 @ be32 0"
    using append_room[OF b1(2), of "be32 0"] by auto
  obtain b3 where b3: "appendImp ?name b2 = Inr b3" "room (length ?body) b3" "content b3 = content b2 @ ?name"
    using append_room[OF b2(2), of ?name] by auto
  obtain b4 where b4: "zc_write (length ?body) ?body (out_new b3) = Inr \<lparr>os_buf = b4, os_count = int (length ?body)\<rparr>"
      "tb_inv b4" "content b4 = content b3 @ ?body"
    using zc_write_ok[of ?body "out_new b3"] b3(2) by (auto simp: out_new_def)
  let ?p = "length (content b)" and ?total = "8 + length ?name + length ?body"
  have c4: "content b4 = content b @ be32 0 @ be32 0 @ ?name @ ?body" using b1 b2 b3 b4 by simp
  have len: "readable_size b = ?p" using room by (simp add: room_def)
  have "length (content b4) = ?p + ?total" unfolding c4 by simp
  then have r4: "readable_size b4 = ?p + ?total" using tb_sizes(1,3)[OF b4(2)] by simp
  have lens: "?p + length (be32 x) \<le> length (content b4)" "?p + 4 + length (be32 x) \<le> length (content b4)" for x
    unfolding c4 by simp_all
  define b5 where "b5 = b4\<lparr>buffer := overwrite (read_index b4 + ?p) (be32 ?total) (buffer b4)\<rparr>"
  note s5 = store_content[OF b4(2) lens(1), of ?total, folded b5_def]
  have c5: "content b5 = content b @ be32 ?total @ be32 0 @ ?name @ ?body" unfolding s5(3) c4 by (simp add: overwrite_def)
  have "?p + 4 + length (be32 (length ?name)) \<le> length (content b5)" unfolding c5 by simp
  note s6 = store_content[OF s5(2) this]
  have small: "?total < 2 ^ 32" "length ?name < 2 ^ 32" using room by (auto simp: room_def)
  have "proto_encode lib m b = Inr (b5\<lparr>buffer := overwrite (read_index b5 + (?p + 4)) (be32 (length ?name)) (buffer b5)\<rparr>)"
    using b1(1) b2(1) b3(1) b4(1) spec len r4 small s5(1,4) s6(1)
    by (simp add: proto_encode_def serialize_spec_def Let_def tb_append_value_def tb_FluentAppend_value_def tb_append_def tb_ModifyData_def
        out_new_def b5_def add.assoc)
  moreover have "content (b5\<lparr>buffer := overwrite (read_index b5 + (?p + 4)) (be32 (length ?name)) (buffer b5)\<rparr>) = content b @ proto_frame ?name ?body"
    unfolding s6(3) c5 by (simp add: overwrite_def proto_frame_def)
  ultimately show ?thesis using s6(2) by blast
qed

subsection \<open>Decoding\<close>

lemma load_content:
  assumes "tb_inv b" "k + n \<le> length (content b)"
  shows "load (read_index b + k) n (buffer b) = Inr (segment k n (content b))"
proof -
  note i = tb_invD[OF assms(1)]
  have k: "k + n \<le> write_index b - read_index b" using assms by simp
  then have "segment (read_index b + k) n (buffer b) = segment k n (content b)"
    by (simp add: content_def segment_def drop_take min_absorb1 add.commute)
  then show ?thesis using i k by simp
qed

lemma consume_all:
  assumes "tb_inv b"
  shows "\<exists>b'. consume (readable_size b) b = Inr b' \<and> tb_inv b' \<and> content b' = []"
  using consume_ok[OF assms, of "readable_size b"] assms by fastforce

lemma frame_parts:
  assumes "length name < 2 ^ 32" "8 + length name + length body < 2 ^ 32"
  shows "length (proto_frame name body) = 8 + length name + length body"
    "ntohl (segment 0 4 (proto_frame name body @ rest)) = 8 + length name + length body"
    "ntohl (segment 4 4 (proto_frame name body @ rest)) = length name"
    "segment 8 (length name) (proto_frame name body @ rest) = name"
    "drop (8 + length name) (proto_frame name body @ rest) = body @ rest"
  using assms ntohl_be32[of "8 + length name + length body"] ntohl_be32[of "length name"]
  by (simp_all add: proto_frame_def segment_def)

text \<open>What \<open>decode\<close> does with a buffer that starts with a frame: everything behind the name is given to the parser.\<close>

lemma proto_decode_frame:
  assumes inv: "tb_inv b" and c: "content b = proto_frame name body @ rest" and name: "length name \<le> MAX_NAME_LENGTH"
    and size: "8 + length name + length body \<le> MAX_MESSAGE_SIZE" and known: "pb_known lib name" and spec: "parse_spec lib dec"
  shows "case dec name (body @ rest) of
      None \<Rightarrow> proto_decode lib b = Inr (None, b)
    | Some m \<Rightarrow> \<exists>b'. proto_decode lib b = Inr (Some m, b') \<and> tb_inv b' \<and> content b' = []"
proof -
  have small: "length name < 2 ^ 32" "8 + length name + length body < 2 ^ 32"
    using name size by (simp_all add: MAX_NAME_LENGTH_def MAX_MESSAGE_SIZE_def)
  note f = frame_parts[OF small]
  have len: "length (content b) = 8 + length name + length body + length rest" unfolding c by (simp add: f(1))
  then have r: "readable_size b = 8 + length name + length body + length rest" using tb_sizes(1,3)[OF inv] by simp
  have l0: "load (read_index b) 4 (buffer b) = Inr (segment 0 4 (content b))" using load_content[OF inv, of 0 4] len by simp
  have l1: "load (read_index b + 4) 4 (buffer b) = Inr (segment 4 4 (content b))" using load_content[OF inv, of 4 4] len by simp
  have l2: "load (read_index b + 8) (length name) (buffer b) = Inr name" using load_content[OF inv, of 8 "length name"] len f(4) c by simp
  let ?st = "\<lparr>is_buf = b, is_position = 8 + length name, is_total = readable_size b\<rparr>"
  have skip: "in_Skip (int (8 + length name)) (in_new b) = (True, ?st)"
    using r by (simp add: in_Skip_def in_new_def uadd_def nat_add_distrib) (use name in \<open>simp add: MAX_NAME_LENGTH_def\<close>)
  have "in_rest ?st = drop (8 + length name) (content b)"
    using r tb_sizes(1)[OF inv] by (simp add: in_rest_def content_def drop_segment tb_peek_def)
  then have rest: "in_rest ?st = body @ rest" unfolding c f(5) .
  have decode: "proto_decode lib b = (case pb_parse lib name ?st of (None, st) \<Rightarrow> Inr (None, b)
      | (Some m, st) \<Rightarrow> obind (in_consume st) (\<lambda>b. Inr (Some m, b)))"
    using r l0 l1 l2 f(2,3)[of rest] name size known skip
    by (simp add: proto_decode_def tb_ModifyData_def c createMessage_def Let_def)
  show ?thesis
  proof (cases "dec name (body @ rest)")
    case None
    then have "fst (pb_parse lib name ?st) = None" using spec[unfolded parse_spec_def, rule_format, of name ?st] rest by simp
    then show ?thesis using decode None by (cases "pb_parse lib name ?st") simp
  next
    case (Some m)
    then have "pb_parse lib name ?st = (Some m, ?st\<lparr>is_position := readable_size b\<rparr>)"
      using spec[unfolded parse_spec_def, rule_format, of name ?st] rest by simp
    then show ?thesis using decode Some consume_all[OF inv] by (auto simp: in_consume_def)
  qed
qed

subsection \<open>Properties\<close>

text \<open>C19. A message that was encoded is decoded again. If protobuf reads back what it serialised, encoding a
  message into an empty buffer writes one frame, through the blocks of the output stream and with both
  lengths filled in afterwards, and decoding that buffer gives the message and leaves it empty.\<close>

theorem proto_roundtrip:
  assumes "serialize_spec lib enc" and "parse_spec lib dec" and "dec (pb_name lib m) (enc m) = Some m"
    and "pb_known lib (pb_name lib m)" and "length (pb_name lib m) \<le> MAX_NAME_LENGTH"
    and "8 + length (pb_name lib m) + length (enc m) \<le> MAX_MESSAGE_SIZE"
    and "room (8 + length (pb_name lib m) + length (enc m)) b" and "content b = []"
  shows "\<exists>b1 b2. proto_encode lib m b = Inr b1 \<and> content b1 = proto_frame (pb_name lib m) (enc m) \<and>
    proto_decode lib b1 = Inr (Some m, b2) \<and> tb_inv b2 \<and> content b2 = []"
proof -
  obtain b1 where b1: "proto_encode lib m b = Inr b1" "tb_inv b1" "content b1 = proto_frame (pb_name lib m) (enc m) @ []"
    using proto_encode_ok[OF assms(1,7)] assms(8) by auto
  from proto_decode_frame[OF b1(2,3) assms(5,6,4,2)] assms(3) b1 show ?thesis by auto
qed

text \<open>A library whose messages are byte strings of one type.\<close>

definition bytes_lib :: "string protobuf" where
  "bytes_lib = \<lparr>pb_name = (\<lambda>_. ''Bytes''), pb_serialize = (\<lambda>m st. obind (zc_write (length m) m st) (\<lambda>st. Inr (True, st))),
     pb_known = (\<lambda>name. name = ''Bytes''), pb_parse = (\<lambda>_ st. (Some (in_rest st), st\<lparr>is_position := is_total st\<rparr>))\<rparr>"

lemma bytes_lib_spec: "serialize_spec bytes_lib (\<lambda>m. m)" "parse_spec bytes_lib (\<lambda>_ d. Some d)"
  by (simp_all add: serialize_spec_def parse_spec_def bytes_lib_def)

definition held :: "string \<Rightarrow> tcp_buffer" where
  "held c = \<lparr>buffer = replicate 8 NUL @ c, prepend_size = 8, read_index = 8, write_index = 8 + length c\<rparr>"

lemma held_content: "content (held c) = c"
  by (simp add: held_def content_def segment_def)

theorem proto_roundtrip_witness:
  "\<exists>b1 b2. proto_encode bytes_lib ''hello'' (held []) = Inr b1 \<and> proto_decode bytes_lib b1 = Inr (Some ''hello'', b2) \<and> content b2 = []"
proof -
  have "\<exists>b1 b2. proto_encode bytes_lib ''hello'' (held []) = Inr b1 \<and> content b1 = proto_frame (pb_name bytes_lib ''hello'') ''hello'' \<and>
      proto_decode bytes_lib b1 = Inr (Some ''hello'', b2) \<and> tb_inv b2 \<and> content b2 = []"
  proof (rule proto_roundtrip[OF bytes_lib_spec])
    show "room (8 + length (pb_name bytes_lib ''hello'') + length ''hello'') (held [])"
      by (simp add: room_def held_content bytes_lib_def) (simp add: held_def tb_inv_def vector_max_def)
  qed (simp_all add: bytes_lib_def MAX_NAME_LENGTH_def MAX_MESSAGE_SIZE_def held_content)
  then show ?thesis by blast
qed



end
