(* ===== verification/Log_Sink.thy ===== *)
theory Log_Sink
  imports Std_Map Timer_Queue
begin

text \<open>
  \<open>Common/LogFilter.h\<close>, \<open>Common/LogAppender.cpp\<close> and \<open>Common/SyncLog.cpp\<close>: the filter that decides which messages are
  printed, the files they are written to, and the log that writes every message at once. A file is
  what the kernel has of it (\<open>la_disk\<close>) and the bytes in the buffer of the open stream. The clock, the
  format of a local time and \<open>fopen\<close> are parameters; the results of the coming calls of \<open>fwrite\<close> are a
  list, after which every write is complete.
\<close>

subsection \<open>The filter\<close>

definition char_between :: "nat \<Rightarrow> nat \<Rightarrow> char \<Rightarrow> bool" where
  "char_between a b c \<longleftrightarrow> a \<le> of_char c \<and> (of_char c :: nat) \<le> b"

definition isupper :: "char \<Rightarrow> bool" where "isupper = char_between 65 90"

definition ispunct :: "char \<Rightarrow> bool" where
  "ispunct c \<longleftrightarrow> char_between 33 47 c \<or> char_between 58 64 c \<or> char_between 91 96 c \<or> char_between 123 126 c"

definition toupper :: "char \<Rightarrow> char" where
  "toupper c = (if char_between 97 122 c then char_of (of_char c - 32 :: nat) else c)"

definition LOG_LEVEL_DEBUG :: int where "LOG_LEVEL_DEBUG = 0"
definition LOG_LEVEL_INFO :: int where "LOG_LEVEL_INFO = 1"
definition LOG_LEVEL_WARN :: int where "LOG_LEVEL_WARN = 2"
definition LOG_LEVEL_ERROR :: int where "LOG_LEVEL_ERROR = 3"

text \<open>The callback, once set, is the \<open>append\<close> of a log; \<open>lf_callback\<close> says whether it is set.\<close>

record log_filter =
  lf_modules :: "string list"
  lf_level :: int
  lf_callback :: bool

definition filter_new :: log_filter where
  "filter_new = \<lparr>lf_modules = [], lf_level = LOG_LEVEL_DEBUG, lf_callback = False\<rparr>"

definition level_of :: "string \<Rightarrow> int" where
  "level_of level = (if level = ''DEBUG'' then LOG_LEVEL_DEBUG else if level = ''INFO'' then LOG_LEVEL_INFO
     else if level = ''WARN'' then LOG_LEVEL_WARN else if level = ''ERROR'' then LOG_LEVEL_ERROR else LOG_LEVEL_DEBUG)"

definition set_global_level :: "int \<Rightarrow> log_filter \<Rightarrow> log_filter" where
  "set_global_level level f = f\<lparr>lf_level := level\<rparr>"

definition set_global_level_const :: "string \<Rightarrow> log_filter \<Rightarrow> log_filter outcome" where
  "set_global_level_const level f =
     assertC (\<forall>c \<in> set level. isupper c \<or> isspace c \<or> ispunct c) (Inr (f\<lparr>lf_level := level_of level\<rparr>))"

text \<open>The overloads on a variable also change the variable.\<close>

definition set_global_level_var :: "string \<Rightarrow> log_filter \<Rightarrow> string \<times> log_filter" where
  "set_global_level_var level f = (let level = map toupper level in (level, f\<lparr>lf_level := level_of level\<rparr>))"

definition set_module_enabled_var :: "string \<Rightarrow> log_filter \<Rightarrow> string \<times> log_filter" where
  "set_module_enabled_var module f =
     (let module = map toupper module in (module, f\<lparr>lf_modules := List.insert module (lf_modules f)\<rparr>))"

definition set_module_enabled_const :: "string \<Rightarrow> log_filter \<Rightarrow> log_filter outcome" where
  "set_module_enabled_const module f =
     assertC (\<forall>c \<in> set module. isupper c) (Inr (f\<lparr>lf_modules := List.insert module (lf_modules f)\<rparr>))"

fun set_modules_enabled :: "string list \<Rightarrow> log_filter \<Rightarrow> string list \<times> log_filter" where
  "set_modules_enabled [] f = ([], f)"
| "set_modules_enabled (m # ms) f =
     (let (m, f) = set_module_enabled_var m f; (ms, f) = set_modules_enabled ms f in (m # ms, f))"

definition get_global_level :: "log_filter \<Rightarrow> int" where "get_global_level f = lf_level f"
definition set_callback :: "log_filter \<Rightarrow> log_filter" where "set_callback f = f\<lparr>lf_callback := True\<rparr>"
definition is_module_enabled :: "string \<Rightarrow> log_filter \<Rightarrow> bool" where "is_module_enabled m f \<longleftrightarrow> m \<in> set (lf_modules f)"

definition printLog :: "(string \<Rightarrow> 's \<Rightarrow> 's outcome) \<Rightarrow> log_filter \<Rightarrow> string \<Rightarrow> 's \<Rightarrow> 's outcome" where
  "printLog cb f data s = assertC (lf_callback f) (cb data s)"

definition log_text :: "string \<Rightarrow> string \<Rightarrow> string \<Rightarrow> nat \<Rightarrow> string \<Rightarrow> string" where
  "log_text module level_str file line msg =
     ''['' @ level_str @ ''] ['' @ module @ ''] ['' @ file @ '':'' @ dec line @ ''] '' @ msg @ [CHR 0x0A]"

text \<open>\<open>LOG_BASE\<close> of the debug build; no filter is a null \<open>g_log_filter\<close>. The release build prints
  whatever the level and the module are.\<close>

definition log_base ::
  "(string \<Rightarrow> 's \<Rightarrow> 's outcome) \<Rightarrow> log_filter option \<Rightarrow> string \<Rightarrow> int \<Rightarrow> string \<Rightarrow> string \<Rightarrow> nat \<Rightarrow> string \<Rightarrow> 's \<Rightarrow> 's outcome" where
  "log_base cb g module level level_str file line msg s = (case g of None \<Rightarrow> Inr s
   | Some f \<Rightarrow> if is_module_enabled module f \<and> level \<ge> get_global_level f
       then printLog cb f (log_text module level_str file line msg) s else Inr s)"

definition log_base_release ::
  "(string \<Rightarrow> 's \<Rightarrow> 's outcome) \<Rightarrow> log_filter option \<Rightarrow> string \<Rightarrow> int \<Rightarrow> string \<Rightarrow> string \<Rightarrow> nat \<Rightarrow> string \<Rightarrow> 's \<Rightarrow> 's outcome" where
  "log_base_release cb g module level level_str file line msg s = (case g of None \<Rightarrow> Inr s
   | Some f \<Rightarrow> printLog cb f (log_text module level_str file line msg) s)"

definition log_sysfatal ::
  "(string \<Rightarrow> 's \<Rightarrow> 's outcome) \<Rightarrow> log_filter option \<Rightarrow> string \<Rightarrow> nat \<Rightarrow> string \<Rightarrow> 's \<Rightarrow> 's outcome" where
  "log_sysfatal cb g file line msg s =
     obind (log_base cb g ''DEFAULT'' LOG_LEVEL_ERROR ''SYSTEM'' file line msg s) (\<lambda>_. Inl Exit)"

subsection \<open>One log file\<close>

definition find_last_of :: "char \<Rightarrow> string \<Rightarrow> nat option" where
  "find_last_of c s = (let r = dropWhile (\<lambda>x. x \<noteq> c) (rev s) in if r = [] then None else Some (length r - 1))"

definition getFileName :: "string \<Rightarrow> string" where
  "getFileName s = (case find_last_of (CHR ''.'') s of None \<Rightarrow> s | Some pos \<Rightarrow> take pos s)"

text \<open>\<open>substr(npos)\<close> throws \<open>std::out_of_range\<close>.\<close>

definition getSuffix :: "string \<Rightarrow> string outcome" where
  "getSuffix s = (case find_last_of (CHR ''.'') s of None \<Rightarrow> Inl Terminate | Some pos \<Rightarrow> Inr (drop pos s))"

record log_file =
  bf_path :: string
  bf_name :: string
  bf_type :: string
  bf_pending :: string
  bf_written :: int

record log_env =
  le_clock :: "nat \<Rightarrow> time_stamp"
  le_format :: "time_stamp \<Rightarrow> string"
  le_open :: "string \<Rightarrow> bool"
  le_fileno :: "string \<Rightarrow> int"

type_synonym disk = "string \<Rightarrow> string"

definition BUFFER_SIZE :: nat where "BUFFER_SIZE = 10"

definition base_new :: "log_env \<Rightarrow> string \<Rightarrow> log_file outcome" where
  "base_new env filename =
     obind (getSuffix filename) (\<lambda>type.
     if le_open env filename
     then Inr \<lparr>bf_path = filename, bf_name = getFileName filename, bf_type = type, bf_pending = [], bf_written = 0\<rparr>
     else Inl Exit)"

text \<open>Full buffering: the kernel gets whole blocks of the size of the buffer.\<close>

definition stream_put :: "string \<Rightarrow> log_file \<Rightarrow> disk \<Rightarrow> log_file \<times> disk" where
  "stream_put s f d =
     (let t = bf_pending f @ s; k = length t - length t mod BUFFER_SIZE
      in (f\<lparr>bf_pending := drop k t\<rparr>, d(bf_path f := d (bf_path f) @ take k t)))"

definition base_flush :: "log_file \<Rightarrow> disk \<Rightarrow> log_file \<times> disk" where
  "base_flush f d = (f\<lparr>bf_pending := []\<rparr>, d(bf_path f := d (bf_path f) @ bf_pending f))"

definition base_destroy :: "log_file \<Rightarrow> disk \<Rightarrow> disk" where
  "base_destroy f d = snd (base_flush f d)"

text \<open>The loop of \<open>append\<close>; a result of \<open>fwrite\<close> is the number of bytes it took and the error indicator.\<close>

fun write_all :: "(nat \<times> bool) list \<Rightarrow> string \<Rightarrow> log_file \<times> disk \<Rightarrow> (nat \<times> bool) list \<times> log_file \<times> disk" where
  "write_all sc [] fd = (sc, fd)"
| "write_all [] (c # cs) fd = ([], stream_put (c # cs) (fst fd) (snd fd))"
| "write_all ((n, err) # sc) (c # cs) fd =
     (let s = c # cs; n = min n (length s); fd = stream_put (take n s) (fst fd) (snd fd)
      in if n \<noteq> length s \<and> err then (sc, fd) else write_all sc (drop n s) fd)"

definition base_append :: "(nat \<times> bool) list \<Rightarrow> string \<Rightarrow> log_file \<Rightarrow> disk \<Rightarrow> (nat \<times> bool) list \<times> log_file \<times> disk" where
  "base_append sc s f d = (let (sc, f, d) = write_all sc s (f, d) in (sc, f\<lparr>bf_written := bf_written f + int (length s)\<rparr>, d))"

subsection \<open>The file that is rolled\<close>

text \<open>The two static variables of \<open>Timeflush\<close> are \<open>la_count\<close> and \<open>la_next\<close>, the latter None until its
  first use.\<close>

record log_appender =
  la_base :: log_file
  la_name :: string
  la_count :: nat
  la_next :: "time_stamp option"
  la_disk :: disk
  la_script :: "(nat \<times> bool) list"
  la_tick :: nat

definition rollSize :: int where "rollSize = 2 * 1024"
definition flushInterval :: time_interval where "flushInterval = 20"
definition checkInterval :: nat where "checkInterval = 5"

definition appender_new :: "log_env \<Rightarrow> string \<Rightarrow> disk \<Rightarrow> (nat \<times> bool) list \<Rightarrow> log_appender outcome" where
  "appender_new env filename d sc =
     obind (base_new env filename) (\<lambda>b.
     Inr \<lparr>la_base = b, la_name = getFileName filename, la_count = 0, la_next = None, la_disk = d, la_script = sc, la_tick = 0\<rparr>)"

definition la_now :: "log_env \<Rightarrow> log_appender \<Rightarrow> time_stamp \<times> log_appender" where
  "la_now env a = (le_clock env (la_tick a), a\<lparr>la_tick := la_tick a + 1\<rparr>)"

definition la_flush :: "log_appender \<Rightarrow> log_appender" where
  "la_flush a = (let (f, d) = base_flush (la_base a) (la_disk a) in a\<lparr>la_base := f, la_disk := d\<rparr>)"

definition Timeflush :: "log_env \<Rightarrow> log_appender \<Rightarrow> log_appender" where
  "Timeflush env a =
     (let a = a\<lparr>la_count := uadd (la_count a) 1\<rparr> in
      if la_count a < checkInterval then a
      else let (time, a) = la_now env a;
               next = (case la_next a of None \<Rightarrow> ts_plus LowPrecision time flushInterval | Some t \<Rightarrow> t);
               a = a\<lparr>la_next := Some next\<rparr>
           in if ts_greater time next then (la_flush a)\<lparr>la_next := Some time\<rparr> else a)"

definition getLogFileName :: "log_env \<Rightarrow> log_appender \<Rightarrow> string \<times> log_appender" where
  "getLogFileName env a =
     (let suffix = bf_type (la_base a); (nowTime, a) = la_now env a
      in (la_name a @ le_format env nowTime @ suffix, a))"

text \<open>\<open>reset\<close> gets a file that is open already and then closes the old one.\<close>

definition rollFile :: "log_env \<Rightarrow> log_appender \<Rightarrow> log_appender outcome" where
  "rollFile env a =
     (let (filename, a) = getLogFileName env a in
      obind (base_new env filename) (\<lambda>b.
      Inr (a\<lparr>la_base := b, la_disk := base_destroy (la_base a) (la_disk a)\<rparr>)))"

definition write_base :: "string \<Rightarrow> log_appender \<Rightarrow> log_appender" where
  "write_base s a =
     (let (sc, f, d) = base_append (la_script a) s (la_base a) (la_disk a) in a\<lparr>la_script := sc, la_base := f, la_disk := d\<rparr>)"

definition la_append :: "log_env \<Rightarrow> string \<Rightarrow> log_appender \<Rightarrow> log_appender outcome" where
  "la_append env s a =
     (let a = write_base s a in
      if bf_written (la_base a) > rollSize then rollFile env a else Inr (Timeflush env a))"

definition safeAppend :: "log_env \<Rightarrow> string \<Rightarrow> log_appender \<Rightarrow> log_appender outcome" where
  "safeAppend env s a =
     obind (if le_fileno env (bf_path (la_base a)) < 0 then rollFile env a else Inr a) (\<lambda>a.
     let a = write_base s a in
     if bf_written (la_base a) > rollSize then rollFile env a else Inr (Timeflush env a))"

subsection \<open>The synchronous log\<close>

definition banner :: "nat list \<Rightarrow> string" where
  "banner bytes = replicate 36 (CHR ''='') @ '' '' @ map char_of bytes @ '' '' @ replicate 36 (CHR ''='') @ '' '' @ [CHR 0x0A]"

definition start_banner :: string where
  "start_banner = banner [0xE6, 0x97, 0xA5, 0xE5, 0xBF, 0x97, 0xE5, 0x90, 0xAF, 0xE5, 0x8A, 0xA8]"
definition end_banner :: string where
  "end_banner = banner [0xE6, 0x97, 0xA5, 0xE5, 0xBF, 0x97, 0xE7, 0xBB, 0x93, 0xE6, 0x9D, 0x9F]"

record sync_log =
  sl_appender :: log_appender
  sl_filter :: log_filter

definition sync_append :: "log_env \<Rightarrow> string \<Rightarrow> sync_log \<Rightarrow> sync_log outcome" where
  "sync_append env s l = obind (safeAppend env s (sl_appender l)) (\<lambda>a. Inr (l\<lparr>sl_appender := la_flush a\<rparr>))"

definition sync_new :: "log_env \<Rightarrow> string \<Rightarrow> disk \<Rightarrow> (nat \<times> bool) list \<Rightarrow> sync_log outcome" where
  "sync_new env filename d sc =
     obind (appender_new env filename d sc) (\<lambda>a.
     sync_append env start_banner \<lparr>sl_appender = a, sl_filter = set_callback filter_new\<rparr>)"

text \<open>The destructor closes the file after the last line; \<open>g_log_filter\<close> is null from then on.\<close>

definition sync_destroy :: "log_env \<Rightarrow> sync_log \<Rightarrow> disk outcome" where
  "sync_destroy env l =
     obind (sync_append env end_banner l) (\<lambda>l. Inr (base_destroy (la_base (sl_appender l)) (la_disk (sl_appender l))))"

subsection \<open>The filter decides\<close>

lemma log_base_filters:
  "log_base cb (Some f) module level level_str file line msg s =
     (if module \<in> set (lf_modules f) \<and> lf_level f \<le> level
      then assertC (lf_callback f) (cb (log_text module level_str file line msg) s) else Inr s)"
  by (simp add: log_base_def is_module_enabled_def get_global_level_def printLog_def)

subsection \<open>What a file holds\<close>

text \<open>The bytes of a file, those in the buffer of the open stream included.\<close>

definition held_bytes :: "log_file \<Rightarrow> disk \<Rightarrow> disk" where
  "held_bytes f d g = d g @ (if g = bf_path f then bf_pending f else [])"

definition stored :: "log_appender \<Rightarrow> disk" where "stored a = held_bytes (la_base a) (la_disk a)"

definition suffix_ok :: "string \<Rightarrow> bool" where
  "suffix_ok t \<longleftrightarrow> (\<exists>u. t = CHR ''.'' # u \<and> CHR ''.'' \<notin> set u)"

definition no_errors :: "(nat \<times> bool) list \<Rightarrow> bool" where "no_errors sc \<longleftrightarrow> (\<forall>(n, err) \<in> set sc. \<not> err)"

definition la_inv :: "log_appender \<Rightarrow> bool" where
  "la_inv a \<longleftrightarrow> suffix_ok (bf_type (la_base a)) \<and> no_errors (la_script a) \<and> bf_written (la_base a) \<le> rollSize"

lemma find_last_of_suffix:
  assumes "CHR ''.'' \<notin> set u"
  shows "find_last_of (CHR ''.'') (s @ CHR ''.'' # u) = Some (length s)"
proof -
  have "dropWhile (\<lambda>x. x \<noteq> CHR ''.'') (rev u @ CHR ''.'' # rev s) = CHR ''.'' # rev s"
    using assms by (subst dropWhile_append2) auto
  then show ?thesis by (simp add: find_last_of_def Let_def)
qed

lemma getSuffix_append: "suffix_ok t \<Longrightarrow> getSuffix (s @ t) = Inr t"
  by (auto simp: suffix_ok_def getSuffix_def find_last_of_suffix)

lemma split_name:
  assumes "CHR ''.'' \<in> set filename"
  shows "\<exists>t. suffix_ok t \<and> filename = getFileName filename @ t \<and> getSuffix filename = Inr t"
proof -
  obtain s u where "filename = s @ CHR ''.'' # u" "CHR ''.'' \<notin> set u" using split_list_last[OF assms] by blast
  then show ?thesis by (intro exI[of _ "CHR ''.'' # u"]) (auto simp: suffix_ok_def getSuffix_def getFileName_def find_last_of_suffix)
qed

definition same_file :: "log_file \<Rightarrow> log_file \<Rightarrow> bool" where
  "same_file f f' \<longleftrightarrow> bf_path f' = bf_path f \<and> bf_type f' = bf_type f \<and> bf_written f' = bf_written f"

lemma stream_put_stored:
  assumes "stream_put s f d = (f', d')"
  shows "held_bytes f' d' g = held_bytes f d g @ (if g = bf_path f then s else [])" "same_file f f'"
proof -
  define t k where "t = bf_pending f @ s" and "k = length t - length t mod BUFFER_SIZE"
  have "f' = f\<lparr>bf_pending := drop k t\<rparr>" "d' = d(bf_path f := d (bf_path f) @ take k t)"
    using assms by (simp_all add: stream_put_def Let_def t_def k_def)
  moreover have "take k t @ drop k t = bf_pending f @ s" unfolding t_def by (rule append_take_drop_id)
  ultimately show "held_bytes f' d' g = held_bytes f d g @ (if g = bf_path f then s else [])" "same_file f f'"
    by (simp_all add: held_bytes_def same_file_def del: append_take_drop_id)
qed

lemma write_all_stored:
  "write_all sc s (f, d) = (sc', f', d') \<Longrightarrow> no_errors sc \<Longrightarrow>
     held_bytes f' d' g = held_bytes f d g @ (if g = bf_path f then s else []) \<and> same_file f f' \<and> no_errors sc'"
proof (induction sc s "(f, d)" arbitrary: f d rule: write_all.induct)
  case (1 sc)
  then show ?case by (simp add: same_file_def)
next
  case (2 c cs)
  then show ?case using stream_put_stored[of "c # cs" f d f' d'] by (simp add: no_errors_def)
next
  case (3 n err sc c cs)
  let ?n = "min n (length (c # cs))"
  obtain f1 d1 where put: "stream_put (take ?n (c # cs)) f d = (f1, d1)" by fastforce
  have e: "\<not> err" "no_errors sc" using "3.prems"(2) by (auto simp: no_errors_def)
  have rest: "write_all sc (drop ?n (c # cs)) (f1, d1) = (sc', f', d')"
    using "3.prems"(1) put e(1) by (simp only: write_all.simps Let_def fst_conv snd_conv) simp
  note P = stream_put_stored[OF put]
  have "held_bytes f' d' g = held_bytes f1 d1 g @ (if g = bf_path f1 then drop ?n (c # cs) else []) \<and> same_file f1 f' \<and> no_errors sc'"
    by (rule "3.hyps"[OF refl refl _ _ rest e(2)]) (use put e(1) in simp_all)
  then show ?case using P(1)[of g] P(2) append_take_drop_id[of ?n "c # cs"]
    by (simp add: same_file_def del: take_Suc_Cons drop_Suc_Cons append_take_drop_id)
qed

lemma write_base_stored:
  assumes "no_errors (la_script a)"
  shows "stored (write_base s a) f = stored a f @ (if f = bf_path (la_base a) then s else [])"
    "bf_path (la_base (write_base s a)) = bf_path (la_base a)" "bf_type (la_base (write_base s a)) = bf_type (la_base a)"
    "bf_written (la_base (write_base s a)) = bf_written (la_base a) + int (length s)"
    "no_errors (la_script (write_base s a))" "la_name (write_base s a) = la_name a"
proof -
  obtain sc' f' d' where w: "write_all (la_script a) s (la_base a, la_disk a) = (sc', f', d')" by (metis prod.exhaust)
  note W = write_all_stored[OF w assms]
  have b: "write_base s a = a\<lparr>la_script := sc', la_base := f'\<lparr>bf_written := bf_written f' + int (length s)\<rparr>, la_disk := d'\<rparr>"
    using w by (simp add: write_base_def base_append_def)
  have "held_bytes (f'\<lparr>bf_written := n\<rparr>) d' f = held_bytes f' d' f" for n by (simp add: held_bytes_def)
  then show "stored (write_base s a) f = stored a f @ (if f = bf_path (la_base a) then s else [])"
    using W[of f] by (simp add: stored_def b)
  show "bf_path (la_base (write_base s a)) = bf_path (la_base a)" "bf_type (la_base (write_base s a)) = bf_type (la_base a)"
    "bf_written (la_base (write_base s a)) = bf_written (la_base a) + int (length s)"
    "no_errors (la_script (write_base s a))" "la_name (write_base s a) = la_name a" using W by (simp_all add: b same_file_def)
qed

lemma la_flush_stored:
  "stored (la_flush a) = stored a" "la_base (la_flush a) = (la_base a)\<lparr>bf_pending := []\<rparr>" "la_script (la_flush a) = la_script a"
  "la_name (la_flush a) = la_name a"
  by (auto simp: la_flush_def base_flush_def stored_def held_bytes_def fun_eq_iff)

lemma Timeflush_stored:
  "stored (Timeflush env a) = stored a" "la_script (Timeflush env a) = la_script a" "la_name (Timeflush env a) = la_name a"
  "bf_path (la_base (Timeflush env a)) = bf_path (la_base a)" "bf_type (la_base (Timeflush env a)) = bf_type (la_base a)"
  "bf_written (la_base (Timeflush env a)) = bf_written (la_base a)"
proof -
  have upd: "stored (a\<lparr>la_count := c, la_tick := t, la_next := n\<rparr>) = stored a" "stored (b\<lparr>la_next := n\<rparr>) = stored b"
    "stored (a\<lparr>la_count := c\<rparr>) = stored a" "stored (a\<lparr>la_count := c, la_tick := t\<rparr>) = stored a" for b c t n
    by (simp_all add: stored_def)
  show "stored (Timeflush env a) = stored a" by (simp add: Timeflush_def Let_def la_now_def upd la_flush_stored)
qed (simp_all add: Timeflush_def Let_def la_now_def la_flush_stored)

text \<open>Rolling: the old file is complete and nothing is in the new one yet.\<close>

lemma rollFile_stored:
  assumes "\<forall>f. le_open env f" "suffix_ok (bf_type (la_base a))"
  shows "\<exists>a' t. rollFile env a = Inr a' \<and> stored a' = stored a \<and> bf_path (la_base a') = la_name a @ le_format env t @ bf_type (la_base a) \<and>
    bf_type (la_base a') = bf_type (la_base a) \<and> la_name a' = la_name a \<and> la_script a' = la_script a \<and> bf_written (la_base a') = 0"
proof -
  have "getSuffix (la_name a @ le_format env t @ bf_type (la_base a)) = Inr (bf_type (la_base a))" for t
    using getSuffix_append[OF assms(2), of "la_name a @ le_format env t"] by simp
  then show ?thesis using assms(1)
    by (auto simp: rollFile_def getLogFileName_def la_now_def base_new_def stored_def held_bytes_def base_destroy_def base_flush_def fun_eq_iff)
qed

subsection \<open>The specification\<close>

text \<open>The file each line goes to: a file is left after the line that makes it exceed the limit, for a
  file that is named by the time.\<close>

fun roll_spec :: "(time_stamp \<Rightarrow> string) \<Rightarrow> string \<Rightarrow> int \<Rightarrow> (nat \<Rightarrow> time_stamp) \<Rightarrow> string list \<Rightarrow> string list" where
  "roll_spec nm p w ts [] = []"
| "roll_spec nm p w ts (l # ls) =
     p # (if w + int (length l) > rollSize then roll_spec nm (nm (ts 0)) 0 (\<lambda>i. ts (Suc i)) ls
          else roll_spec nm p (w + int (length l)) ts ls)"

definition lines_of :: "string \<Rightarrow> string list \<Rightarrow> string list \<Rightarrow> string" where
  "lines_of f paths ls = concat (map snd (filter (\<lambda>(p, l). p = f) (zip paths ls)))"

text \<open>Files can be opened, and an open stream has a descriptor.\<close>

definition log_ready :: "log_env \<Rightarrow> bool" where "log_ready env \<longleftrightarrow> (\<forall>f. le_open env f \<and> 0 \<le> le_fileno env f)"

text \<open>One line was appended: the files hold it, and the file was left if it had to be.\<close>

definition line_put :: "log_env \<Rightarrow> string \<Rightarrow> log_appender \<Rightarrow> log_appender \<Rightarrow> time_stamp \<Rightarrow> bool" where
  "line_put env l a a' t \<longleftrightarrow> la_name a' = la_name a \<and> bf_type (la_base a') = bf_type (la_base a) \<and>
     (\<forall>f. stored a' f = stored a f @ (if f = bf_path (la_base a) then l else [])) \<and>
     (if bf_written (la_base a) + int (length l) > rollSize
      then bf_path (la_base a') = la_name a @ le_format env t @ bf_type (la_base a) \<and> bf_written (la_base a') = 0
      else bf_path (la_base a') = bf_path (la_base a) \<and> bf_written (la_base a') = bf_written (la_base a) + int (length l))"

locale line_sink =
  fixes put :: "log_env \<Rightarrow> string \<Rightarrow> log_appender \<Rightarrow> log_appender outcome"
  assumes put_line: "log_ready env \<Longrightarrow> la_inv a \<Longrightarrow> \<exists>a' t. put env l a = Inr a' \<and> la_inv a' \<and> line_put env l a a' t"

context line_sink
begin

lemma put_lines:
  assumes "log_ready env" "la_inv a"
  shows "\<exists>a' ts. ofold (put env) ls a = Inr a' \<and> la_inv a' \<and> la_name a' = la_name a \<and> bf_type (la_base a') = bf_type (la_base a) \<and>
    (\<forall>f. stored a' f = stored a f @
      lines_of f (roll_spec (\<lambda>t. la_name a @ le_format env t @ bf_type (la_base a)) (bf_path (la_base a)) (bf_written (la_base a)) ts ls) ls)"
  using assms(2)
proof (induction ls arbitrary: a)
  case Nil
  then show ?case by (simp add: lines_of_def)
next
  case (Cons l ls)
  obtain a1 t where a1: "put env l a = Inr a1" "la_inv a1" "line_put env l a a1 t" using put_line[OF assms(1) Cons.prems] by blast
  obtain a' ts where a': "ofold (put env) ls a1 = Inr a'" "la_inv a'" "la_name a' = la_name a1" "bf_type (la_base a') = bf_type (la_base a1)"
    "\<And>f. stored a' f = stored a1 f @
      lines_of f (roll_spec (\<lambda>t. la_name a1 @ le_format env t @ bf_type (la_base a1)) (bf_path (la_base a1)) (bf_written (la_base a1)) ts ls) ls"
    using Cons.IH[OF a1(2)] by blast
  show ?case using a1 a'
    by (intro exI[of _ a'] exI[of _ "if bf_written (la_base a) + int (length l) > rollSize then case_nat t ts else ts"])
      (auto simp: line_put_def lines_of_def)
qed

end

text \<open>The tail of both appending operations.\<close>

lemma write_roll_step:
  assumes "log_ready env" "la_inv a"
  shows "\<exists>a' t. (if bf_written (la_base (write_base l a)) > rollSize then rollFile env (write_base l a)
      else Inr (Timeflush env (write_base l a))) = Inr a' \<and> la_inv a' \<and> line_put env l a a' t"
proof -
  have i: "no_errors (la_script a)" "suffix_ok (bf_type (la_base a))" using assms(2) by (auto simp: la_inv_def)
  note W = write_base_stored[OF i(1)]
  show ?thesis
  proof (cases "bf_written (la_base a) + int (length l) > rollSize")
    case True
    have "suffix_ok (bf_type (la_base (write_base l a)))" "\<forall>f. le_open env f" using i W assms(1) by (simp_all add: log_ready_def)
    from rollFile_stored[OF this(2,1)] obtain a' t where "rollFile env (write_base l a) = Inr a'" "stored a' = stored (write_base l a)"
      "bf_path (la_base a') = la_name a @ le_format env t @ bf_type (la_base a)" "bf_type (la_base a') = bf_type (la_base a)"
      "la_name a' = la_name a" "la_script a' = la_script (write_base l a)" "bf_written (la_base a') = 0" using W by auto
    then show ?thesis using True W i by (intro exI[of _ a'] exI[of _ t]) (simp add: la_inv_def line_put_def rollSize_def)
  next
    case False
    then show ?thesis using W i by (simp add: la_inv_def line_put_def Timeflush_stored)
  qed
qed

text \<open>What the synchronous log does with a line.\<close>

definition append_flush :: "log_env \<Rightarrow> string \<Rightarrow> log_appender \<Rightarrow> log_appender outcome" where
  "append_flush env s a = obind (safeAppend env s a) (\<lambda>a. Inr (la_flush a))"

interpretation async_sink: line_sink la_append
  by unfold_locales (simp only: la_append_def Let_def, rule write_roll_step)

interpretation sync_sink: line_sink append_flush
proof unfold_locales
  fix env a l assume r: "log_ready env" "la_inv a"
  have "\<not> le_fileno env (bf_path (la_base a)) < 0" using r(1) by (simp add: log_ready_def not_less)
  then obtain a' t where a': "safeAppend env l a = Inr a'" "la_inv a'" "line_put env l a a' t"
    using write_roll_step[OF r, of l] by (auto simp: safeAppend_def Let_def)
  then show "\<exists>a' t. append_flush env l a = Inr a' \<and> la_inv a' \<and> line_put env l a a' t"
    by (intro exI[of _ "la_flush a'"] exI[of _ t]) (simp add: append_flush_def la_inv_def line_put_def la_flush_stored)
qed

lemma appender_new_ok:
  assumes "log_ready env" "CHR ''.'' \<in> set filename" "no_errors sc"
  obtains a t where "appender_new env filename d sc = Inr a" "la_inv a" "stored a = d" "bf_path (la_base a) = filename"
    "bf_written (la_base a) = 0" "la_name a = getFileName filename" "bf_type (la_base a) = t" "filename = getFileName filename @ t"
proof -
  obtain t where "suffix_ok t" "filename = getFileName filename @ t" "getSuffix filename = Inr t" using split_name[OF assms(2)] by blast
  then show ?thesis using assms that
    by (simp add: appender_new_def base_new_def log_ready_def la_inv_def rollSize_def stored_def held_bytes_def fun_eq_iff)
qed

lemma sync_append_flush: "sync_append env s l = obind (append_flush env s (sl_appender l)) (\<lambda>a. Inr (l\<lparr>sl_appender := a\<rparr>))"
  by (simp add: sync_append_def append_flush_def obind_assoc)

lemma sync_appends:
  "ofold (sync_append env) ls l = obind (ofold (append_flush env) ls (sl_appender l)) (\<lambda>a. Inr (l\<lparr>sl_appender := a\<rparr>))"
  by (induction ls arbitrary: l) (simp_all add: sync_append_flush obind_assoc)

lemma append_flush_pending:
  "ofold (append_flush env) ls a = Inr a' \<Longrightarrow> ls \<noteq> [] \<Longrightarrow> bf_pending (la_base a') = []"
proof (induction ls arbitrary: a)
  case (Cons l ls)
  then show ?case by (cases ls) (auto simp: append_flush_def outcome_iff la_flush_stored)
qed simp

subsection \<open>The synchronous log loses nothing\<close>

text \<open>C11. A synchronous log whose files can be opened and whose writes report no error (but may be
  partial) does not fail, and after every message the files on the disk hold, beside what was in
  them, the start line and all messages, whole and in order, in the files of the specification: a
  file is left after the message with which it exceeds 2048 bytes, for one that is named by the time,
  which is continued if it is there already. The count of the open file stays within the limit.\<close>

theorem sync_log_keeps_lines:
  assumes "log_ready env" "CHR ''.'' \<in> set filename" "no_errors sc"
  shows "\<exists>l0 l ts. sync_new env filename d sc = Inr l0 \<and> ofold (sync_append env) ls l0 = Inr l \<and>
    (\<forall>f. la_disk (sl_appender l) f = d f @ lines_of f (roll_spec (\<lambda>t. getFileName filename @ le_format env t @
       drop (length (getFileName filename)) filename) filename 0 ts (start_banner # ls)) (start_banner # ls)) \<and>
    bf_written (la_base (sl_appender l)) \<le> rollSize"
proof -
  obtain a t where a: "appender_new env filename d sc = Inr a" "la_inv a" "stored a = d" "bf_path (la_base a) = filename"
    "bf_written (la_base a) = 0" "la_name a = getFileName filename" "bf_type (la_base a) = t" "filename = getFileName filename @ t"
    by (rule appender_new_ok[OF assms])
  have t: "drop (length (getFileName filename)) filename = t" using a(8) by (metis append_eq_conv_conj)
  obtain a' ts where a': "ofold (append_flush env) (start_banner # ls) a = Inr a'" "la_inv a'"
    "\<And>f. stored a' f = stored a f @ lines_of f (roll_spec (\<lambda>t. la_name a @ le_format env t @ bf_type (la_base a)) (bf_path (la_base a))
       (bf_written (la_base a)) ts (start_banner # ls)) (start_banner # ls)"
    using sync_sink.put_lines[OF assms(1) a(2), of "start_banner # ls"] by blast
  have "la_disk a' = stored a'" using append_flush_pending[OF a'(1)] by (simp add: stored_def held_bytes_def fun_eq_iff)
  moreover obtain a1 where a1: "append_flush env start_banner a = Inr a1" "ofold (append_flush env) ls a1 = Inr a'"
    using a'(1) by (auto simp: outcome_iff)
  ultimately show ?thesis using a a' t
    by (intro exI[of _ "\<lparr>sl_appender = a1, sl_filter = set_callback filter_new\<rparr>"]
        exI[of _ "\<lparr>sl_appender = a', sl_filter = set_callback filter_new\<rparr>"] exI[of _ ts])
      (simp add: sync_new_def sync_append_flush sync_appends la_inv_def del: roll_spec.simps ofold.simps)
qed

definition demo_log_env :: log_env where
  "demo_log_env = \<lparr>le_clock = int, le_format = (\<lambda>_. ''T''), le_open = (\<lambda>_. True), le_fileno = (\<lambda>_. 3)\<rparr>"

theorem sync_log_keeps_lines_witness:
  "\<exists>l0 l. sync_new demo_log_env ''a.log'' (\<lambda>_. ''old'') [(5, False)] = Inr l0 \<and>
     ofold (sync_append demo_log_env) [replicate 2000 (CHR ''x''), ''hello''] l0 = Inr l \<and>
     la_disk (sl_appender l) ''a.log'' = ''old'' @ start_banner @ replicate 2000 (CHR ''x'') \<and>
     la_disk (sl_appender l) ''aT.log'' = ''oldhello''"
proof -
  have r: "log_ready demo_log_env" "CHR ''.'' \<in> set ''a.log''" "no_errors [(5, False)]" by (simp_all add: log_ready_def demo_log_env_def no_errors_def)
  have n: "getFileName ''a.log'' = ''a''" by code_simp
  have b: "length start_banner = 88" by (simp add: start_banner_def banner_def)
  from sync_log_keeps_lines[OF r, of "\<lambda>_. ''old''" "[replicate 2000 (CHR ''x''), ''hello'']"] show ?thesis
    by (auto simp: n b lines_of_def rollSize_def demo_log_env_def)
qed

end
