(* ===== verification/Async_Log.thy ===== *)
theory Async_Log
  imports Log_Sink Lock_Free_Queue
begin

text \<open>
  \<open>Common/AsyncLog.cpp\<close>: the threads that log put their messages into the front buffer, a ring; a full ring
  goes to the back, and a thread of the log writes what is at the back. Every access to a pointer the
  threads share, and every call of a ring, is a step; \<open>BackstageLock_\<close> makes the exchange at the back one step.
  The threads that log, the writer and the destructor have a program counter each.
\<close>

subsection \<open>State\<close>

datatype prod_pc = P_idle | P_full string | P_push string | P_spare string | P_take string | P_make string | P_append string

datatype writer_pc = W_start | W_test | W_swap | W_spare | W_recept | W_write | W_second | W_done

datatype destroy_pc = M_alive | M_join | M_gone

type_synonym log_buffer = "string lfq"

record async_log =
  al_size :: "64 word"
  al_recept :: "log_buffer option"
  al_second :: "string list"
  al_spare :: "log_buffer option"
  al_back :: "log_buffer option list"
  al_run :: bool
  al_appender :: log_appender
  al_write :: "log_buffer option list"
  al_prod :: "nat \<Rightarrow> prod_pc"
  al_writer :: writer_pc
  al_main :: destroy_pc

definition make_buffer :: "64 word \<Rightarrow> log_buffer outcome" where "make_buffer n = rb_new [] n"

text \<open>The constructor; its last act starts the thread.\<close>

definition async_new :: "log_env \<Rightarrow> string \<Rightarrow> 64 word \<Rightarrow> disk \<Rightarrow> (nat \<times> bool) list \<Rightarrow> async_log outcome" where
  "async_new env filename n d sc =
     obind (make_buffer n) (\<lambda>r. obind (make_buffer n) (\<lambda>sp.
     obind (appender_new env filename d sc) (\<lambda>a. obind (la_append env start_banner a) (\<lambda>a.
     Inr \<lparr>al_size = n, al_recept = Some r, al_second = [], al_spare = Some sp, al_back = [], al_run = False,
          al_appender = a, al_write = [], al_prod = (\<lambda>_. P_idle), al_writer = W_start, al_main = M_alive\<rparr>))))"

text \<open>\<open>Common/SafeVector.h\<close>, whose operations run under its mutex.\<close>

definition sv_push_back :: "'a \<Rightarrow> 'a list \<Rightarrow> 'a list" where [simp]: "sv_push_back t vec = vec @ [t]"
definition sv_getAndClear :: "'a list \<Rightarrow> 'a list \<times> 'a list" where [simp]: "sv_getAndClear vec = (vec, [])"

subsection \<open>Steps\<close>

definition prod_goto :: "nat \<Rightarrow> prod_pc \<Rightarrow> async_log \<Rightarrow> async_log" where
  "prod_goto t p s = s\<lparr>al_prod := (al_prod s)(t := p)\<rparr>"

text \<open>\<open>append\<close>, one access at a time.\<close>

definition prod_step :: "nat \<Rightarrow> async_log \<Rightarrow> async_log outcome" where
  "prod_step t s = (case al_prod s t of
     P_idle \<Rightarrow> Inr s
   | P_full m \<Rightarrow> (case al_recept s of None \<Rightarrow> Inl Null_pointer
       | Some b \<Rightarrow> Inr (prod_goto t (if rb_full b then P_push m else P_append m) s))
   | P_push m \<Rightarrow> Inr (prod_goto t (P_spare m) (s\<lparr>al_back := al_back s @ [al_recept s], al_recept := None\<rparr>))
   | P_spare m \<Rightarrow> Inr (prod_goto t (if al_spare s \<noteq> None then P_take m else P_make m) s)
   | P_take m \<Rightarrow> Inr (prod_goto t (P_append m) (s\<lparr>al_recept := al_spare s, al_spare := None\<rparr>))
   | P_make m \<Rightarrow> obind (make_buffer (al_size s)) (\<lambda>b. Inr (prod_goto t (P_append m) (s\<lparr>al_recept := Some b\<rparr>)))
   | P_append m \<Rightarrow> (case al_recept s of None \<Rightarrow> Inl Assertion
       | Some b \<Rightarrow> let (ok, b) = rb_append m b; s = s\<lparr>al_recept := Some b\<rparr>
                   in Inr (prod_goto t P_idle (if ok then s else s\<lparr>al_second := sv_push_back m (al_second s)\<rparr>))))"

text \<open>The writer; \<open>al_write\<close> is what is left of the range of its \<open>for\<close> loop.\<close>

definition writer_step :: "log_env \<Rightarrow> async_log \<Rightarrow> async_log outcome" where
  "writer_step env s = (case al_writer s of
     W_start \<Rightarrow> Inr (s\<lparr>al_run := True, al_writer := W_test\<rparr>)
   | W_test \<Rightarrow> Inr (s\<lparr>al_writer := (if al_run s then W_swap else W_done)\<rparr>)
   | W_swap \<Rightarrow> Inr ((if al_back s \<noteq> [] then s\<lparr>al_write := al_back s, al_back := al_write s\<rparr> else s)\<lparr>al_writer := W_spare\<rparr>)
   | W_spare \<Rightarrow> obind (if al_spare s = None then obind (make_buffer (al_size s)) (\<lambda>b. Inr (s\<lparr>al_spare := Some b\<rparr>)) else Inr s)
       (\<lambda>s. Inr (s\<lparr>al_writer := W_recept\<rparr>))
   | W_recept \<Rightarrow> obind (if al_recept s = None then obind (make_buffer (al_size s)) (\<lambda>b. Inr (s\<lparr>al_recept := Some b\<rparr>)) else Inr s)
       (\<lambda>s. Inr (s\<lparr>al_writer := W_write\<rparr>))
   | W_write \<Rightarrow> (case al_write s of
       [] \<Rightarrow> Inr (s\<lparr>al_writer := W_second\<rparr>)
     | None # bs \<Rightarrow> Inr (s\<lparr>al_write := bs\<rparr>)
     | Some b # bs \<Rightarrow> (case rb_retrieve b of
         (None, b) \<Rightarrow> Inr (s\<lparr>al_write := bs\<rparr>)
       | (Some m, b) \<Rightarrow> obind (la_append env m (al_appender s)) (\<lambda>a. Inr (s\<lparr>al_write := Some b # bs, al_appender := a\<rparr>))))
   | W_second \<Rightarrow> (let (temp, rest) = sv_getAndClear (al_second s) in obind (ofold (la_append env) temp (al_appender s)) (\<lambda>a.
       Inr (s\<lparr>al_second := rest, al_appender := a, al_writer := W_test\<rparr>)))
   | W_done \<Rightarrow> Inr s)"

text \<open>The destructor: clear the flag, join the thread, write the last line.\<close>

definition main_destroy :: "log_env \<Rightarrow> async_log \<Rightarrow> async_log outcome" where
  "main_destroy env s = (case al_main s of
     M_alive \<Rightarrow> Inr (s\<lparr>al_run := False, al_main := M_join\<rparr>)
   | M_join \<Rightarrow> if al_writer s = W_done
       then obind (la_append env end_banner (al_appender s)) (\<lambda>a. Inr (s\<lparr>al_appender := la_flush a, al_main := M_gone\<rparr>))
       else Inr s
   | M_gone \<Rightarrow> Inr s)"

text \<open>An event is a call of \<open>append\<close> by a thread that is in no other, or a step of a thread. A thread
  that goes on after the destructor has ended works on an object that is gone.\<close>

datatype async_event = E_log nat string | E_prod nat | E_writer | E_destroy

fun async_do :: "log_env \<Rightarrow> async_event \<Rightarrow> async_log \<Rightarrow> async_log outcome" where
  "async_do env (E_log t m) s =
     (if al_main s = M_gone then Inl Dangling
      else if al_prod s t = P_idle then assertC (m \<noteq> []) (Inr (prod_goto t (P_full m) s)) else Inr s)"
| "async_do env (E_prod t) s = (if al_prod s t \<noteq> P_idle \<and> al_main s = M_gone then Inl Dangling else prod_step t s)"
| "async_do env E_writer s = writer_step env s"
| "async_do env E_destroy s = main_destroy env s"

abbreviation async_run :: "log_env \<Rightarrow> async_event list \<Rightarrow> async_log \<Rightarrow> async_log outcome" where
  "async_run env \<equiv> ofold (async_do env)"

subsection \<open>A log that is destroyed early\<close>

definition stuck_join :: "async_log \<Rightarrow> bool" where
  "stuck_join s \<longleftrightarrow> al_main s = M_join \<and> al_writer s \<noteq> W_done \<and> (al_writer s = W_start \<or> al_run s)"

lemma stuck_join_step: "stuck_join s \<Longrightarrow> async_do env e s = Inr s' \<Longrightarrow> stuck_join s'"
  by (cases e)
    (auto simp: stuck_join_def prod_step_def writer_step_def main_destroy_def prod_goto_def outcome_iff Let_def
      split: prod_pc.splits writer_pc.splits option.splits list.splits prod.splits if_splits)

subsection \<open>One thread that logs\<close>

text \<open>The messages of a run, and those the log has taken but not written.\<close>

definition log_call :: "async_event \<Rightarrow> async_log \<Rightarrow> string list" where
  "log_call e s = (case e of E_log t m \<Rightarrow> if al_prod s t = P_idle then [m] else [] | _ \<Rightarrow> [])"

fun logged :: "log_env \<Rightarrow> async_event list \<Rightarrow> async_log \<Rightarrow> string list" where
  "logged env [] s = []"
| "logged env (e # es) s = log_call e s @ (case async_do env e s of Inl _ \<Rightarrow> [] | Inr s' \<Rightarrow> logged env es s')"

definition one_producer :: "async_event \<Rightarrow> bool" where
  "one_producer e \<longleftrightarrow> (case e of E_log t m \<Rightarrow> t = 0 \<and> m \<noteq> [] | E_prod t \<Rightarrow> t = 0 | _ \<Rightarrow> True)"

definition buf_items :: "log_buffer option \<Rightarrow> string list" where
  "buf_items b = (case b of None \<Rightarrow> [] | Some b \<Rightarrow> lf_items b)"

definition pc_items :: "prod_pc \<Rightarrow> string list" where
  "pc_items p = (case p of P_idle \<Rightarrow> [] | P_full m \<Rightarrow> [m] | P_push m \<Rightarrow> [m] | P_spare m \<Rightarrow> [m] | P_take m \<Rightarrow> [m] | P_make m \<Rightarrow> [m] | P_append m \<Rightarrow> [m])"

definition behind :: "async_log \<Rightarrow> string list" where
  "behind s = concat (map buf_items (al_write s)) @ concat (map buf_items (al_back s))"

definition in_flight :: "async_log \<Rightarrow> string list" where
  "in_flight s = behind s @ buf_items (al_recept s) @ pc_items (al_prod s 0)"

text \<open>A good buffer of capacity \<open>c\<close>.\<close>

definition buf_ok :: "nat \<Rightarrow> log_buffer \<Rightarrow> bool" where "buf_ok c b \<longleftrightarrow> lf_inv b \<and> length (lf_slots b) = c \<and> length (lf_items b) \<le> c"

definition buf_full :: "nat \<Rightarrow> log_buffer option \<Rightarrow> bool" where
  "buf_full c b \<longleftrightarrow> (\<exists>x. b = Some x \<and> buf_ok c x \<and> length (lf_items x) = c)"

lemma rb_full_items:
  assumes "buf_ok c b"
  shows "rb_full b \<longleftrightarrow> length (lf_items b) = c"
proof -
  obtain k where k: "quiet k b (lf_items b)" using assms by (auto simp: buf_ok_def lf_inv_def)
  show ?thesis using ring_sizes_at_rest[OF k] quiet_cap[OF k] assms by (simp add: buf_ok_def)
qed

lemma rb_append_ok:
  assumes "buf_ok c b" "length (lf_items b) < c"
  shows "\<exists>b'. rb_append m b = (True, b') \<and> buf_ok c b' \<and> lf_items b' = lf_items b @ [m]"
  using rb.enq_room[of b m] assms by (auto simp: buf_ok_def)

lemma rb_retrieve_ok:
  assumes "buf_ok c b"
  shows "case lf_items b of [] \<Rightarrow> rb_retrieve b = (None, b)
    | m # ms \<Rightarrow> \<exists>b'. rb_retrieve b = (Some m, b') \<and> buf_ok c b' \<and> lf_items b' = ms"
  using rb.deq_none[of b] rb.deq_some[of b] assms by (auto simp: buf_ok_def split: list.splits)

lemma make_buffer_ok:
  assumes "1 < n" "unat n \<le> 2 ^ 62"
  obtains b c where "make_buffer n = Inr b" "buf_ok c b" "lf_items b = []" "unat n \<le> c" "0 < c"
proof -
  obtain k q where q: "lfq_new ([] :: string) n = Inr q" "0 < k" "quiet k q []" "length (lf_slots q) = 2 ^ k" "unat n \<le> 2 ^ k"
    by (rule lfq_new_quiet[OF assms])
  then show ?thesis using quiet_inv[OF q(3,2)] that[of q "2 ^ k"] by (simp add: make_buffer_def rb_new_def buf_ok_def)
qed

subsection \<open>The invariant\<close>

fun front_ok :: "nat \<Rightarrow> prod_pc \<Rightarrow> log_buffer option \<Rightarrow> log_buffer option \<Rightarrow> bool" where
  "front_ok c P_idle r sp \<longleftrightarrow> r \<noteq> None"
| "front_ok c (P_full m) r sp \<longleftrightarrow> r \<noteq> None"
| "front_ok c (P_push m) r sp \<longleftrightarrow> buf_full c r"
| "front_ok c (P_spare m) r sp \<longleftrightarrow> buf_items r = []"
| "front_ok c (P_take m) r sp \<longleftrightarrow> buf_items r = [] \<and> sp \<noteq> None"
| "front_ok c (P_make m) r sp \<longleftrightarrow> buf_items r = []"
| "front_ok c (P_append m) r sp \<longleftrightarrow> r \<noteq> None \<and> length (buf_items r) < c"

definition bufs_ok :: "nat \<Rightarrow> async_log \<Rightarrow> bool" where
  "bufs_ok c s \<longleftrightarrow> (\<exists>b. make_buffer (al_size s) = Inr b \<and> buf_ok c b \<and> lf_items b = []) \<and> 0 < c \<and>
     (\<forall>b. al_recept s = Some b \<longrightarrow> buf_ok c b) \<and> (\<forall>b. al_spare s = Some b \<longrightarrow> buf_ok c b \<and> lf_items b = []) \<and>
     list_all (buf_full c) (al_back s) \<and> list_all (\<lambda>x. \<exists>b. x = Some b \<and> buf_ok c b) (al_write s) \<and>
     front_ok c (al_prod s 0) (al_recept s) (al_spare s) \<and> al_second s = [] \<and>
     (al_writer s \<notin> {W_spare, W_recept, W_write} \<longrightarrow> al_write s = [])"

text \<open>The appender has got the messages \<open>out\<close>, and the last line when the log is gone.\<close>

definition appended :: "log_env \<Rightarrow> log_appender \<Rightarrow> string list \<Rightarrow> destroy_pc \<Rightarrow> writer_pc \<Rightarrow> log_appender \<Rightarrow> bool" where
  "appended env a0 out mn w ap \<longleftrightarrow> (\<exists>a. ofold (la_append env) out a0 = Inr a \<and> la_inv a \<and>
     (if mn = M_gone then w = W_done \<and> (\<exists>a'. la_append env end_banner a = Inr a' \<and> ap = la_flush a') else ap = a))"

lemma appended_alive:
  "w \<noteq> W_done \<Longrightarrow> appended env a0 out mn w ap \<longleftrightarrow> mn \<noteq> M_gone \<and> ofold (la_append env) out a0 = Inr ap \<and> la_inv ap"
  "mn \<noteq> M_gone \<Longrightarrow> appended env a0 out mn w ap \<longleftrightarrow> ofold (la_append env) out a0 = Inr ap \<and> la_inv ap"
  by (auto simp: appended_def)

definition async_inv :: "log_env \<Rightarrow> nat \<Rightarrow> log_appender \<Rightarrow> string list \<Rightarrow> string list \<Rightarrow> async_log \<Rightarrow> bool" where
  "async_inv env c a0 msgs out s \<longleftrightarrow> bufs_ok c s \<and> appended env a0 out (al_main s) (al_writer s) (al_appender s) \<and> msgs = out @ in_flight s \<and>
     (length out + length (behind s)) mod c = 0"

lemmas async_defs = async_inv_def bufs_ok_def in_flight_def behind_def prod_goto_def

lemma prod_inv:
  assumes "async_inv env c a0 msgs out s"
  shows "\<exists>s'. prod_step 0 s = Inr s' \<and> async_inv env c a0 msgs out s'"
proof (cases "al_prod s 0")
  case P_idle
  then show ?thesis using assms by (simp add: prod_step_def)
next
  case (P_full m)
  then obtain b where b: "al_recept s = Some b" "buf_ok c b" using assms by (auto simp: async_defs)
  have "length (lf_items b) \<le> c" using b(2) by (simp add: buf_ok_def)
  then have "front_ok c (if rb_full b then P_push m else P_append m) (al_recept s) (al_spare s)"
    using b rb_full_items[OF b(2)] by (auto simp: buf_full_def buf_items_def)
  then show ?thesis using assms P_full b
    by (auto simp: prod_step_def async_defs pc_items_def)
next
  case (P_push m)
  then have "length (buf_items (al_recept s)) = c" "buf_full c (al_recept s)" using assms by (auto simp: async_defs buf_full_def buf_items_def)
  moreover have "buf_items None = []" by (simp add: buf_items_def)
  moreover have "(a + (b + (d + c))) mod c = (a + (b + d)) mod c" for a b d by (metis add.assoc mod_add_self2)
  ultimately show ?thesis using assms P_push by (simp add: prod_step_def async_defs pc_items_def)
next
  case (P_spare m)
  then show ?thesis using assms by (auto simp: prod_step_def async_defs pc_items_def)
next
  case (P_take m)
  then obtain b where b: "al_spare s = Some b" "buf_ok c b" "lf_items b = []" "buf_items (al_recept s) = []" using assms by (auto simp: async_defs)
  then show ?thesis using assms P_take by (simp add: prod_step_def async_defs pc_items_def buf_items_def)
next
  case (P_make m)
  then obtain b where b: "make_buffer (al_size s) = Inr b" "buf_ok c b" "lf_items b = []" "buf_items (al_recept s) = []" using assms by (auto simp: async_defs)
  then show ?thesis using assms P_make by (simp add: prod_step_def async_defs pc_items_def buf_items_def)
next
  case (P_append m)
  then obtain b where b: "al_recept s = Some b" "buf_ok c b" "length (lf_items b) < c" using assms by (auto simp: async_defs buf_items_def)
  from rb_append_ok[OF b(2,3), of m] obtain b' where "rb_append m b = (True, b')" "buf_ok c b'" "lf_items b' = lf_items b @ [m]" by blast
  then show ?thesis using assms P_append b by (simp add: prod_step_def async_defs pc_items_def buf_items_def)
qed

lemma make_keeps:
  assumes "bufs_ok c s"
  obtains b where "make_buffer (al_size s) = Inr b" "buf_ok c b" "lf_items b = []"
  using assms by (auto simp: bufs_ok_def)

text \<open>An empty buffer in place of a null pointer changes nothing the other thread relies on.\<close>

lemma front_ok_make:
  "front_ok c p None sp \<Longrightarrow> lf_items b = [] \<Longrightarrow> 0 < c \<Longrightarrow> front_ok c p (Some b) sp"
  "front_ok c p r None \<Longrightarrow> front_ok c p r (Some b)"
  by (cases p; auto simp: buf_items_def buf_full_def)+

lemma writer_inv:
  assumes inv: "async_inv env c a0 msgs out s" and log_ready: "log_ready env"
  shows "\<exists>s' out'. writer_step env s = Inr s' \<and> async_inv env c a0 msgs out' s'"
proof (cases "al_writer s")
  case W_swap
  then show ?thesis using inv by (auto simp: writer_step_def async_defs appended_alive buf_full_def list_all_iff split: if_splits)
next
  case W_spare
  obtain b where b: "make_buffer (al_size s) = Inr b" "buf_ok c b" "lf_items b = []" using inv make_keeps by (auto simp: async_inv_def)
  then show ?thesis using inv W_spare front_ok_make(2)[of c "al_prod s 0" "al_recept s" b]
    by (cases "al_spare s") (auto simp: writer_step_def async_defs appended_alive split: if_splits)
next
  case W_recept
  obtain b where b: "make_buffer (al_size s) = Inr b" "buf_ok c b" "lf_items b = []" using inv make_keeps by (auto simp: async_inv_def)
  then show ?thesis using inv W_recept front_ok_make(1)[of c "al_prod s 0" "al_spare s" b]
    by (cases "al_recept s") (auto simp: writer_step_def async_defs appended_alive buf_items_def split: if_splits)
next
  case W_write
  show ?thesis
  proof (cases "al_write s")
    case Nil
    then show ?thesis using inv W_write by (simp add: writer_step_def async_defs appended_alive)
  next
    case (Cons x bs)
    then obtain b where b: "x = Some b" "buf_ok c b" using inv by (auto simp: async_defs appended_alive)
    show ?thesis
    proof (cases "lf_items b")
      case Nil
      then show ?thesis using inv W_write Cons b rb_retrieve_ok[OF b(2)] by (simp add: writer_step_def async_defs appended_alive buf_items_def)
    next
      case items: (Cons m ms)
      then obtain b' where b': "rb_retrieve b = (Some m, b')" "buf_ok c b'" "lf_items b' = ms" using rb_retrieve_ok[OF b(2)] by auto
      have a: "ofold (la_append env) out a0 = Inr (al_appender s)" "la_inv (al_appender s)" "al_main s \<noteq> M_gone"
        using inv W_write by (auto simp: async_defs appended_alive split: if_splits)
      obtain a' where a': "la_append env m (al_appender s) = Inr a'" "la_inv a'" using async_sink.put_line[OF log_ready a(2)] by blast
      have "async_inv env c a0 msgs (out @ [m]) (s\<lparr>al_write := Some b' # bs, al_appender := a'\<rparr>)"
        using inv W_write Cons b b' items a a' by (simp add: async_defs appended_alive buf_items_def ofold_append)
      then show ?thesis using W_write Cons b b' a' by (simp add: writer_step_def) blast
    qed
  qed
qed (use inv in \<open>auto simp: writer_step_def async_defs appended_alive split: if_splits\<close>)

lemma destroy_inv:
  assumes inv: "async_inv env c a0 msgs out s" and log_ready: "log_ready env"
  shows "\<exists>s'. main_destroy env s = Inr s' \<and> async_inv env c a0 msgs out s'"
proof (cases "al_main s = M_join \<and> al_writer s = W_done")
  case True
  then have a: "ofold (la_append env) out a0 = Inr (al_appender s)" "la_inv (al_appender s)" using inv by (auto simp: async_defs appended_alive)
  obtain a' where "la_append env end_banner (al_appender s) = Inr a'" using async_sink.put_line[OF log_ready a(2)] by blast
  then show ?thesis using inv True a by (auto simp: main_destroy_def async_defs appended_def)
next
  case False
  then show ?thesis using inv by (cases "al_main s") (auto simp: main_destroy_def async_defs appended_alive appended_def)
qed

lemma async_inv_step:
  assumes inv: "async_inv env c a0 msgs out s" and log_ready: "log_ready env" and e: "one_producer e" and ok: "async_do env e s \<noteq> Inl Dangling"
  shows "\<exists>s' out'. async_do env e s = Inr s' \<and> async_inv env c a0 (msgs @ log_call e s) out' s'"
proof (cases e)
  case (E_log t m)
  have "front_ok c P_idle (al_recept s) (al_spare s) \<Longrightarrow> front_ok c (P_full m) (al_recept s) (al_spare s)" by simp
  then show ?thesis using inv e ok E_log
    by (auto simp: log_call_def one_producer_def async_defs pc_items_def split: if_splits)
next
  case (E_prod t)
  then show ?thesis using prod_inv[OF inv] ok e by (auto simp: log_call_def one_producer_def split: if_splits)
next
  case E_writer
  then show ?thesis using writer_inv[OF inv log_ready] by (simp add: log_call_def)
next
  case E_destroy
  then show ?thesis using destroy_inv[OF inv log_ready] by (auto simp: log_call_def)
qed

lemma async_inv_run:
  assumes "async_inv env c a0 msgs out s" "log_ready env" "list_all one_producer es"
  shows "async_run env es s = Inl Dangling \<or>
    (\<exists>s' out'. async_run env es s = Inr s' \<and> async_inv env c a0 (msgs @ logged env es s) out' s')"
  using assms
proof (induction es arbitrary: s msgs out)
  case Nil
  then show ?case by auto
next
  case (Cons e es)
  show ?case
  proof (cases "async_do env e s = Inl Dangling")
    case False
    from async_inv_step[OF Cons.prems(1,2) _ False] Cons.prems(3) obtain s1 out1 where
      s1: "async_do env e s = Inr s1" "async_inv env c a0 (msgs @ log_call e s) out1 s1" by auto
    from Cons.IH[OF s1(2) Cons.prems(2)] Cons.prems(3) s1(1) show ?thesis by simp
  qed simp
qed

lemma async_new_inv:
  assumes "log_ready env" "CHR ''.'' \<in> set filename" "no_errors sc" "1 < n" "unat n \<le> 2 ^ 62"
  obtains s0 c where "async_new env filename n d sc = Inr s0" "async_inv env c (al_appender s0) [] [] s0" "unat n \<le> c" "0 < c"
proof -
  obtain b c where b: "make_buffer n = Inr b" "buf_ok c b" "lf_items b = []" "unat n \<le> c" "0 < c" by (rule make_buffer_ok[OF assms(4,5)])
  obtain a where a: "appender_new env filename d sc = Inr a" "la_inv a" by (rule appender_new_ok[OF assms(1-3)])
  obtain a' where "la_append env start_banner a = Inr a'" "la_inv a'" using async_sink.put_line[OF assms(1) a(2)] by blast
  then show ?thesis using that[of _ c] a b
    by (simp add: async_new_def async_defs appended_alive buf_items_def pc_items_def)
qed

subsection \<open>A concrete life\<close>

definition short_life :: "async_event list" where
  "short_life = [E_writer, E_log 0 ''a'', E_prod 0, E_writer, E_prod 0, E_destroy, E_writer, E_writer, E_writer, E_writer, E_writer, E_writer, E_destroy]"

lemma ready_demo: "log_ready demo_log_env" "CHR ''.'' \<in> set ''a.log''" "no_errors []" "(1 :: 64 word) < 2" "unat (2 :: 64 word) \<le> 2 ^ 62"
  by (simp_all add: log_ready_def demo_log_env_def no_errors_def)

lemma short_life_gone:
  assumes "async_new demo_log_env ''a.log'' 2 (\<lambda>_. []) [] = Inr s0"
  shows "\<exists>s. async_run demo_log_env short_life s0 = Inr s \<and> al_main s = M_gone \<and> logged demo_log_env short_life s0 = [''a'']"
proof -
  obtain b c where b: "make_buffer 2 = Inr b" "buf_ok c b" "lf_items b = []" "0 < c" by (rule make_buffer_ok[OF ready_demo(4,5)])
  obtain b' where b': "rb_append ''a'' b = (True, b')" using rb_append_ok[OF b(2)] b(3,4) by fastforce
  have nf: "\<not> rb_full b" using rb_full_items[OF b(2)] b(3,4) by simp
  obtain c' where "async_inv demo_log_env c' (al_appender s0) [] [] s0" using async_new_inv[OF ready_demo, of "\<lambda>_. []"] assms by (metis sum.inject(2))
  then have "la_inv (al_appender s0)" by (auto simp: async_inv_def appended_def)
  then obtain a where a: "la_append demo_log_env end_banner (al_appender s0) = Inr a" using async_sink.put_line[OF ready_demo(1)] by blast
  have s0: "al_recept s0 = Some b" "al_spare s0 = Some b" "al_second s0 = []" "al_back s0 = []" "al_write s0 = []" "al_run s0 = False"
    "al_prod s0 = (\<lambda>_. P_idle)" "al_writer s0 = W_start" "al_main s0 = M_alive" using assms b(1) by (auto simp: async_new_def outcome_iff)
  show ?thesis using a b' nf s0
    by (simp add: short_life_def prod_step_def writer_step_def main_destroy_def prod_goto_def log_call_def)
qed

subsection \<open>Properties\<close>



text \<open>C38. As long as fewer messages were logged than the log's capacity, none of them is in the file: the
  writer takes full buffers only, and the destructor throws away what is in the others, so that a log
  that is destroyed leaves its first and its last line and nothing between them.\<close>

theorem short_log_never_written:
  assumes "log_ready env" "CHR ''.'' \<in> set filename" "no_errors sc" "1 < n" "unat n \<le> 2 ^ 62" "list_all one_producer es"
    and "async_new env filename n d sc = Inr s0" "async_run env es s0 = Inr s" "length (logged env es s0) < unat n"
  shows "if al_main s = M_gone then \<exists>a. la_append env end_banner (al_appender s0) = Inr a \<and> al_appender s = la_flush a
    else al_appender s = al_appender s0"
proof -
  obtain c where c: "async_inv env c (al_appender s0) [] [] s0" "unat n \<le> c" using async_new_inv[OF assms(1-5), of d] assms(7) by (metis sum.inject(2))
  obtain out where out: "async_inv env c (al_appender s0) (logged env es s0) out s"
    using async_inv_run[OF c(1) assms(1,6)] assms(8) by auto
  then have "(length out + length (behind s)) mod c = 0" "length out + length (behind s) < c"
    using assms(9) c(2) by (simp_all add: async_inv_def in_flight_def)
  then have "out = []" by simp
  then show ?thesis using out by (auto simp: async_inv_def appended_def)
qed

theorem short_log_never_written_witness:
  "\<exists>s0 s a. async_new demo_log_env ''a.log'' 2 (\<lambda>_. []) [] = Inr s0 \<and> async_run demo_log_env short_life s0 = Inr s \<and>
     logged demo_log_env short_life s0 = [''a''] \<and> la_append demo_log_env end_banner (al_appender s0) = Inr a \<and> al_appender s = la_flush a"
proof -
  have es: "list_all one_producer short_life" by (simp add: short_life_def one_producer_def)
  obtain s0 where s0: "async_new demo_log_env ''a.log'' 2 (\<lambda>_. []) [] = Inr s0" using async_new_inv[OF ready_demo, of "\<lambda>_. []"] by metis
  obtain s where s: "async_run demo_log_env short_life s0 = Inr s" "al_main s = M_gone" "logged demo_log_env short_life s0 = [''a'']"
    using short_life_gone[OF s0] by blast
  from short_log_never_written[OF ready_demo es s0 s(1)] s(2,3) obtain a where
    "la_append demo_log_env end_banner (al_appender s0) = Inr a" "al_appender s = la_flush a" by auto
  with s0 s show ?thesis by blast
qed

text \<open>Two threads that log: one takes the full buffer away, and the other looks into the null pointer it
  left.\<close>

definition race :: "async_event list" where
  "race = [E_log 0 ''a'', E_prod 0, E_prod 0, E_log 0 ''b'', E_prod 0, E_prod 0, E_log 0 ''c'', E_prod 0, E_prod 0, E_log 1 ''d'', E_prod 1]"

theorem two_producers_crash:
  "\<exists>s0. async_new demo_log_env ''a.log'' 2 (\<lambda>_. []) [] = Inr s0 \<and> async_run demo_log_env race s0 = Inl Null_pointer"
proof -
  obtain s0 where s0: "async_new demo_log_env ''a.log'' 2 (\<lambda>_. []) [] = Inr s0" using async_new_inv[OF ready_demo, of "\<lambda>_. []"] by metis
  obtain k b where q: "lfq_new ([] :: string) 2 = Inr b" "0 < k" "quiet k b []" "length (lf_slots b) = 2 ^ k" "\<forall>j. unat (2 :: 64 word) \<le> 2 ^ j \<longrightarrow> k \<le> j"
    by (rule lfq_new_quiet[OF ready_demo(4,5)])
  have "k = 1" using q(2) q(5)[rule_format, of 1] by simp
  then have b: "buf_ok 2 b" "lf_items b = []" "make_buffer 2 = Inr b" using q quiet_inv[OF q(3,2)] by (simp_all add: buf_ok_def make_buffer_def rb_new_def)
  obtain b1 where b1: "rb_append ''a'' b = (True, b1)" "buf_ok 2 b1" "lf_items b1 = [''a'']" using rb_append_ok[OF b(1)] b(2) by fastforce
  obtain b2 where b2: "rb_append ''b'' b1 = (True, b2)" "buf_ok 2 b2" "lf_items b2 = [''a'', ''b'']" using rb_append_ok[OF b1(2)] b1(3) by fastforce
  have f: "\<not> rb_full b" "\<not> rb_full b1" "rb_full b2" using rb_full_items[OF b(1)] rb_full_items[OF b1(2)] rb_full_items[OF b2(2)] b(2) b1(3) b2(3) by simp_all
  have s: "al_recept s0 = Some b" "al_prod s0 = (\<lambda>_. P_idle)" "al_main s0 = M_alive" using s0 b(3) by (auto simp: async_new_def outcome_iff)
  show ?thesis using s0 s f b1(1) b2(1) by (simp add: race_def prod_step_def prod_goto_def)
qed

text \<open>C37. A log whose destructor clears the flag before its thread has set it is never destroyed: whatever
  the threads do from there, the join does not return.\<close>

theorem early_destruction_hangs:
  assumes "async_new env filename n d sc = Inr s0" "async_run env (E_destroy # es) s0 = Inr s"
  shows "al_main s = M_join \<and> al_writer s \<noteq> W_done"
proof -
  have "al_main s0 = M_alive" "al_writer s0 = W_start" using assms(1) by (auto simp: async_new_def outcome_iff)
  then have s1: "stuck_join (s0\<lparr>al_run := False, al_main := M_join\<rparr>)" "async_run env es (s0\<lparr>al_run := False, al_main := M_join\<rparr>) = Inr s"
    using assms(2) by (auto simp: main_destroy_def stuck_join_def)
  have "stuck_join s" by (rule ofold_invariant[where I = stuck_join, OF _ s1]) (rule stuck_join_step)
  then show ?thesis by (simp add: stuck_join_def)
qed

theorem early_destruction_hangs_witness:
  "\<exists>s0 s. async_new demo_log_env ''a.log'' 2 (\<lambda>_. []) [] = Inr s0 \<and>
     async_run demo_log_env [E_destroy, E_writer, E_writer, E_destroy] s0 = Inr s \<and> al_run s \<and> al_main s = M_join \<and> al_writer s \<noteq> W_done"
proof -
  obtain s0 where s0: "async_new demo_log_env ''a.log'' 2 (\<lambda>_. []) [] = Inr s0" using async_new_inv[OF ready_demo, of "\<lambda>_. []"] by metis
  have "al_main s0 = M_alive" "al_writer s0 = W_start" using s0 by (auto simp: async_new_def outcome_iff)
  then obtain s where s: "async_run demo_log_env [E_destroy, E_writer, E_writer, E_destroy] s0 = Inr s" "al_run s"
    by (simp add: main_destroy_def writer_step_def)
  from early_destruction_hangs[OF s0 s(1)] s0 s show ?thesis by blast
qed

end
