(* ===== verification/Udp.thy ===== *)
theory Udp
  imports Event_Loop Inet_Address Timer_Queue
begin

text \<open>
  \<open>Net/UDP/UdpConnection.cpp\<close>: a UDP socket on its event loop, with its heartbeat. The object is part of the
  world of the loop; the closures it hands out are the values of \<open>udp_task\<close> and \<open>udp_cb\<close>. The socket calls,
  the clock and the callbacks of the application are parameters.
\<close>

unbundle bit_operations_syntax

datatype udp_task = UT_send string "address option"
datatype udp_cb = UC_read | UC_error | UC_tick

record 'm udp_con =
  u_handler :: hid
  u_local :: address
  u_peer :: address
  u_closed :: bool
  u_server :: bool
  u_message :: "'m option"
  u_error :: "'m option"
  u_check :: bool
  u_timer :: hid
  u_lastSend :: time_stamp
  u_lastRecv :: time_stamp
  u_maxIdle :: time_interval
  u_alive :: bool

record ('m, 'k, 's) udp_world =
  uw_kernel :: 'k
  uw_con :: "'m udp_con"
  uw_app :: 's

type_synonym ('m, 'k, 's) udp_loop = "(udp_task, udp_cb, ('m, 'k, 's) udp_world) event_loop"

record ('m, 'k, 's) udp_env =
  ue_os :: "'k os"
  ue_text :: inet_text
  ue_socket :: "sa_family \<Rightarrow> 'k \<Rightarrow> int option \<times> 'k"
  ue_bind :: "int \<Rightarrow> address \<Rightarrow> 'k \<Rightarrow> bool \<times> 'k"
  ue_sendto :: "int \<Rightarrow> string \<Rightarrow> address \<Rightarrow> 'k \<Rightarrow> (errno + nat) \<times> 'k"
  ue_recvfrom :: "int \<Rightarrow> nat \<Rightarrow> 'k \<Rightarrow> (errno + string \<times> sockaddr) \<times> 'k"
  ue_timerfd :: "'k \<Rightarrow> int option \<times> 'k"
  ue_settime :: "int \<Rightarrow> int \<times> int \<Rightarrow> 'k \<Rightarrow> 'k"
  ue_now :: "'k \<Rightarrow> time_stamp \<times> 'k"
  ue_dequeue :: "udp_task task list \<Rightarrow> (udp_task task \<times> udp_task task list) option"
  ue_onMessage :: "'m \<Rightarrow> nat \<Rightarrow> string \<Rightarrow> address \<Rightarrow> ('m, 'k, 's) udp_loop \<Rightarrow> ('m, 'k, 's) udp_loop outcome"
  ue_onError :: "'m \<Rightarrow> ('m, 'k, 's) udp_loop \<Rightarrow> ('m, 'k, 's) udp_loop outcome"

definition udp_world :: "('m, 'k, 's) udp_loop \<Rightarrow> ('m, 'k, 's) udp_world" where "udp_world l = ep_kernel (el_poller l)"

definition on_udp_world :: "(('m, 'k, 's) udp_world \<Rightarrow> ('m, 'k, 's) udp_world) \<Rightarrow> ('m, 'k, 's) udp_loop \<Rightarrow> ('m, 'k, 's) udp_loop" where
  "on_udp_world f l = l\<lparr>el_poller := (el_poller l)\<lparr>ep_kernel := f (ep_kernel (el_poller l))\<rparr>\<rparr>"

definition udp :: "('m, 'k, 's) udp_loop \<Rightarrow> 'm udp_con" where "udp l = uw_con (udp_world l)"

definition on_udp :: "('m udp_con \<Rightarrow> 'm udp_con) \<Rightarrow> ('m, 'k, 's) udp_loop \<Rightarrow> ('m, 'k, 's) udp_loop" where
  "on_udp f = on_udp_world (\<lambda>w. w\<lparr>uw_con := f (uw_con w)\<rparr>)"

text \<open>A system call: its result and the loop with the new kernel state.\<close>

definition udp_call :: "('k \<Rightarrow> 'r \<times> 'k) \<Rightarrow> ('m, 'k, 's) udp_loop \<Rightarrow> 'r \<times> ('m, 'k, 's) udp_loop" where
  "udp_call f l = (let (r, k) = f (uw_kernel (udp_world l)) in (r, on_udp_world (\<lambda>w. w\<lparr>uw_kernel := k\<rparr>) l))"

definition udp_fd :: "('m, 'k, 's) udp_loop \<Rightarrow> int" where "udp_fd l = h_fd (el_handler (u_handler (udp l)) l)"

definition kUdpPacketSize :: nat where "kUdpPacketSize = 65536"

subsection \<open>Handlers\<close>

definition udp_error :: "('m, 'k, 's) udp_env \<Rightarrow> ('m, 'k, 's) udp_loop \<Rightarrow> ('m, 'k, 's) udp_loop outcome" where
  "udp_error env l = (case u_error (udp l) of None \<Rightarrow> Inr l | Some m \<Rightarrow> ue_onError env m l)"

definition udp_handleError :: "('m, 'k, 's) udp_env \<Rightarrow> ('m, 'k, 's) udp_loop \<Rightarrow> ('m, 'k, 's) udp_loop outcome" where
  "udp_handleError env l = udp_error env l"

text \<open>\<open>sendto\<close> asserts that there is something to send.\<close>

definition udp_sendInLoop ::
  "('m, 'k, 's) udp_env \<Rightarrow> string \<Rightarrow> address option \<Rightarrow> ('m, 'k, 's) udp_loop \<Rightarrow> ('m, 'k, 's) udp_loop outcome" where
  "udp_sendInLoop env buf dest l =
     (if u_closed (udp l) then Inr l
      else assertC (length buf \<noteq> 0)
        (let (r, l) = udp_call (ue_sendto env (udp_fd l) buf (case dest of Some a \<Rightarrow> a | None \<Rightarrow> u_peer (udp l))) l
         in case r of Inl e \<Rightarrow> udp_error env l | Inr n \<Rightarrow> Inr l))"

text \<open>\<open>handleRead\<close> does not look at the result: after an error the callback would get a view of \<open>size_t(-1)\<close>
  bytes, and the address is made from a structure nobody has written.\<close>

definition udp_handleRead :: "('m, 'k, 's) udp_env \<Rightarrow> ('m, 'k, 's) udp_loop \<Rightarrow> ('m, 'k, 's) udp_loop outcome" where
  "udp_handleRead env l =
     (let (r, l) = udp_call (ue_recvfrom env (udp_fd l) kUdpPacketSize) l in
      case r of Inl e \<Rightarrow> Inl Uninitialised
      | Inr (data, peer) \<Rightarrow> (case u_message (udp l) of None \<Rightarrow> Inl Empty_function
          | Some m \<Rightarrow> ue_onMessage env m (length data) data (address_storage peer) l))"

text \<open>The read callback of the heartbeat's timer.\<close>

definition udp_tick :: "('m, 'k, 's) udp_env \<Rightarrow> ('m, 'k, 's) udp_loop \<Rightarrow> ('m, 'k, 's) udp_loop outcome" where
  "udp_tick env l =
     (let (t, l) = udp_call (ue_now env) l; l = on_udp (\<lambda>u. u\<lparr>u_lastRecv := t\<rparr>) l
      in Inr (if ti_greater (ts_minus (u_lastRecv (udp l)) (u_lastSend (udp l))) (u_maxIdle (udp l))
              then on_udp (\<lambda>u. u\<lparr>u_alive := False\<rparr>) l else l))"

text \<open>The loop's system calls work on the kernel part of the world.\<close>

definition udp_os :: "'k os \<Rightarrow> ('m, 'k, 's) udp_world os" where
  "udp_os os = \<lparr>
     os_epoll_ctl = (\<lambda>oper fd m h w. let (r, k) = os_epoll_ctl os oper fd m h (uw_kernel w) in (r, w\<lparr>uw_kernel := k\<rparr>)),
     os_epoll_wait = (\<lambda>n t w. let (r, k) = os_epoll_wait os n t (uw_kernel w) in (r, w\<lparr>uw_kernel := k\<rparr>)),
     os_eventfd_write = (\<lambda>fd v w. let (r, k) = os_eventfd_write os fd v (uw_kernel w) in (r, w\<lparr>uw_kernel := k\<rparr>)),
     os_eventfd_read = (\<lambda>fd w. let (r, k) = os_eventfd_read os fd (uw_kernel w) in (r, w\<lparr>uw_kernel := k\<rparr>))\<rparr>"

definition udp_base :: "('m, 'k, 's) udp_env \<Rightarrow> (udp_task, udp_cb, ('m, 'k, 's) udp_world) env" where
  "udp_base env = \<lparr>env_os = udp_os (ue_os env),
     env_callback = (\<lambda>cb. case cb of UC_read \<Rightarrow> udp_handleRead env | UC_error \<Rightarrow> udp_handleError env | UC_tick \<Rightarrow> udp_tick env),
     env_user = (\<lambda>t. case t of UT_send s dest \<Rightarrow> udp_sendInLoop env s dest), env_dequeue = ue_dequeue env\<rparr>"

subsection \<open>Operations\<close>

definition udp_new :: "hid \<Rightarrow> hid \<Rightarrow> address \<Rightarrow> 'm udp_con" where
  "udp_new h ht local = \<lparr>u_handler = h, u_local = local, u_peer = address_default, u_closed = False, u_server = False,
     u_message = None, u_error = None, u_check = False, u_timer = ht, u_lastSend = 0, u_lastRecv = 0, u_maxIdle = 0, u_alive = True\<rparr>"

definition udp_construct ::
  "('m, 'k, 's) udp_env \<Rightarrow> nat \<Rightarrow> hid \<Rightarrow> hid \<Rightarrow> int \<Rightarrow> address \<Rightarrow> ('m, 'k, 's) udp_loop \<Rightarrow> ('m, 'k, 's) udp_loop outcome" where
  "udp_construct env tid h ht fd local l =
     obind (sockaddrToString (ue_text env) local) (\<lambda>_.
     obind (handler_construct (udp_base env) tid h fd ev_default 
       (on_handler ht (\<lambda>_. handler_new ev_default) (on_udp (\<lambda>_. udp_new h ht local) l))) (\<lambda>l.
     setReading (udp_base env) tid h
       (on_handler h (\<lambda>x. setErrorCallBack (CB_user UC_error) (setReadCallBack (CB_user UC_read) x)) l)))"

definition udp_createConnection ::
  "('m, 'k, 's) udp_env \<Rightarrow> nat \<Rightarrow> hid \<Rightarrow> hid \<Rightarrow> string \<Rightarrow> 16 word \<Rightarrow> ('m, 'k, 's) udp_loop \<Rightarrow> ('m, 'k, 's) udp_loop outcome" where
  "udp_createConnection env tid h ht host port l =
     (let addr = address_text (ue_text env) host port False; (fd, l) = udp_call (ue_socket env (address_family addr)) l in
      case fd of None \<Rightarrow> Inl Exit
      | Some fd \<Rightarrow> obind (udp_construct env tid h ht fd address_default l) (\<lambda>l.
          Inr (on_udp (\<lambda>u. u\<lparr>u_peer := address_copy addr, u_server := False\<rparr>) l)))"

definition udp_createServer ::
  "('m, 'k, 's) udp_env \<Rightarrow> nat \<Rightarrow> hid \<Rightarrow> hid \<Rightarrow> string \<Rightarrow> 16 word \<Rightarrow> ('m, 'k, 's) udp_loop \<Rightarrow> ('m, 'k, 's) udp_loop outcome" where
  "udp_createServer env tid h ht bindHost port l =
     (let addr = address_text (ue_text env) bindHost port False; (fd, l) = udp_call (ue_socket env (address_family addr)) l in
      case fd of None \<Rightarrow> Inl Exit
      | Some fd \<Rightarrow> let (ok, l) = udp_call (ue_bind env fd addr) l in
          if \<not> ok then Inl Exit
          else obind (udp_construct env tid h ht fd addr l) (\<lambda>l. Inr (on_udp (\<lambda>u. u\<lparr>u_server := True\<rparr>) l)))"

definition udp_onMessage :: "'m \<Rightarrow> ('m, 'k, 's) udp_loop \<Rightarrow> ('m, 'k, 's) udp_loop" where
  "udp_onMessage m = on_udp (\<lambda>u. u\<lparr>u_message := Some m\<rparr>)"

definition udp_onError :: "'m \<Rightarrow> ('m, 'k, 's) udp_loop \<Rightarrow> ('m, 'k, 's) udp_loop" where
  "udp_onError m = on_udp (\<lambda>u. u\<lparr>u_error := Some m\<rparr>)"

text \<open>The name of the task is made from \<open>*dest\<close>, also for the default \<open>dest = nullptr\<close>.\<close>

definition udp_sendTo ::
  "('m, 'k, 's) udp_env \<Rightarrow> nat \<Rightarrow> string \<Rightarrow> address option \<Rightarrow> ('m, 'k, 's) udp_loop \<Rightarrow> ('m, 'k, 's) udp_loop outcome" where
  "udp_sendTo env tid s dest l =
     (if u_closed (udp l) then Inr l
      else case dest of None \<Rightarrow> Inl Null_pointer
           | Some a \<Rightarrow> obind (sockaddrToString (ue_text env) a) (\<lambda>_. submit (udp_base env) tid (T_user (UT_send s dest)) l))"

text \<open>The timer is a local variable: only its interval reaches the descriptor, its callback goes with it.\<close>

definition udp_startHeartbeat ::
  "('m, 'k, 's) udp_env \<Rightarrow> nat \<Rightarrow> time_interval \<Rightarrow> time_interval \<Rightarrow> ('m, 'k, 's) udp_loop \<Rightarrow> ('m, 'k, 's) udp_loop outcome" where
  "udp_startHeartbeat env tid interval maxIdle l =
     (let l = on_udp (\<lambda>u. u\<lparr>u_maxIdle := maxIdle, u_check := True\<rparr>) l; (t, l) = udp_call (ue_now env) l in
      obind (timer_new LowPrecision ''heartbeat'' interval FOREVER t) (\<lambda>timer.
      let (fd, l) = udp_call (ue_timerfd env) l in
      case fd of None \<Rightarrow> Inl Exit
      | Some fd \<Rightarrow>
          let l = snd (udp_call (\<lambda>k. ((), ue_settime env fd (settime_of LowPrecision timer) k)) l); ht = u_timer (udp l) in
          obind (handler_init (udp_base env) tid ht fd l) (\<lambda>l.
          setReading (udp_base env) tid ht (on_handler ht (setReadCallBack (CB_user UC_tick)) l))))"

definition udp_close :: "('m, 'k, 's) udp_env \<Rightarrow> nat \<Rightarrow> ('m, 'k, 's) udp_loop \<Rightarrow> ('m, 'k, 's) udp_loop outcome" where
  "udp_close env tid l =
     assertC (\<not> u_closed (udp l))
       (obind (removeListen (udp_base env) tid (u_handler (udp l)) l) (\<lambda>l. Inr (on_udp (\<lambda>u. u\<lparr>u_closed := True\<rparr>) l)))"

definition udp_destroy :: "('m, 'k, 's) udp_env \<Rightarrow> nat \<Rightarrow> ('m, 'k, 's) udp_loop \<Rightarrow> ('m, 'k, 's) udp_loop outcome" where
  "udp_destroy env tid l = udp_close env tid l"

definition udp_getPeerAddr :: "('m, 'k, 's) udp_loop \<Rightarrow> address outcome" where
  "udp_getPeerAddr l = assertC (\<not> u_server (udp l)) (Inr (address_copy (u_peer (udp l))))"

subsection \<open>The object and the loop\<close>

lemma udp_simps [simp]:
  "udp (on_udp f l) = f (udp l)" "udp (on_handler h g l) = udp l" "uw_kernel (udp_world (on_udp f l)) = uw_kernel (udp_world l)"
  "udp (snd (udp_call c l)) = udp l" "uw_kernel (udp_world (snd (udp_call c l))) = snd (c (uw_kernel (udp_world l)))"
  "fst (udp_call c l) = fst (c (uw_kernel (udp_world l)))"
  by (simp_all add: udp_def udp_world_def on_udp_def on_udp_world_def on_handler_def upd_handler_def udp_call_def split: prod.split)

lemma operator_epoll_udp: "uw_con (ep_kernel (operator_epoll (udp_os os) oper h r)) = uw_con (ep_kernel r)"
  by (simp add: operator_epoll_def udp_os_def log_errno_def Let_def split: prod.split option.split)

lemma write_wake_udp: "write_wake (udp_base env) l = Inr l' \<Longrightarrow> udp l' = udp l"
  by (auto simp: write_wake_def udp_base_def udp_os_def on_poller_def udp_def udp_world_def outcome_iff split: prod.splits)

lemma wakeup_udp: "wakeup (udp_base env) (l\<lparr>el_functions := q\<rparr>) = Inr l' \<Longrightarrow> udp l' = udp l"
  by (auto simp: wakeup_def udp_def udp_world_def dest!: write_wake_udp split: if_splits)

text \<open>Listening changes the loop, not the object.\<close>

lemma listen_udp:
  assumes "u \<in> {el_addListen, el_update_listen, el_remove_listen}" "u (udp_base env) tid h l = Inr l'"
  shows "udp l' = udp l"
proof -
  have os: "env_os (udp_base env) = udp_os (ue_os env)" by (simp add: udp_base_def)
  have "udp l' = udp l" if "on_poller (f (udp_os (ue_os env)) h) l = Inr l'" "f \<in> {add_listen, update_listen, remove_listen}" for f
    using that
    by (auto simp: operator_epoll_udp on_poller_def outcome_iff udp_def udp_world_def add_listen_def update_listen_def remove_listen_def remove_handler_def upd_handler_def Let_def)
  then show ?thesis using assms wakeup_udp
    by (auto simp: el_addListen_def el_update_listen_def el_remove_listen_def submit_def os split: if_splits)
qed

lemma handler_udp:
  "handler_init (udp_base env) tid h fd l = Inr l' \<Longrightarrow> udp l' = udp l"
  "setReading (udp_base env) tid h l = Inr l' \<Longrightarrow> udp l' = udp l"
  "removeListen (udp_base env) tid h l = Inr l' \<Longrightarrow> udp l' = udp l"
  using listen_udp[of el_addListen] listen_udp[of el_update_listen] listen_udp[of el_remove_listen]
  by (fastforce simp: handler_init_def setReading_def change_events_def handler_update_def removeListen_def outcome_iff)+

lemma startHeartbeat_udp:
  assumes "udp_startHeartbeat env tid interval maxIdle l = Inr l'"
  shows "udp l' = (udp l)\<lparr>u_maxIdle := maxIdle, u_check := True\<rparr>"
proof -
  obtain t l1 where c1: "udp_call (ue_now env) (on_udp (\<lambda>u. u\<lparr>u_maxIdle := maxIdle, u_check := True\<rparr>) l) = (t, l1)" by fastforce
  obtain fd l2 where c2: "udp_call (ue_timerfd env) l1 = (fd, l2)" by fastforce
  have "udp l1 = (udp l)\<lparr>u_maxIdle := maxIdle, u_check := True\<rparr>" "udp l2 = udp l1"
    using udp_simps(4)[of "ue_now env" "on_udp (\<lambda>u. u\<lparr>u_maxIdle := maxIdle, u_check := True\<rparr>) l"] udp_simps(4)[of "ue_timerfd env" l1] c1 c2
    by simp_all
  then show ?thesis using assms c1 c2
    by (auto simp: udp_startHeartbeat_def Let_def timer_new_def outcome_iff dest!: handler_udp split: option.splits)
qed

subsection \<open>The heartbeat\<close>

lemma udp_tick_dead:
  assumes "u_lastSend (udp l) + u_maxIdle (udp l) < fst (ue_now env (uw_kernel (udp_world l)))"
  obtains l' where "udp_tick env l = Inr l'" "\<not> u_alive (udp l')" "u_lastSend (udp l') = u_lastSend (udp l)" "u_maxIdle (udp l') = u_maxIdle (udp l)"
    "uw_kernel (udp_world l') = snd (ue_now env (uw_kernel (udp_world l)))"
proof -
  obtain t l1 where c: "udp_call (ue_now env) l = (t, l1)" by fastforce
  have "udp l1 = udp l" "uw_kernel (udp_world l1) = snd (ue_now env (uw_kernel (udp_world l)))" "t = fst (ue_now env (uw_kernel (udp_world l)))"
    using udp_simps(4-6)[of "ue_now env" l] c by simp_all
  then show ?thesis using that c assms by (simp add: udp_tick_def ti_greater_def ts_minus_def)
qed

text \<open>C40. The heartbeat sends nothing and declares the peer dead: whatever the peer does, when the clock is past
  the allowed idle time at every tick, then from the first tick on \<open>ispeerAlive\<close> is false, and the ticks
  have made no system call but reading the clock.\<close>

theorem heartbeat_declares_peer_dead:
  assumes "udp_startHeartbeat env tid interval maxIdle l = Inr l1" "u_lastSend (udp l) = 0" "\<forall>k. maxIdle < fst (ue_now env k)"
  shows "\<exists>l2. ofold (\<lambda>_. udp_tick env) (replicate (Suc n) ()) l1 = Inr l2 \<and> \<not> u_alive (udp l2) \<and>
    uw_kernel (udp_world l2) = ((\<lambda>k. snd (ue_now env k)) ^^ Suc n) (uw_kernel (udp_world l1))"
proof -
  have "\<exists>l2. ofold (\<lambda>_. udp_tick env) (replicate (Suc n) ()) l = Inr l2 \<and> \<not> u_alive (udp l2) \<and>
    uw_kernel (udp_world l2) = ((\<lambda>k. snd (ue_now env k)) ^^ Suc n) (uw_kernel (udp_world l))"
    if "u_lastSend (udp l) = 0" "u_maxIdle (udp l) = maxIdle" for l
    using that
  proof (induction n arbitrary: l)
    case 0
    then show ?case using udp_tick_dead[of l env] assms(3) by (auto simp: funpow_swap1)
  next
    case (Suc n)
    obtain l' where "udp_tick env l = Inr l'" "u_lastSend (udp l') = 0" "u_maxIdle (udp l') = maxIdle"
      "uw_kernel (udp_world l') = snd (ue_now env (uw_kernel (udp_world l)))"
      using udp_tick_dead[of l env] Suc.prems assms(3) by auto
    with Suc.IH[of l'] show ?case by (simp add: funpow_Suc_right del: funpow.simps)
  qed
  then show ?thesis using startHeartbeat_udp[OF assms(1)] assms(2) by simp
qed

definition demo_udp_env :: "(nat, int list, unit) udp_env" where
  "demo_udp_env = \<lparr>
     ue_os = \<lparr>os_epoll_ctl = (\<lambda>_ _ _ _ k. (None, k)), os_epoll_wait = (\<lambda>_ _ k. (Inr [], k)),
       os_eventfd_write = (\<lambda>_ _ k. (8, k)), os_eventfd_read = (\<lambda>_ k. (8, k))\<rparr>,
     ue_text = \<lparr>it_addr = (\<lambda>_. 0), it_pton6 = (\<lambda>_. None), it_ntop4 = (\<lambda>_. []), it_ntop6 = (\<lambda>_. [])\<rparr>,
     ue_socket = (\<lambda>_ k. (Some 3, k)), ue_bind = (\<lambda>_ _ k. (True, k)), ue_sendto = (\<lambda>_ s _ k. (Inr (length s), k)),
     ue_recvfrom = (\<lambda>_ _ k. (Inl EAGAIN, k)), ue_timerfd = (\<lambda>k. (Some 4, k)), ue_settime = (\<lambda>_ _ k. k), ue_now = (\<lambda>k. (1000, 1000 # k)),
     ue_dequeue = (\<lambda>q. case q of [] \<Rightarrow> None | t # ts \<Rightarrow> Some (t, ts)), ue_onMessage = (\<lambda>_ _ _ _. Inr), ue_onError = (\<lambda>_. Inr)\<rparr>"

definition demo_udp_loop :: "(nat, int list, unit) udp_loop" where
  "demo_udp_loop = \<lparr>el_poller = epoll_new (\<lambda>_. handler_new ev_default) \<lparr>uw_kernel = [], uw_con = udp_new 1 2 address_default, uw_app = ()\<rparr>,
     el_id = 0, el_active = [], el_functions = [], el_thread = 0, el_status = ls_Init, el_wake = 0\<rparr>"

theorem heartbeat_declares_peer_dead_witness:
  "\<exists>l1 l2. udp_startHeartbeat demo_udp_env 0 5 30 demo_udp_loop = Inr l1 \<and>
     ofold (\<lambda>_. udp_tick demo_udp_env) (replicate (Suc 1) ()) l1 = Inr l2 \<and> \<not> u_alive (udp l2) \<and>
     uw_kernel (udp_world l2) = 1000 # 1000 # uw_kernel (udp_world l1)"
proof -
  have "ev_validate ev_read" by code_simp
  then obtain e where e: "ev_add ev_read ev_default = Inr e" by (simp add: ev_add_def)
  have "\<exists>l1. udp_startHeartbeat demo_udp_env 0 5 30 demo_udp_loop = Inr l1"
    by (simp add: udp_startHeartbeat_def demo_udp_env_def demo_udp_loop_def udp_call_def on_udp_def on_udp_world_def udp_def udp_world_def
        epoll_new_def udp_new_def timer_new_def handler_init_def setReading_def change_events_def handler_update_def el_addListen_def
        el_update_listen_def isInLoopThread_def on_poller_def on_handler_def el_handler_def reactor_defs operator_epoll_def udp_base_def
        udp_os_def handler_new_def setReadCallBack_def st_New_def st_Added_def FOREVER_def e)
  then obtain l1 where l1: "udp_startHeartbeat demo_udp_env 0 5 30 demo_udp_loop = Inr l1" by blast
  have "u_lastSend (udp demo_udp_loop) = 0" "\<forall>k. 30 < fst (ue_now demo_udp_env k)"
    by (simp_all add: demo_udp_loop_def udp_def udp_world_def epoll_new_def udp_new_def demo_udp_env_def)
  from heartbeat_declares_peer_dead[OF l1 this, of 1] l1 show ?thesis by (simp add: demo_udp_env_def)
qed

text \<open>The default destination is a null pointer, and a connection that was closed cannot be destroyed.\<close>

lemma sendTo_default_null: "\<not> u_closed (udp l) \<Longrightarrow> udp_sendTo env tid s None l = Inl Null_pointer"
  by (simp add: udp_sendTo_def)

lemma destroy_after_close: "udp_close env tid l = Inr l' \<Longrightarrow> udp_destroy env tid l' = Inl Assertion"
  by (auto simp: udp_close_def udp_destroy_def outcome_iff)

end
