(* ===== verification/Spec2Isabelle.thy ===== *)
theory Spec2Isabelle
  imports Codec Event_Loop Ring_Concurrency Http_Properties Http_Router Tcp_Connection_Props Timer_Wheel Http_Service_Props Thread_Pool_Props Config_Center Tcp_Client Tcp_Server_Props Con_Pool Fair_Mutex Proto_Codec Async_Log Udp
begin

text \<open>
  A verification of \<open>yy\<close>, a C++17 network library in the reactor style with a thread pool.

  \<^bold>\<open>The program.\<close> An event loop (\<open>Net/src/EventLoop.cpp\<close>) waits on an epoll poller (\<open>Net/Poller/Epoll.cpp\<close>),
  dispatches what the kernel reports to the event handlers that are registered with it
  (\<open>Net/src/EventHandler.cpp\<close>) and then runs the tasks other threads have put into its queue. A TCP
  connection (\<open>Net/src/TcpConnection.cpp\<close>) is a handler with a receive and a send buffer
  (\<open>Net/src/TcpBuffer.cpp\<close>); codecs (\<open>Net/src/Codec.cpp\<close>) and the HTTP parser (\<open>Net/HTTP/http.cpp\<close>) cut the
  received bytes into messages, and the HTTP server and client (\<open>Net/HTTP/HttpServer.h\<close>, \<open>HttpClient.h\<close>)
  are callbacks of connections. The TCP client (\<open>Net/src/TcpClient.cpp\<close>) makes such connections and makes
  them again when they are lost; the TCP server (\<open>Net/src/TcpServer.cpp\<close>, \<open>Net/include/Acceptor.h\<close>) accepts them on
  the loops of its acceptors and hands them to the loops of its workers. UDP sockets (\<open>Net/UDP/UdpConnection.cpp\<close>) and the
  framing of protobuf messages (\<open>Net/protobuf/ProtoMsg.cpp\<close>) use the same loop and buffer. Timers (\<open>Net/include/TimerQueue.tpp\<close>, \<open>Net/src/TimerWheel.cpp\<close>) hang on
  descriptors of the loop. The lock-free ring (\<open>Common/LockFreeCurcularQueue.h\<close>) and the thread pool
  (\<open>ThreadPool/ThreadPool.tpp\<close>) are used by several threads at once, and so is the log (\<open>Common/AsyncLog.cpp\<close>).

  \<^bold>\<open>The model.\<close> Operations are functions on explicit states that return \<open>fault + 'a\<close> (\<open>outcome\<close>): a failed
  assertion of the debug build, an access outside an object, a null pointer, an empty
  \<open>std::function\<close>, an exception or a call of \<open>exit\<close> is an \<open>Inl\<close>. \<open>size_t\<close> arithmetic wraps at 64 bits;
  event bits, ring positions, ports and addresses are words. Objects that are shared through pointers
  (handlers, timers, connections, workers) live in tables indexed by their address. Closures the library
  itself creates are constructors of a datatype; code of the application, the kernel, the clock and
  third-party code are parameters, and what the library relies on is a named hypothesis
  (\<open>epoll_ctl_spec\<close>, \<open>send_spec\<close>, \<open>shutdown_spec\<close>, \<open>sockets_open\<close>, \<open>connect_fails\<close>, \<open>accept_spec\<close>, \<open>serialize_spec\<close>,
  \<open>parse_spec\<close>, \<open>log_ready\<close>) that a concrete instance is shown to satisfy.

  \<^item> \<open>Prelude\<close>: outcomes, \<open>size_t\<close>, byte arrays, C library functions; \<open>Std_Map\<close>: \<open>std::map\<close>, numbers as text.
  \<^item> \<open>String_Piece\<close> (\<open>Common/stringPiece.h\<close>): pointer loops, related to list functions.
  \<^item> \<open>Tcp_Buffer\<close>: the buffer's invariant, its refinement of a byte queue, reading with \<open>readv\<close>.
  \<^item> \<open>Codec\<close>: both codecs; every stream of frames, cut anywhere, gives back the messages.
  \<^item> \<open>Event_Mask\<close> (\<open>Net/include/Event.h\<close>), \<open>Epoll_Poller\<close>, \<open>Event_Loop\<close>: event sets, the poller as a
    refinement of a map from descriptors to interests, the dispatch of events, the budget of pending
    tasks, the end of a loop that was told to quit.
  \<^item> \<open>Lock_Free_Queue\<close>, \<open>Ring_Concurrency\<close>: one step per atomic access; used by one thread the ring is a
    bounded queue, and under every interleaving it delivers in order what was put in, each slot being
    touched by one thread at a time.
  \<^item> \<open>Http\<close>, \<open>Http_Properties\<close>, \<open>Http_Router\<close>: messages, incremental decoding, printing and routes;
    round trips, and parsing in pieces equals parsing at once.
  \<^item> \<open>Tcp_Connection\<close>, \<open>Tcp_Connection_Props\<close>: every operation and handler on the event loop; what is sent,
    kept, flushed and closed.
  \<^item> \<open>Http_Service\<close>, \<open>Http_Service_Props\<close>: the server and client callbacks; pipelined requests are
    answered in order.
  \<^item> \<open>Timer_Queue\<close>, \<open>Timer_Wheel\<close>: time stamps, timers, both timer structures; which timers are due.
  \<^item> \<open>Thread_Pool\<close>, \<open>Thread_Pool_Props\<close>: clients, workers, stealing, the monitor and shutdown as steps;
    invariants by induction over all interleavings.
  \<^item> \<open>Inet_Address\<close> (\<open>Net/src/InetAddress.cpp\<close>, parts of \<open>sockets.cpp\<close>), \<open>Tcp_Client\<close>: addresses, the search for a
    free port, the connector's attempts and its exponential back-off.
  \<^item> \<open>Config_Center\<close> (\<open>Net/src/ConfigCenter.cpp\<close>): INI files; a printed configuration is read back.
  \<^item> \<open>Tcp_Server\<close>, \<open>Tcp_Server_Props\<close> (\<open>TcpServer\<close>, \<open>Acceptor\<close>, \<open>AcceptorPool\<close>, \<open>EventLoopThread\<close>, \<open>EventLoopThreadPool\<close>): main thread,
    acceptors and workers as steps; no connection is lost or listed twice, and connections go round the workers.
    \<open>Con_Pool\<close> (\<open>Net/include/TcpConPool.h\<close>): the pool of reusable connections.
  \<^item> \<open>Proto_Codec\<close>: the protobuf streams over a buffer and the framing; a message comes back.
  \<^item> \<open>Udp\<close>: UDP sockets and their heartbeat.
  \<^item> \<open>Fair_Mutex\<close> (\<open>FairMutex\<close> of \<open>Common/locker.h\<close>): the lock is exclusive and handed on in the order of the calls.
  \<^item> \<open>Log_Sink\<close> (\<open>LogFilter.h\<close>, \<open>LogAppender.cpp\<close>, \<open>SyncLog.cpp\<close>), \<open>Async_Log\<close>: the filter, the rolled files and both logs; what the
    files hold, and in which order.

  \<^bold>\<open>Interfaces.\<close> \<open>byte_fifo\<close> (buffer), \<open>frame_codec\<close> (both codecs), \<open>bounded_fifo\<close> (ring), \<open>poller\<close> (epoll),
  \<open>round_queue\<close> (task queue of the loop), \<open>keyed_table\<close> (\<open>std::map\<close>, routes) and \<open>line_sink\<close> (both ways to append to a
  log file) are locales; each is
  interpreted on the definitions of its component and the properties rest on the interpreted facts.

  \<^bold>\<open>Fuel.\<close> Loops that the source bounds by data are total functions with a measure. The loops that need not end take fuel:
  the event loop (\<open>el_loop\<close>; for a quitting loop the fuel needed is given), a thread of the ring running alone
  (a constant suffices, proved with the refinement), the message loop of the HTTP server (one round per
  request suffices, proved; with \<open>Connection: close\<close> no fuel does, also proved), the accept loop (more rounds than
  the backlog has connections suffice, proved), the writing of a protobuf message through its stream (as many
  rounds as it has bytes suffice, proved) and the recursion of the
  connector through \<open>restart\<close> (one level suffices unless \<open>connect\<close> fails with an unlisted error, for
  which no depth does). Running out is the value \<open>Inl Out_of_fuel\<close> and no theorem takes it as success.

  \<^bold>\<open>Concurrency.\<close> The ring and the pool are modelled under sequential consistency; a code section under one
  mutex is one step, except under the mutex of the worker table, which is held across steps. The objects of an
  event loop belong to its thread, as the assertions of the source demand; the interleaving of loops is the
  order of tasks in their queues. The server is a system of threads of its own, in which a step is the dispatch of one
  event or task of a loop; in the asynchronous log every access to a shared pointer is a step.

  \<^bold>\<open>Not modelled.\<close> The calls of the log inside the other components, socket options and the creation of
  descriptors are system calls without a result the code uses. RPC (\<open>Net/rpc\<close>) is in no build target, includes
  headers the repository does not have, and rests on generated code and protobuf's reflection. \<open>SignalHandler\<close> is a map of
  functions the operating system calls. \<open>sem\<close>, \<open>locker\<close> and \<open>cond\<close> are one system call each. \<open>Common/concurrentqueue.h\<close> is vendored;
  \<open>Poll\<close> and \<open>Select\<close> are commented out; tests and benchmarks are not part of the library.
\<close>

end
